(* ===== verification/SF_Prelude.thy ===== *)
theory SF_Prelude
  imports Main "HOL-Library.Word" "HOL-Library.Multiset" "HOL-Library.Sublist"
    "HOL-Library.Monad_Syntax"
begin

text \<open>
  Shared vocabulary of the development: the machine integers of
  \<^verbatim>\<open>common/libtools/Types.h\<close>, the parts of the C and C++ standard library the sources
  use (decimal printing, \<^verbatim>\<open>atoi\<close>, the swap-with-back removal from a vector), a loop
  combinator for code that can abort, and the list and multiset facts the component
  theories share.

  Code that can fail an assertion or leave defined behaviour returns an \<open>option\<close>:
  \<open>None\<close> is the abort.
\<close>

unbundle bit_operations_syntax

type_synonym u8 = "8 word"
type_synonym u16 = "16 word"
type_synonym u32 = "32 word"
type_synonym u64 = "64 word"

text \<open>
  Collections: \<open>sf_mset\<close> for conservation facts (what a routine does to the multiset of
  the cards it handles), \<open>sf_inv\<close> for invariant preservation.
\<close>

named_theorems sf_mset
named_theorems sf_inv

section \<open>Loops over a vector that append to an output vector and may abort\<close>

text \<open>
  \<open>concat_opt f xs\<close> is \<^verbatim>\<open>for (x : xs) { out += f(x); }\<close> where the body can abort.
\<close>

fun concat_opt :: "('a \<Rightarrow> 'b list option) \<Rightarrow> 'a list \<Rightarrow> 'b list option" where
  "concat_opt f [] = Some []"
| "concat_opt f (x # xs) = do { ys \<leftarrow> f x; zs \<leftarrow> concat_opt f xs; Some (ys @ zs) }"

lemma concat_opt_Some_iff:
  "concat_opt f xs = Some zs \<longleftrightarrow>
     (\<forall>x\<in>set xs. f x \<noteq> None) \<and> zs = concat (map (\<lambda>x. the (f x)) xs)"
proof (induction xs arbitrary: zs)
  case Nil
  then show ?case by auto
next
  case (Cons x xs)
  show ?case
  proof (cases "concat_opt f xs")
    case None
    with Cons.IH [of "concat (map (\<lambda>x. the (f x)) xs)"] show ?thesis by (auto split: bind_splits)
  next
    case (Some ys)
    with Cons.IH [of ys] show ?thesis by (auto split: bind_splits)
  qed
qed

lemma concat_opt_total:
  assumes "\<And>x. x \<in> set xs \<Longrightarrow> f x = Some (g x)"
  shows "concat_opt f xs = Some (concat (map g xs))"
  using assms by (induction xs) auto

lemma concat_opt_in:
  assumes "concat_opt f xs = Some zs" and "z \<in> set zs"
  obtains x ys where "x \<in> set xs" and "f x = Some ys" and "z \<in> set ys"
  using assms by (auto simp: concat_opt_Some_iff)

lemma concat_opt_part:
  assumes "concat_opt f xs = Some zs" and "x \<in> set xs"
  obtains ys where "f x = Some ys" and "set ys \<subseteq> set zs"
proof -
  from assms obtain ys where "f x = Some ys" by (auto simp: concat_opt_Some_iff)
  moreover from this assms have "set ys \<subseteq> set zs" by (auto simp: concat_opt_Some_iff intro: bexI [of _ x])
  ultimately show ?thesis by (rule that)
qed

section \<open>Removing an element by swapping in the last one\<close>

text \<open>
  \<^verbatim>\<open>cards[index] = cards.back(); cards.pop_back();\<close>
\<close>

definition swap_remove :: "'a list \<Rightarrow> nat \<Rightarrow> 'a list" where
  "swap_remove xs i = butlast (xs[i := last xs])"

lemma length_swap_remove [simp]: "length (swap_remove xs i) = length xs - 1"
  by (simp add: swap_remove_def)

lemma mset_swap_remove [sf_mset]:
  assumes "i < length xs"
  shows "mset xs = add_mset (xs ! i) (mset (swap_remove xs i))"
proof -
  from assms have "xs \<noteq> []" by auto
  then obtain ys y where xs: "xs = ys @ [y]" by (metis rev_exhaust)
  show ?thesis
  proof (cases "i = length ys")
    case True
    then show ?thesis by (simp add: xs swap_remove_def)
  next
    case False
    with assms xs have i: "i < length ys" by simp
    then have "mset ys = add_mset (ys ! i) (mset ys - {# ys ! i #})" by simp
    with i show ?thesis
      by (simp add: xs swap_remove_def list_update_append nth_append mset_update)
  qed
qed

section \<open>Decimal numbers: \<^verbatim>\<open>std::to_string\<close> and \<^verbatim>\<open>atoi\<close>\<close>

definition digit_char :: "nat \<Rightarrow> char" where
  "digit_char d = char_of (48 + d)"

definition is_digit :: "char \<Rightarrow> bool" where
  "is_digit c \<longleftrightarrow> 48 \<le> (of_char c :: nat) \<and> (of_char c :: nat) \<le> 57"

definition digit_val :: "char \<Rightarrow> int" where
  "digit_val c = int (of_char c) - 48"

definition is_space :: "char \<Rightarrow> bool" where
  "is_space c \<longleftrightarrow> (of_char c :: nat) = 32 \<or> (9 \<le> (of_char c :: nat) \<and> (of_char c :: nat) \<le> 13)"

fun nat_to_string :: "nat \<Rightarrow> string" where
  "nat_to_string n =
     (if n < 10 then [digit_char n] else nat_to_string (n div 10) @ [digit_char (n mod 10)])"

declare nat_to_string.simps [simp del]

definition int_to_string :: "int \<Rightarrow> string" where
  "int_to_string i = (if i < 0 then CHR ''-'' # nat_to_string (nat (- i)) else nat_to_string (nat i))"

fun atoi_digits :: "int \<Rightarrow> string \<Rightarrow> int" where
  "atoi_digits acc [] = acc"
| "atoi_digits acc (c # cs) =
     (if is_digit c then atoi_digits (10 * acc + digit_val c) cs else acc)"

text \<open>
  \<^verbatim>\<open>atoi\<close>: leading white space, an optional sign, then the digits up to the first other
  character. A value outside \<^verbatim>\<open>int\<close> is undefined in C; the model does not wrap it.
\<close>

definition atoi :: "string \<Rightarrow> int" where
  "atoi s = (case dropWhile is_space s of
      [] \<Rightarrow> 0
    | c # cs \<Rightarrow> (if c = CHR ''-'' then - atoi_digits 0 cs
                 else if c = CHR ''+'' then atoi_digits 0 cs
                 else atoi_digits 0 (c # cs)))"

lemma of_char_digit [simp]: "d < 10 \<Longrightarrow> (of_char (digit_char d) :: nat) = 48 + d"
  by (simp add: digit_char_def)

lemma is_digit_digit_char [simp]: "d < 10 \<Longrightarrow> is_digit (digit_char d)"
  by (simp add: is_digit_def)

lemma digit_val_digit_char [simp]:
  "d < 10 \<Longrightarrow> digit_val (digit_char d) = int d"
  by (simp add: digit_val_def)

lemma atoi_digits_append:
  "(\<forall>c\<in>set xs. is_digit c) \<Longrightarrow> atoi_digits acc (xs @ ys) = atoi_digits (atoi_digits acc xs) ys"
  by (induction xs arbitrary: acc) auto

lemma nat_to_string_digits: "\<forall>c\<in>set (nat_to_string n). is_digit c"
proof (induction n rule: nat_to_string.induct)
  case (1 n)
  then show ?case by (subst nat_to_string.simps) auto
qed

lemma atoi_digits_nat_to_string: "atoi_digits 0 (nat_to_string n) = int n"
proof (induction n rule: nat_to_string.induct)
  case (1 n)
  show ?case
  proof (cases "n < 10")
    case True
    then show ?thesis by (subst nat_to_string.simps) simp
  next
    case False
    with 1 have "atoi_digits 0 (nat_to_string (n div 10)) = int (n div 10)" by simp
    with False show ?thesis
      by (subst nat_to_string.simps)
        (simp add: atoi_digits_append nat_to_string_digits zmod_int zdiv_int)
  qed
qed

lemma nat_to_string_nonempty [simp]: "nat_to_string n \<noteq> []"
  by (subst nat_to_string.simps) simp

lemma digit_not_special: "is_digit c \<Longrightarrow> \<not> is_space c \<and> c \<noteq> CHR ''-'' \<and> c \<noteq> CHR ''+'' \<and> c \<noteq> CHR '':''"
  by (auto simp: is_digit_def is_space_def)

lemma atoi_nat_to_string [simp]: "atoi (nat_to_string n) = int n"
proof -
  obtain c cs where c: "nat_to_string n = c # cs"
    by (meson list.exhaust nat_to_string_nonempty)
  with nat_to_string_digits [of n] have "is_digit c" by simp
  with digit_not_special [of c] c atoi_digits_nat_to_string [of n] show ?thesis
    by (simp add: atoi_def)
qed

section \<open>Lists, sublists and multisets\<close>

lemma mset_filter_split: "mset xs = mset (filter P xs) + mset (filter (\<lambda>x. \<not> P x) xs)"
  by (induction xs) auto

lemma subseq_mset: "subseq xs ys \<Longrightarrow> mset xs \<subseteq># mset ys"
  by (induction xs ys rule: list_emb.induct) (auto intro: subset_mset.order_trans)

lemma subseq_set: "subseq xs ys \<Longrightarrow> set xs \<subseteq> set ys"
  by (metis set_mset_mono set_mset_mset subseq_mset)

lemma subseq_sorted_wrt: "subseq xs ys \<Longrightarrow> sorted_wrt P ys \<Longrightarrow> sorted_wrt P xs"
  by (induction xs ys rule: list_emb.induct) (auto dest: subseq_set)

lemma subseq_distinct: "subseq xs ys \<Longrightarrow> distinct ys \<Longrightarrow> distinct xs"
  by (induction xs ys rule: list_emb.induct) (auto dest: subseq_set)

lemma subseq_of_mset: "M \<subseteq># mset xs \<Longrightarrow> \<exists>ys. subseq ys xs \<and> mset ys = M"
proof (induction xs arbitrary: M)
  case Nil
  then show ?case by simp
next
  case (Cons x xs)
  show ?case
  proof (cases "x \<in># M")
    case True
    then have M: "M = add_mset x (M - {#x#})" by simp
    with Cons.prems have "M - {#x#} \<subseteq># mset xs" by (metis mset.simps(2) mset_subset_eq_add_mset_cancel)
    with Cons.IH obtain ys where "subseq ys xs" "mset ys = M - {#x#}" by blast
    with M show ?thesis by (intro exI [of _ "x # ys"]) auto
  next
    case False
    with Cons.prems have "M \<subseteq># mset xs"
      using subset_mset.diff_add_assoc mset_subset_eq_insertD by (metis diff_single_trivial mset.simps(2) add_mset_remove_trivial
        mset_subset_eq_exists_conv subset_eq_diff_conv union_single_eq_diff add_mset_add_single)
    with Cons.IH obtain ys where "subseq ys xs" "mset ys = M" by blast
    then show ?thesis by blast
  qed
qed

lemma filter_foldl_remove1:
  "filter P (foldl (\<lambda>xs x. remove1 x xs) ys zs) = foldl (\<lambda>xs x. remove1 x xs) (filter P ys) zs"
  by (induction zs arbitrary: ys) (simp_all add: filter_remove1)

lemma mset_foldl_remove1 [sf_mset]:
  "mset (foldl (\<lambda>xs x. remove1 x xs) ys zs) = mset ys - mset zs"
  by (induction zs arbitrary: ys) simp_all

lemma length_le_of_mset: "mset xs \<subseteq># mset ys \<Longrightarrow> length xs \<le> length ys"
  using size_mset_mono by fastforce

end
