(* ===== verification/Poker_Card.thy ===== *)
theory Poker_Card
  imports SF_Prelude
begin

text \<open>
  The cards of the rummy table: \<^verbatim>\<open>PokerCard\<close> and \<^verbatim>\<open>CardGroup\<close> of
  \<^verbatim>\<open>server/gamesvr/CardDealer.h\<close> and \<^verbatim>\<open>CardDealer.cpp\<close>, with their three wire formats
  (protobuf message, \<^verbatim>\<open>color:point\<close> string, 16-bit database card).
\<close>

record PokerCard =
  m_color :: u8
  m_point :: u8

text \<open>The enumerators of \<^verbatim>\<open>PokerCard::PokerColor\<close> and \<^verbatim>\<open>PokerCard::PokerPoint\<close> the code names.\<close>

abbreviation (input) spades :: u8 where "spades \<equiv> 1"
abbreviation (input) diamonds :: u8 where "diamonds \<equiv> 4"
abbreviation (input) P2 :: u8 where "P2 \<equiv> 2"
abbreviation (input) P3 :: u8 where "P3 \<equiv> 3"
abbreviation (input) PA :: u8 where "PA \<equiv> 14"
abbreviation (input) JOKER1 :: u8 where "JOKER1 \<equiv> 15"
abbreviation (input) JOKER2 :: u8 where "JOKER2 \<equiv> 16"

definition mk_card :: "u8 \<Rightarrow> u8 \<Rightarrow> PokerCard" where
  "mk_card col pt = \<lparr>m_color = col, m_point = pt\<rparr>"

text \<open>\<^verbatim>\<open>PokerCard(void)\<close>.\<close>

definition default_card :: PokerCard where
  "default_card = \<lparr>m_color = 0, m_point = 0\<rparr>"

text \<open>The point as the \<^verbatim>\<open>int\<close> it is promoted to in arithmetic and comparisons.\<close>

definition pt :: "PokerCard \<Rightarrow> int" where
  "pt c = uint (m_point c)"

definition is_valid_card :: "PokerCard \<Rightarrow> bool" where
  "is_valid_card c \<longleftrightarrow>
     (if m_point c \<ge> JOKER1 then m_point c \<le> JOKER2
      else m_color c \<ge> spades \<and> m_color c \<le> diamonds \<and> m_point c \<ge> P2 \<and> m_point c \<le> PA)"

definition get_score :: "int \<Rightarrow> PokerCard \<Rightarrow> int" where
  "get_score joker_point c =
     (if m_point c \<ge> P2 \<and> m_point c \<le> PA \<and> pt c \<noteq> joker_point
      then (if pt c > 10 then 10 else pt c) else 0)"

section \<open>The order on cards: \<^verbatim>\<open>operator<\<close>\<close>

definition card_less :: "PokerCard \<Rightarrow> PokerCard \<Rightarrow> bool" where
  "card_less a b \<longleftrightarrow>
     (if m_point a \<noteq> m_point b then m_point a < m_point b else m_color a < m_color b)"

text \<open>
  It makes cards a linear order, so that \<^verbatim>\<open>std::sort\<close> and \<^verbatim>\<open>std::list::sort\<close> on cards
  are the library's \<open>sort\<close>: two cards that are equivalent under it are equal, so the
  sorted vector is unique.
\<close>

instantiation PokerCard_ext :: (linorder) linorder
begin

definition less_PokerCard_ext :: "'a PokerCard_scheme \<Rightarrow> 'a PokerCard_scheme \<Rightarrow> bool" where
  "less_PokerCard_ext a b \<longleftrightarrow>
     (if m_point a \<noteq> m_point b then m_point a < m_point b
      else if m_color a \<noteq> m_color b then m_color a < m_color b
      else PokerCard.more a < PokerCard.more b)"

definition less_eq_PokerCard_ext :: "'a PokerCard_scheme \<Rightarrow> 'a PokerCard_scheme \<Rightarrow> bool" where
  "less_eq_PokerCard_ext a b \<longleftrightarrow> a < b \<or> a = b"

instance
proof
  fix x y z :: "'a PokerCard_scheme"
  show "(x < y) = (x \<le> y \<and> \<not> y \<le> x)"
    by (auto simp: less_PokerCard_ext_def less_eq_PokerCard_ext_def split: if_splits)
  show "x \<le> x" by (simp add: less_eq_PokerCard_ext_def)
  show "x \<le> y \<Longrightarrow> y \<le> z \<Longrightarrow> x \<le> z"
    by (auto simp: less_PokerCard_ext_def less_eq_PokerCard_ext_def split: if_splits)
  show "x \<le> y \<Longrightarrow> y \<le> x \<Longrightarrow> x = y"
    by (auto simp: less_PokerCard_ext_def less_eq_PokerCard_ext_def split: if_splits)
  show "x \<le> y \<or> y \<le> x"
    by (cases x; cases y) (auto simp: less_PokerCard_ext_def less_eq_PokerCard_ext_def)
qed

end

lemma card_less_eq: "card_less a b \<longleftrightarrow> a < b"
  by (simp add: card_less_def less_PokerCard_ext_def)

lemma card_le_point: "(a :: PokerCard) \<le> b \<Longrightarrow> m_point a \<le> m_point b"
  by (auto simp: less_eq_PokerCard_ext_def less_PokerCard_ext_def split: if_splits)

lemma card_less_same_point: "(a :: PokerCard) < b \<Longrightarrow> m_point a = m_point b \<Longrightarrow> m_color a < m_color b"
  by (auto simp: less_PokerCard_ext_def split: if_splits)

lemma pt_nonneg [simp]: "0 \<le> pt c"
  by (simp add: pt_def)

lemma pt_less_256: "pt c < 256"
  using uint_lt2p [of "m_point c"] by (simp add: pt_def)

lemma pt_le_iff: "pt a \<le> pt b \<longleftrightarrow> m_point a \<le> m_point b"
  by (simp add: pt_def word_le_def)

lemma pt_eq_iff: "pt a = pt b \<longleftrightarrow> m_point a = m_point b"
  by (simp add: pt_def word_uint_eq_iff)

lemma get_score_bounds: "0 \<le> get_score j c \<and> get_score j c \<le> 10"
  by (simp add: get_score_def)

section \<open>The three encodings of a card\<close>

text \<open>
  \<^verbatim>\<open>MsgCard\<close> and \<^verbatim>\<open>PB_CardGroup\<close> are protobuf messages with \<^verbatim>\<open>int32\<close> fields
  (\<^verbatim>\<open>message/GameMsg.proto\<close>); assigning a field to a \<^verbatim>\<open>TY_UINT8\<close> keeps its low byte.
\<close>

record MsgCard =
  msg_point :: u32
  msg_color :: u32

definition to_msg_card :: "PokerCard \<Rightarrow> MsgCard \<Rightarrow> MsgCard" where
  "to_msg_card c msg = msg\<lparr>msg_point := ucast (m_point c), msg_color := ucast (m_color c)\<rparr>"

definition parse_msg_card :: "MsgCard \<Rightarrow> PokerCard \<Rightarrow> PokerCard" where
  "parse_msg_card msg c = c\<lparr>m_point := ucast (msg_point msg), m_color := ucast (msg_color msg)\<rparr>"

definition card_to_string :: "PokerCard \<Rightarrow> string" where
  "card_to_string c =
     int_to_string (uint (m_color c)) @ '':'' @ int_to_string (uint (m_point c))"

definition parse_string :: "string \<Rightarrow> PokerCard \<Rightarrow> PokerCard" where
  "parse_string v c =
     (if CHR '':'' \<notin> set v then c
      else
        let up = takeWhile (\<lambda>x. x \<noteq> CHR '':'') v;
            down = tl (dropWhile (\<lambda>x. x \<noteq> CHR '':'') v)
        in c\<lparr>m_color := word_of_int (atoi up), m_point := word_of_int (atoi down)\<rparr>)"

text \<open>
  \<^verbatim>\<open>to_db_card\<close> returns a \<^verbatim>\<open>short\<close>; the model keeps its 16 bits, which is what
  \<^verbatim>\<open>parse_db_card(unsigned short)\<close> reads back.
\<close>

definition to_db_card :: "PokerCard \<Rightarrow> u16" where
  "to_db_card c = (let db_card = ucast (m_color c) :: u16 in push_bit 8 db_card + ucast (m_point c))"

definition parse_db_card :: "u16 \<Rightarrow> PokerCard \<Rightarrow> PokerCard" where
  "parse_db_card v c = c\<lparr>m_point := ucast (v AND 0x00FF), m_color := ucast (drop_bit 8 v)\<rparr>"

section \<open>Card groups\<close>

text \<open>The enumerators of \<^verbatim>\<open>CardGroup\<close>; the type arrives from the client as an \<^verbatim>\<open>int32\<close>.\<close>

abbreviation (input) GROUP_INVALID :: int where "GROUP_INVALID \<equiv> 0"
abbreviation (input) GROUP_STAIGHT :: int where "GROUP_STAIGHT \<equiv> 1"
abbreviation (input) GROUP_THREE_KIND :: int where "GROUP_THREE_KIND \<equiv> 2"

record CardGroup =
  m_type :: int
  m_cards :: "PokerCard list"

definition default_group :: CardGroup where
  "default_group = \<lparr>m_type = 0, m_cards = []\<rparr>"

record PB_CardGroup =
  pb_cards :: "MsgCard list"
  pb_type :: int

definition default_msg_card :: MsgCard where
  "default_msg_card = \<lparr>msg_point = 0, msg_color = 0\<rparr>"

definition default_pb_group :: PB_CardGroup where
  "default_pb_group = \<lparr>pb_cards = [], pb_type = 0\<rparr>"

text \<open>\<^verbatim>\<open>CopyCardToMsg\<close>: one \<^verbatim>\<open>Add()\<close> per card.\<close>

fun CopyCardToMsg :: "PokerCard list \<Rightarrow> MsgCard list \<Rightarrow> MsgCard list" where
  "CopyCardToMsg [] pb = pb"
| "CopyCardToMsg (c # cs) pb = CopyCardToMsg cs (pb @ [to_msg_card c default_msg_card])"

definition to_msg_group :: "CardGroup \<Rightarrow> PB_CardGroup \<Rightarrow> PB_CardGroup" where
  "to_msg_group g pb = pb\<lparr>pb_type := m_type g, pb_cards := CopyCardToMsg (m_cards g) (pb_cards pb)\<rparr>"

text \<open>\<^verbatim>\<open>parse_msg_group\<close> appends to the cards the group already has.\<close>

fun parse_msg_cards :: "MsgCard list \<Rightarrow> PokerCard list \<Rightarrow> PokerCard list" where
  "parse_msg_cards [] out = out"
| "parse_msg_cards (m # ms) out = parse_msg_cards ms (out @ [parse_msg_card m default_card])"

definition parse_msg_group :: "PB_CardGroup \<Rightarrow> CardGroup \<Rightarrow> CardGroup" where
  "parse_msg_group pb g = g\<lparr>m_type := pb_type pb, m_cards := parse_msg_cards (pb_cards pb) (m_cards g)\<rparr>"

fun copy_group_to_msg :: "CardGroup list \<Rightarrow> PB_CardGroup list \<Rightarrow> PB_CardGroup list" where
  "copy_group_to_msg [] pb = pb"
| "copy_group_to_msg (g # gs) pb = copy_group_to_msg gs (pb @ [to_msg_group g default_pb_group])"

fun ParseMsgGroup :: "CardGroup list \<Rightarrow> PB_CardGroup list \<Rightarrow> CardGroup list" where
  "ParseMsgGroup groups [] = groups"
| "ParseMsgGroup groups (pb # pbs) =
     ParseMsgGroup (groups @ [parse_msg_group pb default_group]) pbs"

section \<open>Round trips\<close>

lemma ucast_u8_u32 [simp]: "(ucast (ucast (x :: u8) :: u32) :: u8) = x"
  by (simp add: ucast_up_ucast_id is_up)

lemma parse_to_msg_card [simp]: "parse_msg_card (to_msg_card c m) c' = c'\<lparr>m_point := m_point c, m_color := m_color c\<rparr>"
  by (simp add: parse_msg_card_def to_msg_card_def)

lemma card_fields_update [simp]: "(c' :: PokerCard)\<lparr>m_point := m_point c, m_color := m_color c\<rparr> = c"
  by (cases c'; cases c) simp

lemma card_fields_update' [simp]: "(c' :: PokerCard)\<lparr>m_color := m_color c, m_point := m_point c\<rparr> = c"
  by (cases c'; cases c) simp

lemma CopyCardToMsg_map: "CopyCardToMsg cs pb = pb @ map (\<lambda>c. to_msg_card c default_msg_card) cs"
  by (induction cs arbitrary: pb) simp_all

lemma parse_msg_cards_map: "parse_msg_cards ms out = out @ map (\<lambda>m. parse_msg_card m default_card) ms"
  by (induction ms arbitrary: out) simp_all

lemma parse_to_msg_group: "parse_msg_group (to_msg_group g default_pb_group) default_group = g"
  by (simp add: parse_msg_group_def to_msg_group_def CopyCardToMsg_map parse_msg_cards_map
      default_group_def default_pb_group_def comp_def)

lemma copy_group_to_msg_map:
  "copy_group_to_msg gs pb = pb @ map (\<lambda>g. to_msg_group g default_pb_group) gs"
  by (induction gs arbitrary: pb) simp_all

lemma ParseMsgGroup_map:
  "ParseMsgGroup groups pbs = groups @ map (\<lambda>pb. parse_msg_group pb default_group) pbs"
  by (induction pbs arbitrary: groups) simp_all

lemma parse_card_to_string: "parse_string (card_to_string c) c' = c"
proof -
  have dig: "x \<noteq> CHR '':''" if "x \<in> set (nat_to_string n)" for x n
    using nat_to_string_digits digit_not_special that by blast
  let ?a = "nat_to_string (unat (m_color c))" and ?b = "nat_to_string (unat (m_point c))"
  have str: "card_to_string c = ?a @ CHR '':'' # ?b"
    by (simp add: card_to_string_def int_to_string_def)
  have tw: "takeWhile (\<lambda>x. x \<noteq> CHR '':'') (?a @ CHR '':'' # ?b) = ?a"
    by (subst takeWhile_append2) (auto dest: dig)
  have dw: "dropWhile (\<lambda>x. x \<noteq> CHR '':'') (?a @ CHR '':'' # ?b) = CHR '':'' # ?b"
    by (subst dropWhile_append2) (auto dest: dig)
  show ?thesis by (simp add: parse_string_def str tw dw)
qed

lemma parse_to_db_card: "parse_db_card (to_db_card c) c' = c"
proof -
  have bit: "bit (to_db_card c) n = (if n < 8 then bit (m_point c) n else bit (m_color c) (n - 8))"
    if "n < 16" for n
  proof -
    have "push_bit 8 (ucast (m_color c) :: u16) AND ucast (m_point c) = 0"
      by (rule bit_eqI) (auto simp: bit_simps dest: bit_imp_le_length)
    then have eq: "to_db_card c = push_bit 8 (ucast (m_color c) :: u16) OR ucast (m_point c)"
      by (simp add: to_db_card_def Let_def disjunctive_add_eq_or)
    show ?thesis
    proof (cases "n < 8")
      case True
      then show ?thesis by (simp add: eq bit_simps)
    next
      case False
      then have nb: "\<not> bit (m_point c) n" using bit_imp_le_length [of "m_point c" n] by auto
      with False that show ?thesis by (auto simp add: eq bit_simps)
    qed
  qed
  have "ucast (to_db_card c AND 0x00FF) = m_point c"
  proof (rule bit_word_eqI)
    fix n assume n: "n < LENGTH(8)"
    have eq: "(0x00FF :: u16) = mask 8" by (simp add: mask_eq_exp_minus_1)
    from n have "bit (0x00FF :: u16) n" unfolding eq by (simp only: bit_mask_iff) simp
    with n show "bit (ucast (to_db_card c AND 0x00FF) :: u8) n = bit (m_point c) n"
      by (simp add: bit_simps bit)
  qed
  moreover have "ucast (drop_bit 8 (to_db_card c)) = m_color c"
    by (rule bit_word_eqI) (simp add: bit_simps bit)
  ultimately show ?thesis by (simp add: parse_db_card_def)
qed

text \<open>
  C14. The three encodings of a card are lossless: a card sent as a protobuf message, written as
  the string \<open>color:point\<close>, or packed into the 16-bit database card, is read back as the same
  card whatever the receiving object held before; and a list of card groups sent to a client and
  parsed into an empty vector comes back unchanged.
\<close>

theorem card_encodings_roundtrip:
  "parse_msg_card (to_msg_card c m) c' = c \<and>
   parse_string (card_to_string c) c' = c \<and>
   parse_db_card (to_db_card c) c' = c \<and>
   ParseMsgGroup [] (copy_group_to_msg groups []) = groups"
  by (simp add: parse_card_to_string parse_to_db_card ParseMsgGroup_map copy_group_to_msg_map
      parse_to_msg_group comp_def)

end
