(* ===== verification/Card_Dealer.thy ===== *)
theory Card_Dealer
  imports Poker_Card
begin

text \<open>
  The dealer of \<^verbatim>\<open>server/gamesvr/CardDealer.h\<close> and \<^verbatim>\<open>CardDealer.cpp\<close>: two packs with their
  jokers, shuffled by drawing a random card and moving the last one into its place.

  The random number generator of the C library is a parameter: \<open>seed\<close> is \<^verbatim>\<open>srand\<close>, \<open>nxt\<close> is
  \<^verbatim>\<open>rand\<close>, from a generator state to the number it returns (it is never negative) and the
  next state. Nothing is assumed about either. A failed \<^verbatim>\<open>assert\<close> is \<open>None\<close>.
\<close>

record CardDealer =
  deck :: "PokerCard list"
  all_card :: "PokerCard list"

definition CARD_COUNT :: nat where "CARD_COUNT = 108"

definition HAND_CARD_COUNT :: nat where "HAND_CARD_COUNT = 13"

section \<open>Drawing cards\<close>

text \<open>
  The loop shared by \<^verbatim>\<open>rand_rank_cards\<close> and \<^verbatim>\<open>rand_deal_card\<close>: \<open>n\<close> draws are left. The last
  card is not removed, so a loop that drew more cards than there are would repeat it.
\<close>

fun draw_loop :: "('g \<Rightarrow> nat \<times> 'g) \<Rightarrow> nat \<Rightarrow> PokerCard list \<Rightarrow> PokerCard list \<Rightarrow> 'g \<Rightarrow> PokerCard list \<times> 'g" where
  "draw_loop nxt 0 cards out g = (out, g)"
| "draw_loop nxt (Suc n) cards out g =
     (case nxt g of (r, g') \<Rightarrow>
        let index = r mod length cards;
            out' = out @ [cards ! index];
            cards' = (if length cards > 1 then swap_remove cards index else cards)
        in draw_loop nxt n cards' out' g')"

definition rand_rank_cards :: "('g \<Rightarrow> nat \<times> 'g) \<Rightarrow> CardDealer \<Rightarrow> 'g \<Rightarrow> (CardDealer \<times> 'g) option" where
  "rand_rank_cards nxt d g =
     (if length (deck d) \<noteq> CARD_COUNT then None
      else case draw_loop nxt CARD_COUNT (deck d) [] g of
        (cards, g') \<Rightarrow> Some (d\<lparr>deck := cards\<rparr>, g'))"

fun rank_times :: "('g \<Rightarrow> nat \<times> 'g) \<Rightarrow> nat \<Rightarrow> CardDealer \<Rightarrow> 'g \<Rightarrow> (CardDealer \<times> 'g) option" where
  "rank_times nxt 0 d g = Some (d, g)"
| "rank_times nxt (Suc n) d g =
     (case rand_rank_cards nxt d g of None \<Rightarrow> None | Some (d', g') \<Rightarrow> rank_times nxt n d' g')"

text \<open>\<^verbatim>\<open>m_cards[index] = ...; ++index;\<close>\<close>

fun put_cards :: "PokerCard list \<Rightarrow> nat \<Rightarrow> PokerCard list \<Rightarrow> PokerCard list \<times> nat" where
  "put_cards vec index [] = (vec, index)"
| "put_cards vec index (c # cs) = put_cards (vec[index := c]) (index + 1) cs"

definition suit_cards :: "PokerCard list" where
  "suit_cards =
     concat (map (\<lambda>i. concat (map (\<lambda>j.
       [mk_card (of_nat (i + 1)) (of_nat (j + 2)), mk_card (of_nat (i + 1)) (of_nat (j + 2))])
         [0..<unat PA - 1])) [0..<unat diamonds])"

definition joker_cards :: "PokerCard list" where
  "joker_cards = [mk_card 0 JOKER1, mk_card 0 JOKER1, mk_card 0 JOKER2, mk_card 0 JOKER2]"

definition filled_deck :: "PokerCard list" where
  "filled_deck = fst (put_cards (replicate CARD_COUNT default_card) 0 (suit_cards @ joker_cards))"

text \<open>\<^verbatim>\<open>init_cards\<close>, called by the constructor: 1000 shuffles of the filled deck.\<close>

definition init_cards :: "('g \<Rightarrow> nat \<times> 'g) \<Rightarrow> 'g \<Rightarrow> (CardDealer \<times> 'g) option" where
  "init_cards nxt g = rank_times nxt 1000 \<lparr>deck = filled_deck, all_card = filled_deck\<rparr> g"

definition rand_deal_card ::
    "(u32 \<Rightarrow> 'g) \<Rightarrow> ('g \<Rightarrow> nat \<times> 'g) \<Rightarrow> u32 \<Rightarrow> CardDealer \<Rightarrow> PokerCard list \<Rightarrow> nat
      \<Rightarrow> (CardDealer \<times> PokerCard list \<times> 'g) option" where
  "rand_deal_card seed nxt now d lstCard cnt =
     (let g = seed now in
      if \<not> cnt \<le> CARD_COUNT then None
      else case rand_rank_cards nxt d g of
        None \<Rightarrow> None
      | Some (d', g') \<Rightarrow>
          (case draw_loop nxt cnt (deck d') lstCard g' of (lst, g'') \<Rightarrow> Some (d', lst, g'')))"

definition deal_card ::
    "(u32 \<Rightarrow> 'g) \<Rightarrow> ('g \<Rightarrow> nat \<times> 'g) \<Rightarrow> u32 \<Rightarrow> CardDealer \<Rightarrow> PokerCard list \<Rightarrow> nat
      \<Rightarrow> (CardDealer \<times> PokerCard list \<times> 'g) option" where
  "deal_card seed nxt now d lstCard cnt = rand_deal_card seed nxt now d lstCard cnt"

definition get_all_card :: "CardDealer \<Rightarrow> PokerCard list" where
  "get_all_card d = all_card d"

section \<open>What the draws conserve\<close>

lemma draw_loop_mset:
  assumes "n \<le> length cards" and "draw_loop nxt n cards out g = (out', g')"
  shows "\<exists>drawn. out' = out @ drawn \<and> length drawn = n \<and> mset drawn \<subseteq># mset cards"
  using assms
proof (induction n arbitrary: cards out g)
  case 0
  then show ?case by simp
next
  case (Suc n)
  obtain r g1 where r: "nxt g = (r, g1)" by (cases "nxt g")
  let ?i = "r mod length cards"
  from Suc.prems(1) have "0 < length cards" by linarith
  then have i: "?i < length cards" by simp
  show ?case
  proof (cases "length cards > 1")
    case True
    with Suc.prems r have "draw_loop nxt n (swap_remove cards ?i) (out @ [cards ! ?i]) g1 = (out', g')"
      by (simp add: Let_def)
    with Suc.IH [of "swap_remove cards ?i"] Suc.prems(1) obtain drawn where
      d: "out' = out @ [cards ! ?i] @ drawn" "length drawn = n" "mset drawn \<subseteq># mset (swap_remove cards ?i)"
      by fastforce
    with mset_swap_remove [OF i] have "mset (cards ! ?i # drawn) \<subseteq># mset cards" by simp
    with d show ?thesis by (intro exI [of _ "cards ! ?i # drawn"]) simp
  next
    case False
    with Suc.prems(1) have n: "n = 0" "length cards = 1" by auto
    with i have "mset [cards ! ?i] \<subseteq># mset cards" by simp
    with n Suc.prems(2) r show ?thesis by (auto simp: Let_def intro!: exI [of _ "[cards ! ?i]"])
  qed
qed

lemma draw_all_mset [sf_mset]:
  assumes "draw_loop nxt (length cards) cards [] g = (out, g')"
  shows "mset out = mset cards"
proof -
  from draw_loop_mset [OF order_refl assms] have "length out = length cards" "mset out \<subseteq># mset cards"
    by auto
  then show ?thesis by (metis mset_subset_size order_less_irrefl size_mset subset_mset.le_less)
qed

text \<open>The deck is a permutation of the full set of 108 cards.\<close>

definition dealer_ok :: "CardDealer \<Rightarrow> bool" where
  "dealer_ok d \<longleftrightarrow> all_card d = filled_deck \<and> mset (deck d) = mset filled_deck"

lemma put_cards_append:
  "length vec = length ys + length cs \<Longrightarrow> take (length ys) vec = ys \<Longrightarrow>
   put_cards vec (length ys) cs = (ys @ cs, length ys + length cs)"
proof (induction cs arbitrary: vec ys)
  case Nil
  then show ?case by simp
next
  case (Cons c cs)
  from Cons.prems have "take (length (ys @ [c])) (vec[length ys := c]) = ys @ [c]"
    by (simp add: take_Suc_conv_app_nth)
  with Cons.IH [of "vec[length ys := c]" "ys @ [c]"] Cons.prems(1) show ?case by simp
qed

lemma length_all_cards: "length (suit_cards @ joker_cards) = CARD_COUNT"
  by (simp add: suit_cards_def joker_cards_def CARD_COUNT_def length_concat comp_def sum_list_triv)

lemma filled_deck_eq: "filled_deck = suit_cards @ joker_cards"
  using put_cards_append [of "replicate CARD_COUNT default_card" "[]" "suit_cards @ joker_cards"]
    length_all_cards by (simp add: filled_deck_def)

lemma length_filled_deck [simp]: "length filled_deck = CARD_COUNT"
  using length_all_cards by (simp add: filled_deck_eq)

lemma dealer_ok_length: "dealer_ok d \<Longrightarrow> length (deck d) = CARD_COUNT"
  by (metis dealer_ok_def length_filled_deck size_mset)

lemma rand_rank_cards_ok [sf_inv]:
  assumes "dealer_ok d"
  shows "\<exists>d' g'. rand_rank_cards nxt d g = Some (d', g') \<and> dealer_ok d'"
proof -
  obtain out g' where l: "draw_loop nxt CARD_COUNT (deck d) [] g = (out, g')" by fastforce
  with draw_all_mset [of nxt "deck d" g out g'] dealer_ok_length [OF assms]
  have "mset out = mset (deck d)" by simp
  with assms l dealer_ok_length [OF assms] show ?thesis
    by (simp add: rand_rank_cards_def dealer_ok_def)
qed

lemma rank_times_ok [sf_inv]:
  "dealer_ok d \<Longrightarrow> \<exists>d' g'. rank_times nxt n d g = Some (d', g') \<and> dealer_ok d'"
proof (induction n arbitrary: d g)
  case 0
  then show ?case by simp
next
  case (Suc n)
  from rand_rank_cards_ok [OF Suc.prems, of nxt g] obtain d1 g1
    where "rand_rank_cards nxt d g = Some (d1, g1)" "dealer_ok d1" by blast
  with Suc.IH [of d1 g1] show ?case by simp
qed

text \<open>One pack: every valid card of a suit once, and the two jokers, which have color 0.\<close>

definition in_pack :: "PokerCard \<Rightarrow> bool" where
  "in_pack c \<longleftrightarrow>
     is_valid_card c \<and> (if m_point c \<ge> JOKER1 then m_color c = 0 else True)"

definition pack :: "PokerCard list" where
  "pack = map (\<lambda>(i, j). mk_card (of_nat (i + 1)) (of_nat (j + 2))) (List.product [0..<4] [0..<13])
     @ [mk_card 0 JOKER1, mk_card 0 JOKER2]"

lemma mset_doubled:
  "mset (concat (map (\<lambda>x. [f x, f x]) xs)) = mset (map f xs) + mset (map f xs)"
  by (induction xs) simp_all

lemma mset_doubled_product:
  "mset (concat (map (\<lambda>i. concat (map (\<lambda>j. [f i j, f i j]) ys)) xs)) =
   mset (map (\<lambda>(i, j). f i j) (List.product xs ys)) + mset (map (\<lambda>(i, j). f i j) (List.product xs ys))"
  by (induction xs) (simp_all add: mset_doubled comp_def)

lemma mset_filled_deck: "mset filled_deck = mset pack + mset pack"
  by (simp add: filled_deck_eq suit_cards_def joker_cards_def pack_def mset_doubled_product)

lemma mk_card_of_nat_inj:
  assumes "mk_card (of_nat i) (of_nat j) = mk_card (of_nat i') (of_nat j')"
    and "i < 256" "i' < 256" "j < 256" "j' < 256"
  shows "i = i' \<and> j = j'"
proof -
  from assms(1) have "unat (of_nat i :: u8) = unat (of_nat i' :: u8)" "unat (of_nat j :: u8) = unat (of_nat j' :: u8)"
    by (simp_all add: mk_card_def)
  with assms(2-) show ?thesis by (simp add: unat_of_nat)
qed

lemma distinct_pack: "distinct pack"
proof -
  have inj: "inj_on (\<lambda>(i, j). mk_card (of_nat (i + 1)) (of_nat (j + 2))) (set (List.product [0..<4] [0..<13]))"
  proof (rule inj_onI, clarsimp)
    fix i j i' j' :: nat
    assume "mk_card (1 + of_nat i) (2 + of_nat j) = mk_card (1 + of_nat i') (2 + of_nat j')"
      and "i < 4" "j < 13" "i' < 4" "j' < 13"
    with mk_card_of_nat_inj [of "i + 1" "j + 2" "i' + 1" "j' + 2"] show "i = i' \<and> j = j'" by simp
  qed
  have "m_color (mk_card (of_nat (i + 1)) x) \<noteq> 0" if "i < 4" for i :: nat and x
    using that by (simp add: mk_card_def word_unat_eq_iff unat_of_nat flip: of_nat_Suc)
  then have "mk_card 0 x \<notin> (\<lambda>(i, j). mk_card (of_nat (i + 1)) (of_nat (j + 2))) ` set (List.product [0..<4] [0..<13])" for x
    by (force simp: mk_card_def)
  with inj show ?thesis by (simp add: pack_def distinct_map distinct_product mk_card_def del: upt_Suc)
qed

lemma set_pack: "c \<in> set pack \<longleftrightarrow> in_pack c"
proof
  assume "c \<in> set pack"
  then consider (suit) i j where "i < 4" "j < 13" "c = mk_card (of_nat (i + 1)) (of_nat (j + 2))"
    | (joker) "c = mk_card 0 JOKER1 \<or> c = mk_card 0 JOKER2"
    unfolding pack_def by auto
  then show "in_pack c"
  proof cases
    case suit
    then have "unat (m_color c) = i + 1" "unat (m_point c) = j + 2"
      by (simp_all add: mk_card_def unat_of_nat flip: of_nat_Suc of_nat_add)
    with suit show ?thesis by (simp add: in_pack_def is_valid_card_def word_le_nat_alt)
  next
    case joker
    then show ?thesis by (auto simp: mk_card_def in_pack_def is_valid_card_def)
  qed
next
  assume c: "in_pack c"
  show "c \<in> set pack"
  proof (cases "m_point c \<ge> JOKER1")
    case True
    with c have "m_point c = 15 \<or> m_point c = 16" "m_color c = 0"
      by (auto simp: in_pack_def is_valid_card_def word_le_nat_alt word_unat_eq_iff)
    then show ?thesis by (auto simp: pack_def mk_card_def)
  next
    case False
    with c have b: "1 \<le> unat (m_color c)" "unat (m_color c) \<le> 4" "2 \<le> unat (m_point c)" "unat (m_point c) \<le> 14"
      by (auto simp: in_pack_def is_valid_card_def word_le_nat_alt)
    then have "c = mk_card (of_nat (unat (m_color c) - 1 + 1)) (of_nat (unat (m_point c) - 2 + 2))"
      by (simp add: mk_card_def)
    moreover from b have "(unat (m_color c) - 1, unat (m_point c) - 2) \<in> set (List.product [0..<4] [0..<13])"
      by (simp, linarith)
    ultimately show ?thesis unfolding pack_def by (metis (mono_tags, lifting) UnI1 case_prod_conv image_eqI set_append set_map)
  qed
qed

lemma count_filled_deck: "count (mset filled_deck) c = (if in_pack c then 2 else 0)"
proof -
  have "count (mset pack) c = (if in_pack c then 1 else 0)"
    using distinct_count_atmost_1 [of pack] distinct_pack set_pack [of c] by (auto simp: count_mset_0_iff)
  then show ?thesis by (simp add: mset_filled_deck)
qed

section \<open>The draws reach every order\<close>

text \<open>A generator that returns the numbers of a given list one after the other.\<close>

definition list_rand :: "nat list \<Rightarrow> nat \<times> nat list" where
  "list_rand rs = (hd rs, tl rs)"

lemma list_rand_Cons [simp]: "list_rand (r # rs) = (r, rs)"
  by (simp add: list_rand_def)

lemma draw_loop_complete:
  "mset ys = mset cards \<Longrightarrow> cards \<noteq> [] \<Longrightarrow>
   \<exists>rs. draw_loop list_rand (length ys) cards out rs = (out @ ys, [])"
proof (induction ys arbitrary: cards out)
  case Nil
  then show ?case by simp
next
  case (Cons y ys)
  from Cons.prems have "y \<in> set cards" by (metis list.set_intros(1) set_mset_mset)
  then obtain i where i: "i < length cards" "cards ! i = y" by (metis in_set_conv_nth)
  have len: "length cards = Suc (length ys)" using Cons.prems(1) by (metis length_Cons size_mset)
  show ?case
  proof (cases "length cards > 1")
    case True
    from mset_swap_remove [OF i(1)] i Cons.prems(1) have "mset ys = mset (swap_remove cards i)" by simp
    moreover from True have "swap_remove cards i \<noteq> []" by (metis length_0_conv length_swap_remove not_less_eq_eq diff_is_0_eq One_nat_def le_Suc_eq leD linorder_not_le)
    ultimately obtain rs where "draw_loop list_rand (length ys) (swap_remove cards i) (out @ [y]) rs = ((out @ [y]) @ ys, [])"
      using Cons.IH by blast
    with True i show ?thesis by (intro exI [of _ "i # rs"]) (simp add: Let_def)
  next
    case False
    with len i have "ys = []" by auto
    with False i len show ?thesis by (intro exI [of _ "[i]"]) (simp add: Let_def)
  qed
qed

section \<open>Properties\<close>

text \<open>
  The constructor succeeds whatever the generator returns: after the thousand shuffles the
  deck is a permutation of the full set kept for \<^verbatim>\<open>get_all_card\<close>, which holds each of the 52
  suit cards and of the two jokers exactly twice and nothing else.
\<close>

theorem init_cards_full_deck:
  "\<exists>d g'. init_cards nxt g = Some (d, g') \<and> dealer_ok d \<and> mset (deck d) = mset (get_all_card d) \<and>
     length (deck d) = 108 \<and>
     (\<forall>c. count (mset (get_all_card d)) c = (if in_pack c then 2 else 0))"
proof -
  have "dealer_ok \<lparr>deck = filled_deck, all_card = filled_deck\<rparr>" by (simp add: dealer_ok_def)
  from rank_times_ok [OF this, of nxt 1000 g] obtain d g' where
    d: "init_cards nxt g = Some (d, g')" "dealer_ok d" unfolding init_cards_def by blast
  with dealer_ok_length [OF d(2)] count_filled_deck show ?thesis
    by (auto simp: get_all_card_def dealer_ok_def CARD_COUNT_def)
qed

text \<open>
  C7. Dealing conserves cards. From a full deck, dealing at most 108 cards never aborts, appends
  exactly the requested number of cards to the hand, takes them from the deck (so no card comes
  out more often than the two times it is in the deck, and only cards of the game come out),
  and leaves the dealer with a full, reshuffled deck.
\<close>

theorem deal_card_conserves:
  assumes "dealer_ok d" and "cnt \<le> CARD_COUNT"
  shows "\<exists>d' dealt g'. deal_card seed nxt now d hand cnt = Some (d', hand @ dealt, g') \<and>
    length dealt = cnt \<and> mset dealt \<subseteq># mset (deck d') \<and> dealer_ok d' \<and>
    (\<forall>c. count (mset dealt) c \<le> (if in_pack c then 2 else 0))"
proof -
  from rand_rank_cards_ok [OF assms(1), of nxt "seed now"] obtain d' g1
    where d': "rand_rank_cards nxt d (seed now) = Some (d', g1)" "dealer_ok d'" by blast
  obtain out g' where l: "draw_loop nxt cnt (deck d') hand g1 = (out, g')" by fastforce
  with draw_loop_mset [of cnt "deck d'"] dealer_ok_length [OF d'(2)] assms(2) obtain dealt
    where dealt: "out = hand @ dealt" "length dealt = cnt" "mset dealt \<subseteq># mset (deck d')" by fastforce
  have "count (mset dealt) c \<le> (if in_pack c then 2 else 0)" for c
    using mset_subset_eq_count [OF dealt(3), of c] d'(2) count_filled_deck [of c]
    by (simp add: dealer_ok_def)
  with d' l dealt assms(2) show ?thesis by (auto simp: deal_card_def rand_deal_card_def Let_def)
qed

theorem deal_card_conserves_witness:
  "\<exists>d dealt g'. deal_card (\<lambda>s. unat s) (\<lambda>g. (g * 3 + 1, g + 7)) 12345
      \<lparr>deck = filled_deck, all_card = filled_deck\<rparr> [] HAND_CARD_COUNT = Some (d, dealt, g') \<and>
      length dealt = 13"
  using deal_card_conserves [of "\<lparr>deck = filled_deck, all_card = filled_deck\<rparr>" HAND_CARD_COUNT
    "\<lambda>s. unat s" "\<lambda>g. (g * 3 + 1, g + 7)" 12345 "[]"]
  by (auto simp: dealer_ok_def HAND_CARD_COUNT_def CARD_COUNT_def)

text \<open>
  C13. The shuffle excludes no order: every permutation of a full deck is the result of one
  \<^verbatim>\<open>rand_rank_cards\<close> for some sequence of results of \<^verbatim>\<open>rand\<close>.
\<close>

theorem shuffle_reaches_every_order:
  assumes "dealer_ok d" and "mset order = mset (deck d)"
  shows "\<exists>rs. rand_rank_cards list_rand d rs = Some (d\<lparr>deck := order\<rparr>, [])"
proof -
  from assms(2) have "length order = length (deck d)" by (metis size_mset)
  with dealer_ok_length [OF assms(1)] have len: "length order = CARD_COUNT" "deck d \<noteq> []"
    by (auto simp: CARD_COUNT_def)
  with draw_loop_complete [OF assms(2), of "[]"] obtain rs
    where "draw_loop list_rand CARD_COUNT (deck d) [] rs = (order, [])" by auto
  with dealer_ok_length [OF assms(1)] show ?thesis
    by (intro exI [of _ rs]) (simp add: rand_rank_cards_def)
qed

theorem shuffle_reaches_every_order_witness:
  "\<exists>rs. rand_rank_cards list_rand \<lparr>deck = filled_deck, all_card = filled_deck\<rparr> rs =
     Some (\<lparr>deck = sort filled_deck, all_card = filled_deck\<rparr>, [])"
  using shuffle_reaches_every_order [of "\<lparr>deck = filled_deck, all_card = filled_deck\<rparr>" "sort filled_deck"]
  by (simp add: dealer_ok_def)

end
