(* ===== verification/Card_Rules.thy ===== *)
theory Card_Rules
  imports Poker_Card
begin

text \<open>
  The rules of the declaration, \<^verbatim>\<open>server/gamesvr/Combination.cpp\<close> lines 871 to 1179: which
  groups of cards are a pure straight, a straight with jokers, a three of a kind, and when a
  declared hand wins or loses. Each scan is the loop of the code with its early returns;
  \<open>None\<close> is an early \<^verbatim>\<open>return false\<close>. The lemmas give each test its meaning without a loop.
\<close>

section \<open>Jokers and scores\<close>

definition is_joker :: "int \<Rightarrow> PokerCard \<Rightarrow> bool" where
  "is_joker joker_point c \<longleftrightarrow> pt c = joker_point \<or> m_point c \<ge> JOKER1"

fun caculate_card_score :: "int \<Rightarrow> PokerCard list \<Rightarrow> int" where
  "caculate_card_score joker_point [] = 0"
| "caculate_card_score joker_point (c # cs) = get_score joker_point c + caculate_card_score joker_point cs"

fun cards_to_string :: "PokerCard list \<Rightarrow> string" where
  "cards_to_string [] = ''''"
| "cards_to_string (c # cs) = card_to_string c @ '', '' @ cards_to_string cs"

lemma caculate_card_score_mset: "caculate_card_score j cs = (\<Sum>c\<in>#mset cs. get_score j c)"
  by (induction cs) simp_all

lemma caculate_card_score_sort [simp]: "caculate_card_score j (sort cs) = caculate_card_score j cs"
  by (simp add: caculate_card_score_mset)

lemma caculate_card_score_nonneg: "0 \<le> caculate_card_score j cs"
  by (induction cs) (use get_score_bounds in \<open>auto simp: add_nonneg_nonneg\<close>)

section \<open>Pure straights\<close>

fun pure_straight_from :: "PokerCard \<Rightarrow> PokerCard \<Rightarrow> PokerCard list \<Rightarrow> bool" where
  "pure_straight_from card_first itLast [] = True"
| "pure_straight_from card_first itLast (it # cs) =
     (if m_color itLast \<noteq> m_color it \<or> m_point itLast \<ge> JOKER1 \<or> m_point it \<ge> JOKER1 then False
      else if pt itLast + 1 \<noteq> pt it then
        (if m_point it \<noteq> PA then False else m_point card_first = P2)
      else pure_straight_from card_first it cs)"

fun is_cards_pure_straight :: "PokerCard list \<Rightarrow> bool" where
  "is_cards_pure_straight [] = False"
| "is_cards_pure_straight (c # cs) =
     (if length (c # cs) < 3 then False else pure_straight_from c c cs)"

section \<open>Three of a kind\<close>

text \<open>
  The loop keeps the last card, whether it was a joker, and the number of cards that were not;
  a card that follows a joker is not compared with anything.
\<close>

fun three_kind_scan :: "int \<Rightarrow> PokerCard \<Rightarrow> bool \<Rightarrow> nat \<Rightarrow> PokerCard list \<Rightarrow> nat option" where
  "three_kind_scan jp itLast is_last_is_joker un_joker_count [] = Some un_joker_count"
| "three_kind_scan jp itLast is_last_is_joker un_joker_count (it # cs) =
     (if is_joker jp it then three_kind_scan jp it True un_joker_count cs
      else if \<not> is_last_is_joker \<and> (m_point it \<noteq> m_point itLast \<or> m_color it = m_color itLast)
        then None
      else three_kind_scan jp it False (un_joker_count + 1) cs)"

fun is_cards_three_of_kind :: "int \<Rightarrow> PokerCard list \<Rightarrow> bool" where
  "is_cards_three_of_kind jp [] = False"
| "is_cards_three_of_kind jp (c # cs) =
     (if length (c # cs) < 3 \<or> length (c # cs) > 4 then False
      else case (if \<not> is_joker jp c then three_kind_scan jp c False 1 cs
                 else three_kind_scan jp c True 0 cs) of
          None \<Rightarrow> False
        | Some un_joker_count \<Rightarrow> \<not> un_joker_count < 2)"

section \<open>Straights with jokers\<close>

text \<open>
  The first loop: the jokers are counted, the other cards are kept in \<^verbatim>\<open>tempcards\<close> and the
  number of jokers needed to fill the gaps is added up.
\<close>

fun straight_scan :: "int \<Rightarrow> PokerCard option \<Rightarrow> int \<Rightarrow> int \<Rightarrow> PokerCard list \<Rightarrow> PokerCard list
    \<Rightarrow> (int \<times> int \<times> PokerCard list) option" where
  "straight_scan jp itLast joker_count need tempcards [] = Some (joker_count, need, tempcards)"
| "straight_scan jp itLast joker_count need tempcards (it # cs) =
     (if is_joker jp it then straight_scan jp itLast (joker_count + 1) need tempcards cs
      else let tempcards = tempcards @ [it] in
        case itLast of
          None \<Rightarrow> straight_scan jp (Some it) joker_count need tempcards cs
        | Some l \<Rightarrow>
            if m_color l \<noteq> m_color it then None
            else let diff = pt it - pt l in
              if diff = 0 then None
              else straight_scan jp (Some it) joker_count (need + (diff - 1)) tempcards cs)"

text \<open>The second loop, over the sorted \<^verbatim>\<open>tempcards\<close> in which the ace counts as one.\<close>

fun ace_low_scan :: "PokerCard option \<Rightarrow> int \<Rightarrow> PokerCard list \<Rightarrow> int option" where
  "ace_low_scan itLast need [] = Some need"
| "ace_low_scan None need (it # cs) = ace_low_scan (Some it) need cs"
| "ace_low_scan (Some l) need (it # cs) =
     (if m_color l \<noteq> m_color it then None
      else let diff = pt it - pt l in
        if diff = 0 then None else ace_low_scan (Some it) (need + (diff - 1)) cs)"

definition ace_to_one :: "PokerCard \<Rightarrow> PokerCard" where
  "ace_to_one c = (if m_point c = PA then c\<lparr>m_point := 1\<rparr> else c)"

definition is_cards_straight :: "int \<Rightarrow> PokerCard list \<Rightarrow> bool" where
  "is_cards_straight joker_point cards =
     (if length cards < 3 then False
      else case straight_scan joker_point None 0 0 [] cards of
        None \<Rightarrow> False
      | Some (joker_count, need, tempcards) \<Rightarrow>
          if need \<le> joker_count then True
          else if joker_point = 14 \<or> m_point (last tempcards) \<noteq> PA then False
          else case ace_low_scan None 0 (sort (map ace_to_one tempcards)) of
            None \<Rightarrow> False
          | Some need \<Rightarrow> need \<le> joker_count)"

section \<open>Declarations\<close>

text \<open>First loop of \<^verbatim>\<open>check_lose_declare\<close>: the pure straights and straights of the hand.\<close>

fun count_straights :: "int \<Rightarrow> nat \<Rightarrow> nat \<Rightarrow> CardGroup list \<Rightarrow> (nat \<times> nat) option" where
  "count_straights jp pure straight [] = Some (pure, straight)"
| "count_straights jp pure straight (g # gs) =
     (let cards = sort (m_cards g) in
      if m_type g = GROUP_STAIGHT then
        if is_cards_straight jp cards then
          count_straights jp (if is_cards_pure_straight cards then pure + 1 else pure) (straight + 1) gs
        else None
      else count_straights jp pure straight gs)"

text \<open>Its second loop: \<^verbatim>\<open>score\<close> keeps what was added before an early return.\<close>

fun lose_score :: "int \<Rightarrow> nat \<Rightarrow> nat \<Rightarrow> int \<Rightarrow> CardGroup list \<Rightarrow> bool \<times> int" where
  "lose_score jp pure straight score [] = (True, score)"
| "lose_score jp pure straight score (g # gs) =
     (let cards = sort (m_cards g) in
      if m_type g = GROUP_INVALID then
        lose_score jp pure straight (score + caculate_card_score jp cards) gs
      else if m_type g = GROUP_STAIGHT then
        if pure < 1 then (False, score) else lose_score jp pure straight score gs
      else if m_type g = GROUP_THREE_KIND then
        if pure < 1 \<or> straight < 2 then (False, score)
        else if \<not> is_cards_three_of_kind jp cards then (False, score)
        else lose_score jp pure straight score gs
      else (False, score))"

definition check_lose_declare :: "CardGroup list \<Rightarrow> int \<Rightarrow> bool \<times> int" where
  "check_lose_declare groups joker_point =
     (case count_straights joker_point 0 0 groups of
        None \<Rightarrow> (False, 0)
      | Some (pure, straight) \<Rightarrow> lose_score joker_point pure straight 0 groups)"

fun declare_scan :: "int \<Rightarrow> nat \<Rightarrow> nat \<Rightarrow> CardGroup list \<Rightarrow> (nat \<times> nat) option" where
  "declare_scan jp pure straight [] = Some (pure, straight)"
| "declare_scan jp pure straight (g # gs) =
     (if m_type g = GROUP_INVALID then None
      else
        let cards = sort (m_cards g) in
        if m_type g = GROUP_STAIGHT then
          if is_cards_straight jp cards then
            declare_scan jp (if is_cards_pure_straight cards then pure + 1 else pure) (straight + 1) gs
          else None
        else if m_type g = GROUP_THREE_KIND then
          if \<not> is_cards_three_of_kind jp cards then None else declare_scan jp pure straight gs
        else declare_scan jp pure straight gs)"

definition is_groups_declare :: "CardGroup list \<Rightarrow> int \<Rightarrow> bool" where
  "is_groups_declare groups joker_point =
     (case declare_scan joker_point 0 0 groups of
        None \<Rightarrow> False
      | Some (pure, straight) \<Rightarrow> \<not> (pure < 1 \<or> straight < 2))"

section \<open>What a pure straight is\<close>

lemma pt_less_iff: "pt a < pt b \<longleftrightarrow> m_point a < m_point b"
  by (simp add: pt_def word_less_def)

lemma point_ge_joker_iff [simp]: "m_point c \<ge> JOKER1 \<longleftrightarrow> 15 \<le> pt c"
  by (simp add: pt_def word_le_def)

lemma point_eq_numeral_iff [simp]:
  "m_point c = PA \<longleftrightarrow> pt c = 14" "m_point c = P2 \<longleftrightarrow> pt c = 2"
  by (simp_all add: pt_def word_uint_eq_iff)

definition step_up :: "PokerCard \<Rightarrow> PokerCard \<Rightarrow> bool" where
  "step_up a b \<longleftrightarrow> m_color a = m_color b \<and> pt b = pt a + 1 \<and> pt b < 15"

text \<open>
  The scan accepts a run, and also a run from 2 followed by an ace of the suit: it stops there,
  so the cards after that ace do not matter.
\<close>

fun ace_ends_run :: "PokerCard \<Rightarrow> PokerCard list \<Rightarrow> bool" where
  "ace_ends_run card_first (l # it # cs) \<longleftrightarrow>
     pt l < 15 \<and> pt l \<noteq> 13 \<and> m_color it = m_color l \<and> pt it = 14 \<and> pt card_first = 2 \<or>
     step_up l it \<and> ace_ends_run card_first (it # cs)"
| "ace_ends_run card_first cs \<longleftrightarrow> False"

lemma pure_straight_from_iff:
  "pure_straight_from f l cs \<longleftrightarrow> successively step_up (l # cs) \<or> ace_ends_run f (l # cs)"
proof (induction cs arbitrary: l)
  case Nil
  then show ?case by simp
next
  case (Cons it cs)
  have "pure_straight_from f l (it # cs) \<longleftrightarrow>
      m_color l = m_color it \<and> pt l < 15 \<and> pt it < 15 \<and>
      (if pt l + 1 = pt it then pure_straight_from f it cs else pt it = 14 \<and> pt f = 2)"
    by (auto simp: point_ge_joker_iff)
  also have "\<dots> \<longleftrightarrow>
      pt l < 15 \<and> pt l \<noteq> 13 \<and> m_color it = m_color l \<and> pt it = 14 \<and> pt f = 2 \<or>
      step_up l it \<and> pure_straight_from f it cs"
    by (auto simp: step_up_def)
  also have "\<dots> \<longleftrightarrow> successively step_up (l # it # cs) \<or> ace_ends_run f (l # it # cs)"
    unfolding Cons.IH by auto
  finally show ?case .
qed

lemma is_cards_pure_straight_iff:
  "is_cards_pure_straight cs \<longleftrightarrow>
     3 \<le> length cs \<and> (successively step_up cs \<or> ace_ends_run (hd cs) cs)"
  by (cases cs) (auto simp: pure_straight_from_iff simp del: successively.simps ace_ends_run.simps)

definition one_color :: "PokerCard list \<Rightarrow> bool" where
  "one_color cs \<longleftrightarrow> (\<forall>c\<in>set cs. m_color c = m_color (hd cs))"

lemma one_color_Cons: "one_color (c # cs) \<longleftrightarrow> (\<forall>b\<in>set cs. m_color b = m_color c)"
  by (simp add: one_color_def)

lemma one_color_Cons2:
  "one_color (c # d # cs) \<longleftrightarrow> m_color c = m_color d \<and> one_color (d # cs)"
  by (cases "m_color c = m_color d") (auto simp: one_color_Cons)

lemma run_iff:
  "successively step_up (c # cs) \<longleftrightarrow>
     one_color (c # cs) \<and> map pt (c # cs) = [pt c..pt c + int (length cs)] \<and>
     (cs \<noteq> [] \<longrightarrow> pt c + int (length cs) < 15)"
proof (induction cs arbitrary: c)
  case Nil
  then show ?case by (simp add: one_color_def)
next
  case (Cons d cs)
  have up: "[pt c..pt c + int (length (d # cs))] = pt c # [pt c + 1..pt c + 1 + int (length cs)]"
    by (simp add: upto_rec1 algebra_simps)
  have "successively step_up (c # d # cs) \<longleftrightarrow> step_up c d \<and> successively step_up (d # cs)" by simp
  also have "\<dots> \<longleftrightarrow> step_up c d \<and> one_color (d # cs) \<and>
      map pt (d # cs) = [pt d..pt d + int (length cs)] \<and> (cs \<noteq> [] \<longrightarrow> pt d + int (length cs) < 15)"
    using Cons.IH by simp
  also have "\<dots> \<longleftrightarrow> one_color (c # d # cs) \<and>
      (map pt (d # cs) = [pt c + 1..pt c + 1 + int (length cs)] \<and> pt c + 1 + int (length cs) < 15)"
    (is "?A \<longleftrightarrow> ?B")
  proof
    assume ?A
    then show ?B by (auto simp: step_up_def one_color_Cons2)
  next
    assume b: ?B
    then have "pt d = pt c + 1" by (simp add: upto_rec1)
    with b show ?A by (auto simp: step_up_def one_color_Cons2)
  qed
  finally show ?case using up by (auto simp: algebra_simps)
qed

definition ascending :: "PokerCard list \<Rightarrow> bool" where
  "ascending cs \<longleftrightarrow> sorted_wrt (\<lambda>a b. pt a < pt b) cs"

lemma ace_ends_run_iff:
  assumes "ascending (l # cs)" and "\<forall>c\<in>set (l # cs). pt c < 15"
  shows "ace_ends_run f (l # cs) \<longleftrightarrow>
    pt f = 2 \<and> one_color (l # cs) \<and> map pt (l # cs) = [pt l..pt l + int (length cs) - 1] @ [14] \<and>
    pt l + int (length cs) \<noteq> 14"
  using assms
proof (induction cs arbitrary: l)
  case Nil
  then show ?case by simp
next
  case (Cons it cs)
  from Cons.prems have prems: "ascending (it # cs)" "\<forall>c\<in>set (it # cs). pt c < 15" "pt l < pt it" "pt it < 15"
    by (auto simp: ascending_def)
  have top: "pt it = 14 \<longrightarrow> cs = []"
    using Cons.prems by (cases cs) (auto simp: ascending_def)
  show ?case
  proof (cases "cs = []")
    case True
    with Cons.prems prems show ?thesis by (auto simp: one_color_Cons step_up_def)
  next
    case False
    have up: "[pt l..pt l + int (length (it # cs)) - 1] = pt l # [pt l + 1..pt l + 1 + int (length cs) - 1]"
      by (simp add: upto_rec1 algebra_simps)
    from False top have "ace_ends_run f (l # it # cs) \<longleftrightarrow> step_up l it \<and> ace_ends_run f (it # cs)" by simp
    also have "\<dots> \<longleftrightarrow> step_up l it \<and> pt f = 2 \<and> one_color (it # cs) \<and>
        map pt (it # cs) = [pt it..pt it + int (length cs) - 1] @ [14] \<and> pt it + int (length cs) \<noteq> 14"
      using Cons.IH [OF prems(1,2)] by simp
    also have "\<dots> \<longleftrightarrow> pt f = 2 \<and> one_color (l # it # cs) \<and>
        (map pt (it # cs) = [pt l + 1..pt l + 1 + int (length cs) - 1] @ [14] \<and> pt l + 1 + int (length cs) \<noteq> 14)"
      (is "?A \<longleftrightarrow> ?B")
    proof
      assume ?A
      then show ?B by (auto simp: step_up_def one_color_Cons2)
    next
      assume b: ?B
      moreover from False have "pt l + 1 \<le> pt l + 1 + int (length cs) - 1" by (cases cs) auto
      ultimately have "pt it = pt l + 1" by (simp add: upto_rec1)
      with b prems show ?A by (auto simp: step_up_def one_color_Cons2)
    qed
    finally show ?thesis using up by (auto simp: algebra_simps)
  qed
qed

lemma pure_straight_natural:
  assumes "ascending cs" and "\<forall>c\<in>set cs. pt c < 15"
  shows "is_cards_pure_straight cs \<longleftrightarrow> 3 \<le> length cs \<and> one_color cs \<and>
    (map pt cs = [pt (hd cs)..pt (hd cs) + int (length cs) - 1] \<or> map pt cs = [2..int (length cs)] @ [14])"
proof (cases cs)
  case Nil
  then show ?thesis by simp
next
  case (Cons c cs')
  let ?n = "int (length cs')"
  have top: "pt c + ?n < 15" if "map pt (c # cs') = [pt c..pt c + ?n]"
  proof -
    have "pt c + ?n \<in> set (map pt (c # cs'))" unfolding that by simp
    with assms(2) Cons show ?thesis by auto
  qed
  have low: "pt c = 2" if "map pt (c # cs') = [2..?n + 1] @ [14]" "2 \<le> length cs'"
    using that by (auto simp: upto_rec1)
  have king: "map pt (c # cs') = [pt c..pt c + ?n]" if "map pt (c # cs') = [pt c..pt c + ?n - 1] @ [14]" "pt c + ?n = 14"
    using that by (simp add: upto_rec2)
  have r: "successively step_up (c # cs') \<longleftrightarrow> one_color (c # cs') \<and> map pt (c # cs') = [pt c..pt c + ?n]"
    using run_iff [of c cs'] top by blast
  have e: "ace_ends_run c (c # cs') \<longleftrightarrow>
      pt c = 2 \<and> one_color (c # cs') \<and> map pt (c # cs') = [pt c..pt c + ?n - 1] @ [14] \<and> pt c + ?n \<noteq> 14"
    using ace_ends_run_iff [of c cs' c] assms unfolding Cons by blast
  have two: "map pt (c # cs') = [pt c..pt c + ?n - 1] @ [14] \<longleftrightarrow> map pt (c # cs') = [2..?n + 1] @ [14]"
    if "pt c = 2"
  proof -
    from that have "[pt c..pt c + ?n - 1] = [2..?n + 1]" by (simp add: algebra_simps)
    then show ?thesis by (simp only:)
  qed
  have len: "3 \<le> length (c # cs') \<longleftrightarrow> 2 \<le> length cs'" by auto
  have "is_cards_pure_straight (c # cs') \<longleftrightarrow> 3 \<le> length (c # cs') \<and> one_color (c # cs') \<and>
      (map pt (c # cs') = [pt c..pt c + ?n] \<or> map pt (c # cs') = [2..?n + 1] @ [14])"
    unfolding is_cards_pure_straight_iff list.sel r e len using two king low by blast
  moreover have "pt c + int (length (c # cs')) - 1 = pt c + ?n" "int (length (c # cs')) = ?n + 1" by simp_all
  ultimately show ?thesis unfolding Cons list.sel by (simp only:)
qed

section \<open>What a three of a kind is\<close>

definition jokers_of :: "int \<Rightarrow> PokerCard list \<Rightarrow> PokerCard list" where
  "jokers_of jp cs = filter (is_joker jp) cs"

definition naturals :: "int \<Rightarrow> PokerCard list \<Rightarrow> PokerCard list" where
  "naturals jp cs = filter (\<lambda>c. \<not> is_joker jp c) cs"

definition kind_step :: "int \<Rightarrow> PokerCard \<Rightarrow> PokerCard \<Rightarrow> bool" where
  "kind_step jp a b \<longleftrightarrow>
     is_joker jp a \<or> is_joker jp b \<or> (m_point b = m_point a \<and> m_color b \<noteq> m_color a)"

lemma three_kind_scan_eq:
  "three_kind_scan jp l (is_joker jp l) n cs =
     (if successively (kind_step jp) (l # cs) then Some (n + length (naturals jp cs)) else None)"
proof (induction cs arbitrary: l n)
  case Nil
  then show ?case by (simp add: naturals_def)
next
  case (Cons c cs)
  then show ?case
    using Cons.IH [of c n] Cons.IH [of c "Suc n"]
    by (cases "is_joker jp c") (auto simp: kind_step_def naturals_def)
qed

lemma is_cards_three_of_kind_iff:
  "is_cards_three_of_kind jp cs \<longleftrightarrow>
     (length cs = 3 \<or> length cs = 4) \<and> successively (kind_step jp) cs \<and> 2 \<le> length (naturals jp cs)"
proof (cases cs)
  case Nil
  then show ?thesis by simp
next
  case (Cons c cs')
  then show ?thesis
    using three_kind_scan_eq [of jp c 0 cs'] three_kind_scan_eq [of jp c 1 cs']
    by (cases "is_joker jp c") (auto simp: naturals_def not_less Suc_le_eq simp del: successively.simps)
qed

definition same_rank :: "PokerCard list \<Rightarrow> bool" where
  "same_rank cs \<longleftrightarrow> (\<forall>c\<in>set cs. m_point c = m_point (hd cs)) \<and> distinct (map m_color cs)"

lemma card_le_same_point: "(a :: PokerCard) \<le> b \<Longrightarrow> m_point a = m_point b \<Longrightarrow> m_color a \<le> m_color b"
  using card_less_same_point [of a b] by (cases "a = b") (auto simp: less_le)

lemma kind_naturals:
  assumes "sorted cs" and "\<forall>c\<in>set cs. \<not> is_joker jp c"
  shows "successively (kind_step jp) cs \<longleftrightarrow> same_rank cs"
  using assms
proof (induction cs)
  case Nil
  then show ?case by (simp add: same_rank_def)
next
  case (Cons x xs)
  show ?case
  proof (cases xs)
    case Nil
    then show ?thesis by (simp add: same_rank_def)
  next
    case (Cons y ys)
    have IH: "successively (kind_step jp) xs \<longleftrightarrow> same_rank xs"
      using Cons.IH Cons.prems by simp
    have step: "kind_step jp x y \<longleftrightarrow> m_point y = m_point x \<and> m_color y \<noteq> m_color x"
      using Cons.prems Cons by (simp add: kind_step_def)
    have "m_color x \<notin> m_color ` set xs"
      if "m_point y = m_point x" "m_color y \<noteq> m_color x" "same_rank xs"
    proof
      assume "m_color x \<in> m_color ` set xs"
      then obtain z where z: "z \<in> set xs" "m_color z = m_color x" by auto
      from that Cons z have zp: "m_point z = m_point y" by (auto simp: same_rank_def)
      from Cons.prems Cons z have "x \<le> y" "y \<le> z" by auto
      with zp that z card_le_same_point [of x y] card_le_same_point [of y z] show False by simp
    qed
    moreover have "same_rank (x # xs) \<longleftrightarrow>
        m_point y = m_point x \<and> m_color x \<notin> m_color ` set xs \<and> same_rank xs"
      unfolding same_rank_def Cons by (cases "m_point y = m_point x") auto
    ultimately have "kind_step jp x y \<and> same_rank xs \<longleftrightarrow> same_rank (x # xs)"
      unfolding step using Cons by (metis image_eqI list.set_intros(1))
    with IH Cons show ?thesis by simp
  qed
qed

lemma sorted_split_point:
  fixes cs :: "PokerCard list"
  assumes "sorted cs"
  shows "cs = filter (\<lambda>c. pt c < t) cs @ filter (\<lambda>c. \<not> pt c < t) cs"
  using assms
proof (induction cs)
  case Nil
  then show ?case by simp
next
  case (Cons c cs)
  show ?case
  proof (cases "pt c < t")
    case True
    with Cons show ?thesis by simp
  next
    case False
    with Cons.prems have "\<forall>d\<in>set cs. \<not> pt d < t"
      by (auto simp flip: pt_le_iff dest!: card_le_point)
    then have "filter (\<lambda>c. pt c < t) cs = []" "filter (\<lambda>c. \<not> pt c < t) cs = cs"
      by (auto simp: filter_empty_conv)
    with False show ?thesis by simp
  qed
qed

text \<open>The natural cards below and above the rank of the wild card.\<close>

definition low_naturals :: "int \<Rightarrow> PokerCard list \<Rightarrow> PokerCard list" where
  "low_naturals jp cs = filter (\<lambda>c. pt c < jp \<and> pt c < 15) cs"

definition high_naturals :: "int \<Rightarrow> PokerCard list \<Rightarrow> PokerCard list" where
  "high_naturals jp cs = filter (\<lambda>c. jp < pt c \<and> pt c < 15) cs"

definition wild_cards :: "int \<Rightarrow> PokerCard list \<Rightarrow> PokerCard list" where
  "wild_cards jp cs = filter (\<lambda>c. pt c = jp) cs"

lemma is_joker_iff: "is_joker jp c \<longleftrightarrow> pt c = jp \<or> 15 \<le> pt c"
  by (simp add: is_joker_def)

lemma sorted_layout:
  assumes "sorted cs"
  obtains ks where "cs = low_naturals jp cs @ (if jp < 15 then wild_cards jp cs else []) @ high_naturals jp cs @ ks"
    and "\<forall>k\<in>set ks. 15 \<le> pt k"
proof (cases "jp < 15")
  case True
  let ?r1 = "filter (\<lambda>c. \<not> pt c < jp) cs"
  let ?r2 = "filter (\<lambda>c. \<not> pt c < jp + 1) ?r1"
  have "cs = filter (\<lambda>c. pt c < jp) cs @ ?r1" using assms by (rule sorted_split_point)
  also have "?r1 = filter (\<lambda>c. pt c < jp + 1) ?r1 @ ?r2" using assms by (intro sorted_split_point sorted_wrt_filter)
  also have "?r2 = filter (\<lambda>c. pt c < 15) ?r2 @ filter (\<lambda>c. \<not> pt c < 15) ?r2"
    using assms by (intro sorted_split_point sorted_wrt_filter)
  finally have "cs = filter (\<lambda>c. pt c < jp) cs @ filter (\<lambda>c. pt c < jp + 1) ?r1 @
      filter (\<lambda>c. pt c < 15) ?r2 @ filter (\<lambda>c. \<not> pt c < 15) ?r2" .
  moreover have "filter (\<lambda>c. pt c < jp) cs = low_naturals jp cs" using True
    by (auto simp: low_naturals_def intro: filter_cong)
  moreover have "filter (\<lambda>c. pt c < jp + 1) ?r1 = wild_cards jp cs"
    by (auto simp: wild_cards_def intro: filter_cong)
  moreover have "filter (\<lambda>c. pt c < 15) ?r2 = high_naturals jp cs"
    by (auto simp: high_naturals_def intro: filter_cong)
  ultimately show ?thesis using True by (intro that [of "filter (\<lambda>c. \<not> pt c < 15) ?r2"]) auto
next
  case False
  have "cs = filter (\<lambda>c. pt c < 15) cs @ filter (\<lambda>c. \<not> pt c < 15) cs" using assms by (rule sorted_split_point)
  moreover have "filter (\<lambda>c. pt c < 15) cs = low_naturals jp cs" using False
    by (auto simp: low_naturals_def intro: filter_cong)
  moreover have "high_naturals jp cs = []" using False by (auto simp: high_naturals_def filter_empty_conv)
  ultimately show ?thesis using False by (intro that [of "filter (\<lambda>c. \<not> pt c < 15) cs"]) auto
qed

lemma kind_jokers_append:
  "\<forall>k\<in>set ks. is_joker jp k \<Longrightarrow>
   successively (kind_step jp) (cs @ ks @ ds) \<longleftrightarrow>
   (if ks = [] then successively (kind_step jp) (cs @ ds)
    else successively (kind_step jp) cs \<and> successively (kind_step jp) ds)"
proof (cases "ks = []")
  case False
  assume ks: "\<forall>k\<in>set ks. is_joker jp k"
  then have "successively (kind_step jp) ks"
    by (induction ks) (auto simp: successively_Cons kind_step_def)
  with ks False show ?thesis
    by (auto simp: successively_append_iff kind_step_def)
qed simp

text \<open>The exact meaning of the test on a sorted group.\<close>

lemma three_of_kind_sorted:
  assumes "sorted cs"
  shows "is_cards_three_of_kind jp cs \<longleftrightarrow>
    (length cs = 3 \<or> length cs = 4) \<and> 2 \<le> length (naturals jp cs) \<and>
    same_rank (low_naturals jp cs) \<and> same_rank (high_naturals jp cs) \<and>
    (low_naturals jp cs \<noteq> [] \<and> high_naturals jp cs \<noteq> [] \<longrightarrow> wild_cards jp cs \<noteq> [])"
proof -
  let ?lo = "low_naturals jp cs" and ?hi = "high_naturals jp cs"
  let ?w = "if jp < 15 then wild_cards jp cs else []"
  obtain ks where cs: "cs = ?lo @ ?w @ ?hi @ ks" and ks: "\<forall>k\<in>set ks. 15 \<le> pt k"
    using sorted_layout [OF assms] .
  have hi: "?hi = []" if "\<not> jp < 15" using that by (auto simp: high_naturals_def filter_empty_conv)
  have sw: "successively (kind_step jp) ?lo \<longleftrightarrow> same_rank ?lo" "successively (kind_step jp) ?hi \<longleftrightarrow> same_rank ?hi"
    using assms by (auto intro!: kind_naturals sorted_wrt_filter simp: low_naturals_def high_naturals_def is_joker_iff)
  have "successively (kind_step jp) cs \<longleftrightarrow> successively (kind_step jp) (?lo @ ?w @ ?hi @ ks @ [])"
    using cs by simp
  also have "\<dots> \<longleftrightarrow> successively (kind_step jp) (?lo @ ?w @ ?hi)"
    using kind_jokers_append [of ks jp "?lo @ ?w @ ?hi" "[]"] ks by (auto simp: is_joker_iff split: if_splits)
  also have "\<dots> \<longleftrightarrow> (if ?w = [] then successively (kind_step jp) (?lo @ ?hi) else same_rank ?lo \<and> same_rank ?hi)"
    by (subst kind_jokers_append) (auto simp: is_joker_iff wild_cards_def sw split: if_splits)
  also have "\<dots> \<longleftrightarrow> same_rank ?lo \<and> same_rank ?hi \<and> (?lo \<noteq> [] \<and> ?hi \<noteq> [] \<longrightarrow> wild_cards jp cs \<noteq> [])"
  proof (cases "?w = [] \<and> ?lo \<noteq> [] \<and> ?hi \<noteq> []")
    case True
    then have "last ?lo \<in> set ?lo" "hd ?hi \<in> set ?hi" by simp_all
    then have "pt (last ?lo) < jp" "jp < pt (hd ?hi)" "pt (last ?lo) < 15" "pt (hd ?hi) < 15"
      by (auto simp: low_naturals_def high_naturals_def)
    then have "\<not> kind_step jp (last ?lo) (hd ?hi)"
      by (auto simp: kind_step_def is_joker_iff simp flip: pt_eq_iff)
    with True hi show ?thesis by (auto simp: successively_append_iff split: if_splits)
  next
    case False
    have "same_rank []" by (simp add: same_rank_def)
    show ?thesis
    proof (cases "?w = []")
      case True
      with False consider "?lo = []" | "?hi = []" by blast
      then show ?thesis using True sw \<open>same_rank []\<close> by cases simp_all
    next
      case w: False
      then have "wild_cards jp cs \<noteq> []" by (simp split: if_splits)
      with w show ?thesis by simp
    qed
  qed
  finally show ?thesis unfolding is_cards_three_of_kind_iff by blast
qed

section \<open>What a straight with jokers is\<close>

text \<open>Consecutive natural cards: one suit, different points.\<close>

definition suit_step :: "PokerCard \<Rightarrow> PokerCard \<Rightarrow> bool" where
  "suit_step a b \<longleftrightarrow> m_color a = m_color b \<and> pt a \<noteq> pt b"

text \<open>The gaps between the first and the last of the cards, which telescope.\<close>

definition gaps :: "PokerCard list \<Rightarrow> int" where
  "gaps ns = (if ns = [] then 0 else pt (last ns) - pt (hd ns) - (int (length ns) - 1))"

lemma length_naturals_jokers: "length (naturals jp cs) + length (jokers_of jp cs) = length cs"
  using sum_length_filter_compl [of "is_joker jp" cs] by (simp add: naturals_def jokers_of_def)

lemma straight_scan_Some:
  "straight_scan jp (Some l) jc need temp cs =
     (if successively suit_step (l # naturals jp cs)
      then Some (jc + int (length (jokers_of jp cs)), need + gaps (l # naturals jp cs), temp @ naturals jp cs)
      else None)"
proof (induction cs arbitrary: l jc need temp)
  case Nil
  then show ?case by (simp add: naturals_def jokers_of_def gaps_def)
next
  case (Cons c cs)
  show ?case
  proof (cases "is_joker jp c")
    case True
    then show ?thesis by (simp add: Cons.IH naturals_def jokers_of_def)
  next
    case False
    then have n: "naturals jp (c # cs) = c # naturals jp cs" "jokers_of jp (c # cs) = jokers_of jp cs"
      by (simp_all add: naturals_def jokers_of_def)
    have "gaps (l # c # naturals jp cs) = pt c - pt l - 1 + gaps (c # naturals jp cs)"
      by (simp add: gaps_def)
    with False show ?thesis by (simp add: Cons.IH n suit_step_def Let_def)
  qed
qed

lemma straight_scan_None:
  "straight_scan jp None jc 0 temp cs =
     (if successively suit_step (naturals jp cs)
      then Some (jc + int (length (jokers_of jp cs)), gaps (naturals jp cs), temp @ naturals jp cs)
      else None)"
proof (induction cs arbitrary: jc temp)
  case Nil
  then show ?case by (simp add: naturals_def jokers_of_def gaps_def)
next
  case (Cons c cs)
  show ?case
  proof (cases "is_joker jp c")
    case True
    then show ?thesis by (simp add: Cons.IH naturals_def jokers_of_def)
  next
    case False
    then have n: "naturals jp (c # cs) = c # naturals jp cs" "jokers_of jp (c # cs) = jokers_of jp cs"
      by (simp_all add: naturals_def jokers_of_def)
    with False show ?thesis by (simp add: straight_scan_Some)
  qed
qed

lemma ace_low_scan_eq:
  "ace_low_scan (Some l) need cs =
     (if successively suit_step (l # cs) then Some (need + gaps (l # cs)) else None)"
proof (induction cs arbitrary: l need)
  case Nil
  then show ?case by (simp add: gaps_def)
next
  case (Cons c cs)
  have "gaps (l # c # cs) = pt c - pt l - 1 + gaps (c # cs)" by (simp add: gaps_def)
  then show ?case by (simp add: Cons.IH suit_step_def Let_def)
qed

lemma ace_low_scan_None:
  "ace_low_scan None 0 cs = (if successively suit_step cs then Some (gaps cs) else None)"
  by (cases cs) (simp_all add: ace_low_scan_eq gaps_def)

lemma sorted_pt: "sorted (cs :: PokerCard list) \<Longrightarrow> sorted (map pt cs)"
  unfolding sorted_map by (erule sorted_wrt_mono_rel [rotated]) (simp add: pt_le_iff card_le_point)

lemma suit_steps_iff:
  assumes "sorted cs"
  shows "successively suit_step cs \<longleftrightarrow> one_color cs \<and> distinct (map pt cs)"
  using assms
proof (induction cs)
  case Nil
  then show ?case by (simp add: one_color_def)
next
  case (Cons c cs)
  show ?case
  proof (cases cs)
    case Nil
    then show ?thesis by (simp add: one_color_def)
  next
    case c2: (Cons d ds)
    from Cons.prems have srt: "sorted cs" "sorted (map pt (c # cs))" by (simp_all add: sorted_pt del: list.map)
    have "pt c \<notin> pt ` set cs" if "pt c \<noteq> pt d"
    proof
      assume "pt c \<in> pt ` set cs"
      then obtain z where z: "z \<in> set cs" "pt c = pt z" by auto
      from srt(2) c2 have "pt c \<le> pt d" by simp
      moreover from srt(2) c2 z(1) have "pt d \<le> pt z" by auto
      ultimately show False using z that by simp
    qed
    moreover have "pt c \<noteq> pt d" if "pt c \<notin> pt ` set cs" using that c2 by auto
    ultimately have "pt c \<noteq> pt d \<longleftrightarrow> pt c \<notin> pt ` set cs" by blast
    with Cons.IH srt(1) c2 show ?thesis by (auto simp: suit_step_def one_color_Cons2)
  qed
qed

text \<open>
  The points of a straight of \<open>n\<close> cards lie in a window of \<open>n\<close> consecutive points: any two
  differ by less than \<open>n\<close>.
\<close>

definition within_window :: "int list \<Rightarrow> nat \<Rightarrow> bool" where
  "within_window ps n \<longleftrightarrow> (\<forall>p\<in>set ps. \<forall>q\<in>set ps. q - p < int n)"

lemma within_window_iff: "within_window ps n \<longleftrightarrow> (\<exists>lo. \<forall>p\<in>set ps. lo \<le> p \<and> p < lo + int n)"
proof
  assume w: "within_window ps n"
  show "\<exists>lo. \<forall>p\<in>set ps. lo \<le> p \<and> p < lo + int n"
  proof (cases "ps = []")
    case False
    then have "Min (set ps) \<in> set ps" by simp
    with w have "\<forall>p\<in>set ps. p - Min (set ps) < int n" by (simp add: within_window_def)
    then have "\<forall>p\<in>set ps. Min (set ps) \<le> p \<and> p < Min (set ps) + int n" by force
    then show ?thesis by blast
  qed simp
next
  assume "\<exists>lo. \<forall>p\<in>set ps. lo \<le> p \<and> p < lo + int n"
  then obtain lo where lo: "\<forall>p\<in>set ps. lo \<le> p \<and> p < lo + int n" ..
  have "q - p < int n" if "p \<in> set ps" "q \<in> set ps" for p q
    using bspec [OF lo that(1)] bspec [OF lo that(2)] by linarith
  then show "within_window ps n" by (simp add: within_window_def)
qed

lemma gaps_window:
  assumes "sorted ns" and "ns \<noteq> []" and "length ns + k = n"
  shows "gaps ns \<le> int k \<longleftrightarrow> within_window (map pt ns) n"
proof -
  have srt: "sorted (map pt ns)" using assms(1) by (rule sorted_pt)
  have "pt (hd ns) \<le> pt c \<and> pt c \<le> pt (last ns)" if "c \<in> set ns" for c
  proof -
    from that obtain i where i: "i < length ns" "ns ! i = c" by (auto simp: in_set_conv_nth)
    with sorted_nth_mono [OF srt, of 0 i] sorted_nth_mono [OF srt, of i "length ns - 1"]
    show ?thesis by (simp add: hd_conv_nth last_conv_nth assms(2) Suc_le_eq)
  qed
  then have b: "\<forall>c\<in>set ns. pt (hd ns) \<le> pt c \<and> pt c \<le> pt (last ns)" by blast
  have "within_window (map pt ns) n \<longleftrightarrow> pt (last ns) - pt (hd ns) < int n"
  proof
    assume "within_window (map pt ns) n"
    with assms(2) show "pt (last ns) - pt (hd ns) < int n" by (simp add: within_window_def)
  next
    assume *: "pt (last ns) - pt (hd ns) < int n"
    have "pt d - pt c < int n" if "c \<in> set ns" "d \<in> set ns" for c d
      using * bspec [OF b that(1)] bspec [OF b that(2)] by linarith
    then show "within_window (map pt ns) n" by (simp add: within_window_def)
  qed
  with assms(2,3) show ?thesis by (auto simp: gaps_def)
qed

text \<open>The point of a card when the ace counts as one.\<close>

definition low_pt :: "PokerCard \<Rightarrow> int" where
  "low_pt c = (if pt c = 14 then 1 else pt c)"

lemma pt_ace_to_one: "pt (ace_to_one c) = low_pt c"
  by (simp add: ace_to_one_def low_pt_def) (simp add: pt_def)

lemma color_ace_to_one [simp]: "m_color (ace_to_one c) = m_color c"
  by (simp add: ace_to_one_def)

lemma one_color_cong: "set xs = set ys \<Longrightarrow> one_color xs \<longleftrightarrow> one_color ys"
  unfolding one_color_def by (cases xs; cases ys) (simp_all, metis insertI1 insertE)

lemma one_color_map_ace: "one_color (map ace_to_one xs) \<longleftrightarrow> one_color xs"
  by (cases xs) (simp_all add: one_color_def)

lemma within_window_mset: "set ps = set qs \<Longrightarrow> within_window ps n \<longleftrightarrow> within_window qs n"
  by (simp add: within_window_def)

lemma ace_low_scan_sort:
  assumes "ns \<noteq> []" and "length ns + k = n"
  shows "(case ace_low_scan None 0 (sort (map ace_to_one ns)) of None \<Rightarrow> False | Some need \<Rightarrow> need \<le> int k) \<longleftrightarrow>
    one_color ns \<and> distinct (map low_pt ns) \<and> within_window (map low_pt ns) n"
proof -
  let ?s = "sort (map ace_to_one ns)"
  have m: "map pt (map ace_to_one ns) = map low_pt ns" by (simp add: pt_ace_to_one)
  have "distinct (map pt ?s) \<longleftrightarrow> distinct (map low_pt ns)"
    by (subst mset_eq_imp_distinct_iff [of "map pt ?s" "map pt (map ace_to_one ns)"]) (simp_all only: m, metis m mset_map mset_sort)
  moreover have "one_color ?s \<longleftrightarrow> one_color ns"
    using one_color_cong [of ?s "map ace_to_one ns"] by (simp add: one_color_map_ace)
  ultimately have steps: "successively suit_step ?s \<longleftrightarrow> one_color ns \<and> distinct (map low_pt ns)"
    by (simp add: suit_steps_iff)
  have "?s \<noteq> []" using assms(1) by (metis length_0_conv length_map length_sort)
  then have "gaps ?s \<le> int k \<longleftrightarrow> within_window (map pt ?s) n"
    by (intro gaps_window) (use assms(2) in simp_all)
  also have "\<dots> \<longleftrightarrow> within_window (map low_pt ns) n"
    by (rule within_window_mset) (simp add: image_image pt_ace_to_one)
  finally show ?thesis using steps by (auto simp: ace_low_scan_None)
qed

text \<open>
  A sorted group is accepted exactly if its natural cards are of one suit and of different
  points and all lie in a window as long as the group, with the ace high or with the ace low.
\<close>

definition fits_straight :: "(PokerCard \<Rightarrow> int) \<Rightarrow> PokerCard list \<Rightarrow> nat \<Rightarrow> bool" where
  "fits_straight point ns n \<longleftrightarrow> distinct (map point ns) \<and> within_window (map point ns) n"

lemma no_ace_low: "\<forall>c\<in>set ns. pt c \<noteq> 14 \<Longrightarrow> map low_pt ns = map pt ns"
  by (simp add: low_pt_def)

lemma sorted_last_ace:
  assumes "sorted ns" and "\<forall>c\<in>set ns. pt c < 15" and "ns \<noteq> []"
  shows "pt (last ns) = 14 \<longleftrightarrow> (\<exists>c\<in>set ns. pt c = 14)"
proof
  assume "pt (last ns) = 14"
  with assms(3) show "\<exists>c\<in>set ns. pt c = 14" by (meson last_in_set)
next
  assume "\<exists>c\<in>set ns. pt c = 14"
  then obtain c where c: "c \<in> set ns" "pt c = 14" by blast
  from c obtain i where i: "i < length ns" "ns ! i = c" by (auto simp: in_set_conv_nth)
  with sorted_nth_mono [OF assms(1), of i "length ns - 1"] assms(3) have "c \<le> last ns"
    by (simp add: last_conv_nth)
  then have "pt c \<le> pt (last ns)" by (simp add: pt_le_iff card_le_point)
  moreover have "pt (last ns) < 15" using assms(2,3) by simp
  ultimately show "pt (last ns) = 14" using c(2) by linarith
qed

lemma straight_sorted:
  assumes "sorted cs"
  shows "is_cards_straight jp cs \<longleftrightarrow> 3 \<le> length cs \<and> one_color (naturals jp cs) \<and>
    distinct (map pt (naturals jp cs)) \<and>
    (fits_straight pt (naturals jp cs) (length cs) \<or> fits_straight low_pt (naturals jp cs) (length cs))"
proof -
  let ?ns = "naturals jp cs" and ?k = "length (jokers_of jp cs)"
  have srt: "sorted ?ns" using assms by (simp add: naturals_def sorted_wrt_filter)
  have nj: "\<forall>c\<in>set ?ns. pt c < 15 \<and> pt c \<noteq> jp" by (auto simp: naturals_def is_joker_iff)
  have steps: "successively suit_step ?ns \<longleftrightarrow> one_color ?ns \<and> distinct (map pt ?ns)"
    using srt by (rule suit_steps_iff)
  have len: "length ?ns + ?k = length cs" by (rule length_naturals_jokers)
  have scan: "straight_scan jp None 0 0 [] cs =
      (if one_color ?ns \<and> distinct (map pt ?ns) then Some (int ?k, gaps ?ns, ?ns) else None)"
    by (simp add: straight_scan_None steps)
  show ?thesis
  proof (cases "3 \<le> length cs \<and> one_color ?ns \<and> distinct (map pt ?ns)")
    case False
    then show ?thesis by (auto simp: is_cards_straight_def scan)
  next
    case ok: True
    show ?thesis
    proof (cases "?ns = []")
      case True
      with ok show ?thesis
        by (simp add: is_cards_straight_def scan gaps_def fits_straight_def within_window_def)
    next
      case ne: False
      have win: "gaps ?ns \<le> int ?k \<longleftrightarrow> fits_straight pt ?ns (length cs)"
        using gaps_window [OF srt ne len] ok by (simp add: fits_straight_def)
      have low: "(case ace_low_scan None 0 (sort (map ace_to_one ?ns)) of None \<Rightarrow> False | Some need \<Rightarrow> need \<le> int ?k)
          \<longleftrightarrow> fits_straight low_pt ?ns (length cs)"
        using ace_low_scan_sort [OF ne len] ok by (simp add: fits_straight_def)
      have ace: "pt (last ?ns) = 14 \<longleftrightarrow> (\<exists>c\<in>set ?ns. pt c = 14)"
        using nj by (intro sorted_last_ace srt ne) auto
      have jp: "pt (last ?ns) \<noteq> 14" if "jp = 14" using nj that ne by (metis last_in_set)
      have noace: "fits_straight low_pt ?ns (length cs) = fits_straight pt ?ns (length cs)" if "pt (last ?ns) \<noteq> 14"
      proof -
        have "map low_pt ?ns = map pt ?ns" using that ace by (intro no_ace_low) blast
        then show ?thesis by (simp only: fits_straight_def)
      qed
      have "is_cards_straight jp cs \<longleftrightarrow>
          (if gaps ?ns \<le> int ?k then True else if jp = 14 \<or> pt (last ?ns) \<noteq> 14 then False
           else fits_straight low_pt ?ns (length cs))"
        using ok low by (simp add: is_cards_straight_def scan)
      also have "\<dots> \<longleftrightarrow> fits_straight pt ?ns (length cs) \<or> fits_straight low_pt ?ns (length cs)"
        using win jp noace by auto
      finally show ?thesis using ok by blast
    qed
  qed
qed

section \<open>What a winning and a losing declaration are\<close>

definition straight_groups :: "CardGroup list \<Rightarrow> CardGroup list" where
  "straight_groups gs = filter (\<lambda>g. m_type g = GROUP_STAIGHT) gs"

definition pure_groups :: "CardGroup list \<Rightarrow> CardGroup list" where
  "pure_groups gs = filter (\<lambda>g. m_type g = GROUP_STAIGHT \<and> is_cards_pure_straight (sort (m_cards g))) gs"

definition group_checks :: "int \<Rightarrow> CardGroup \<Rightarrow> bool" where
  "group_checks jp g \<longleftrightarrow>
     (m_type g = GROUP_STAIGHT \<longrightarrow> is_cards_straight jp (sort (m_cards g))) \<and>
     (m_type g = GROUP_THREE_KIND \<longrightarrow> is_cards_three_of_kind jp (sort (m_cards g)))"

definition loose_score :: "int \<Rightarrow> CardGroup list \<Rightarrow> int" where
  "loose_score jp gs = (\<Sum>g\<leftarrow>filter (\<lambda>g. m_type g = GROUP_INVALID) gs. caculate_card_score jp (m_cards g))"

lemma declare_scan_eq:
  "declare_scan jp pure straight gs =
     (if \<forall>g\<in>set gs. m_type g \<noteq> GROUP_INVALID \<and> group_checks jp g
      then Some (pure + length (pure_groups gs), straight + length (straight_groups gs)) else None)"
proof (induction gs arbitrary: pure straight)
  case Nil
  then show ?case by (simp add: pure_groups_def straight_groups_def)
next
  case (Cons g gs)
  consider "m_type g = 0" | "m_type g = 1" | "m_type g = 2" | "m_type g \<noteq> 0" "m_type g \<noteq> 1" "m_type g \<noteq> 2"
    by blast
  then show ?case
    by cases (simp_all add: Cons.IH group_checks_def pure_groups_def straight_groups_def Let_def)
qed

lemma is_groups_declare_iff:
  "is_groups_declare gs jp \<longleftrightarrow>
     (\<forall>g\<in>set gs. m_type g \<noteq> GROUP_INVALID \<and> group_checks jp g) \<and>
     1 \<le> length (pure_groups gs) \<and> 2 \<le> length (straight_groups gs)"
  by (auto simp: is_groups_declare_def declare_scan_eq not_less Suc_le_eq)

lemma count_straights_eq:
  "count_straights jp pure straight gs =
     (if \<forall>g\<in>set gs. m_type g = GROUP_STAIGHT \<longrightarrow> is_cards_straight jp (sort (m_cards g))
      then Some (pure + length (pure_groups gs), straight + length (straight_groups gs)) else None)"
proof (induction gs arbitrary: pure straight)
  case Nil
  then show ?case by (simp add: pure_groups_def straight_groups_def)
next
  case (Cons g gs)
  then show ?case
    by (cases "m_type g = 1") (simp_all add: pure_groups_def straight_groups_def Let_def)
qed

definition lives_ok :: "int \<Rightarrow> nat \<Rightarrow> nat \<Rightarrow> CardGroup \<Rightarrow> bool" where
  "lives_ok jp pure straight g \<longleftrightarrow>
     m_type g = GROUP_INVALID \<or>
     m_type g = GROUP_STAIGHT \<and> 1 \<le> pure \<or>
     m_type g = GROUP_THREE_KIND \<and> 1 \<le> pure \<and> 2 \<le> straight \<and> is_cards_three_of_kind jp (sort (m_cards g))"

lemma lose_score_eq:
  "(\<forall>g\<in>set gs. lives_ok jp pure straight g) \<Longrightarrow>
   lose_score jp pure straight score gs = (True, score + loose_score jp gs)"
  by (induction gs arbitrary: score) (auto simp: lives_ok_def loose_score_def Let_def)

lemma lose_score_False:
  "\<not> (\<forall>g\<in>set gs. lives_ok jp pure straight g) \<Longrightarrow> \<not> fst (lose_score jp pure straight score gs)"
proof (induction gs arbitrary: score)
  case (Cons g gs)
  consider "m_type g = 0" | "m_type g = 1" | "m_type g = 2" | "m_type g \<noteq> 0" "m_type g \<noteq> 1" "m_type g \<noteq> 2"
    by blast
  then show ?case using Cons by cases (auto simp: lives_ok_def Let_def)
qed simp

lemma check_lose_declare_iff:
  "fst (check_lose_declare gs jp) \<longleftrightarrow>
     (\<forall>g\<in>set gs. group_checks jp g \<and>
        lives_ok jp (length (pure_groups gs)) (length (straight_groups gs)) g)"
proof (cases "\<forall>g\<in>set gs. m_type g = 1 \<longrightarrow> is_cards_straight jp (sort (m_cards g))")
  case True
  let ?ok = "\<forall>g\<in>set gs. lives_ok jp (length (pure_groups gs)) (length (straight_groups gs)) g"
  have "fst (check_lose_declare gs jp) \<longleftrightarrow> ?ok"
    using True lose_score_eq [of gs jp] lose_score_False [of gs jp]
    by (cases ?ok) (simp_all add: check_lose_declare_def count_straights_eq)
  also have "\<dots> \<longleftrightarrow> (\<forall>g\<in>set gs. group_checks jp g \<and>
        lives_ok jp (length (pure_groups gs)) (length (straight_groups gs)) g)"
    using True by (auto simp: group_checks_def lives_ok_def)
  finally show ?thesis .
next
  case False
  then show ?thesis by (auto simp: check_lose_declare_def count_straights_eq group_checks_def)
qed

lemma check_lose_declare_score:
  "fst (check_lose_declare gs jp) \<Longrightarrow> snd (check_lose_declare gs jp) = loose_score jp gs"
  using lose_score_eq [of gs jp] check_lose_declare_iff [of gs jp]
  by (auto simp: check_lose_declare_def count_straights_eq group_checks_def split: if_splits)

section \<open>Properties\<close>

text \<open>
  C10. A group of natural cards of pairwise different, ascending points passes
  \<^verbatim>\<open>is_cards_pure_straight\<close> exactly if it has at least three cards of one colour whose points
  are consecutive, the ace counting as 14 or, after 2, 3, ..., as 1.
\<close>

theorem pure_straight_correct:
  assumes "ascending cs" and "\<forall>c\<in>set cs. pt c < 15"
  shows "is_cards_pure_straight cs \<longleftrightarrow> 3 \<le> length cs \<and> one_color cs \<and>
    (map pt cs = [pt (hd cs)..pt (hd cs) + int (length cs) - 1] \<or> map pt cs = [2..int (length cs)] @ [14])"
  using assms by (rule pure_straight_natural)

theorem pure_straight_correct_witness:
  "is_cards_pure_straight [mk_card 3 2, mk_card 3 3, mk_card 3 14] \<and>
   \<not> is_cards_pure_straight [mk_card 3 2, mk_card 3 4, mk_card 3 14]"
  using pure_straight_correct [of "[mk_card 3 2, mk_card 3 3, mk_card 3 14]"]
    pure_straight_correct [of "[mk_card 3 2, mk_card 3 4, mk_card 3 14]"]
  by (simp add: ascending_def one_color_def mk_card_def pt_def upto_rec1)

text \<open>
  C6. On a sorted group, \<^verbatim>\<open>is_cards_straight\<close>, which counts gaps and jokers in one or two
  scans, accepts exactly the groups of at least three cards whose natural cards have one colour
  and different points and all lie in a window of as many consecutive points as the group has
  cards, with the ace as 14 or with the ace as 1.
\<close>

theorem straight_correct:
  assumes "sorted cs"
  shows "is_cards_straight jp cs \<longleftrightarrow> 3 \<le> length cs \<and> one_color (naturals jp cs) \<and>
    distinct (map pt (naturals jp cs)) \<and>
    (fits_straight pt (naturals jp cs) (length cs) \<or> fits_straight low_pt (naturals jp cs) (length cs))"
  using assms by (rule straight_sorted)

theorem straight_correct_witness:
  "is_cards_straight 9 [mk_card 2 3, mk_card 4 9, mk_card 2 14]"
  using straight_correct [of "[mk_card 2 3, mk_card 4 9, mk_card 2 14]" 9]
  by (simp add: mk_card_def naturals_def is_joker_def one_color_def fits_straight_def
      within_window_def low_pt_def pt_def less_eq_PokerCard_ext_def less_PokerCard_ext_def)

text \<open>
  C11. On a sorted group, \<^verbatim>\<open>is_cards_three_of_kind\<close> accepts exactly the groups of three or four
  cards with at least two natural cards in which the natural cards below the wild rank have one
  point and different colours, and so have those above it; cards below and cards above it may
  be in the group together only if a wild card stands between them. (So a genuine set is always
  accepted, and the only wrong groups that pass are those where a wild card separates two ranks.)
\<close>

theorem three_of_kind_exact:
  assumes "sorted cs"
  shows "is_cards_three_of_kind jp cs \<longleftrightarrow>
    (length cs = 3 \<or> length cs = 4) \<and> 2 \<le> length (naturals jp cs) \<and>
    same_rank (low_naturals jp cs) \<and> same_rank (high_naturals jp cs) \<and>
    (low_naturals jp cs \<noteq> [] \<and> high_naturals jp cs \<noteq> [] \<longrightarrow> wild_cards jp cs \<noteq> [])"
  using assms by (rule three_of_kind_sorted)

theorem three_of_kind_exact_witness:
  "is_cards_three_of_kind 7 [mk_card 1 5, mk_card 2 7, mk_card 3 9] \<and>
   \<not> is_cards_three_of_kind 8 [mk_card 1 5, mk_card 2 7, mk_card 3 9]"
  using three_of_kind_exact [of "[mk_card 1 5, mk_card 2 7, mk_card 3 9]" 7]
    three_of_kind_exact [of "[mk_card 1 5, mk_card 2 7, mk_card 3 9]" 8]
  by (simp add: mk_card_def naturals_def is_joker_def low_naturals_def high_naturals_def wild_cards_def
      same_rank_def pt_def less_eq_PokerCard_ext_def less_PokerCard_ext_def)

text \<open>
  What a winning declaration is: \<^verbatim>\<open>is_groups_declare\<close> accepts exactly the lists of groups
  with no loose group, in which every straight and every three of a kind passes its test, at
  least two groups are straights and at least one of these a pure one.
\<close>

theorem groups_declare_exact:
  "is_groups_declare gs jp \<longleftrightarrow>
     (\<forall>g\<in>set gs. m_type g \<noteq> GROUP_INVALID \<and> group_checks jp g) \<and>
     1 \<le> length (pure_groups gs) \<and> 2 \<le> length (straight_groups gs)"
  by (rule is_groups_declare_iff)

text \<open>
  C12. What a losing declaration scores: whenever \<^verbatim>\<open>check_lose_declare\<close> accepts, every group has
  one of the three known types and passes its test, no straight is counted without a pure
  straight and no three of a kind without a second straight, and the score is the sum of the
  scores of the loose groups.
\<close>

theorem lose_declare_score:
  assumes "check_lose_declare gs jp = (True, score)"
  shows "(\<forall>g\<in>set gs. m_type g \<in> {0, 1, 2} \<and> group_checks jp g) \<and>
    (straight_groups gs \<noteq> [] \<longrightarrow> pure_groups gs \<noteq> []) \<and>
    ((\<exists>g\<in>set gs. m_type g = GROUP_THREE_KIND) \<longrightarrow> 2 \<le> length (straight_groups gs)) \<and>
    score = loose_score jp gs"
proof -
  from assms have ok: "fst (check_lose_declare gs jp)" by simp
  then have g: "\<forall>g\<in>set gs. group_checks jp g \<and>
      lives_ok jp (length (pure_groups gs)) (length (straight_groups gs)) g"
    by (simp add: check_lose_declare_iff)
  then have "straight_groups gs \<noteq> [] \<longrightarrow> pure_groups gs \<noteq> []"
    by (auto simp: straight_groups_def filter_empty_conv lives_ok_def)
  with g check_lose_declare_score [OF ok] assms show ?thesis by (auto simp: lives_ok_def)
qed

definition sample_lost_hand :: "CardGroup list" where
  "sample_lost_hand =
     [\<lparr>m_type = 1, m_cards = [mk_card 1 2, mk_card 1 3, mk_card 1 4]\<rparr>,
      \<lparr>m_type = 0, m_cards = [mk_card 2 13, mk_card 3 6]\<rparr>]"

theorem lose_declare_score_witness:
  "check_lose_declare sample_lost_hand 9 = (True, 16) \<and> loose_score 9 sample_lost_hand = 16"
proof -
  have "check_lose_declare sample_lost_hand 9 = (True, 16)" by code_simp
  with lose_declare_score [OF this] show ?thesis by simp
qed

text \<open>
  The two tests agree: groups of the known types that \<^verbatim>\<open>is_groups_declare\<close> takes as a
  winning declaration are taken by \<^verbatim>\<open>check_lose_declare\<close> as well, with score 0.
\<close>

theorem declare_is_lose_with_zero:
  assumes "is_groups_declare gs jp" and "\<forall>g\<in>set gs. m_type g \<in> {0, 1, 2}"
  shows "check_lose_declare gs jp = (True, 0)"
proof -
  from assms have ok: "fst (check_lose_declare gs jp)"
    unfolding check_lose_declare_iff is_groups_declare_iff by (auto simp: group_checks_def lives_ok_def)
  from assms(1) have "filter (\<lambda>g. m_type g = GROUP_INVALID) gs = []"
    by (auto simp: is_groups_declare_iff filter_empty_conv)
  with check_lose_declare_score [OF ok] have "snd (check_lose_declare gs jp) = 0" by (simp add: loose_score_def)
  with ok show ?thesis by (simp add: prod_eq_iff)
qed

definition sample_won_hand :: "CardGroup list" where
  "sample_won_hand =
     [\<lparr>m_type = 1, m_cards = [mk_card 1 2, mk_card 1 3, mk_card 1 4]\<rparr>,
      \<lparr>m_type = 1, m_cards = [mk_card 2 12, mk_card 4 9, mk_card 2 13, mk_card 2 14]\<rparr>,
      \<lparr>m_type = 2, m_cards = [mk_card 1 6, mk_card 2 6, mk_card 0 15]\<rparr>]"

theorem declare_is_lose_with_zero_witness:
  "is_groups_declare sample_won_hand 9 \<and> check_lose_declare sample_won_hand 9 = (True, 0)"
proof -
  have "is_groups_declare sample_won_hand 9" by code_simp
  moreover have "\<forall>g\<in>set sample_won_hand. m_type g \<in> {0, 1, 2}" by (simp add: sample_won_hand_def)
  ultimately show ?thesis using declare_is_lose_with_zero [of sample_won_hand 9] by blast
qed




end
