(* ===== verification/Choices.thy ===== *)
theory Choices
  imports SF_Prelude
begin

text \<open>
  The enumeration of the combinations of a vector, \<^verbatim>\<open>Combination::caculate_all_choices\<close> and
  \<^verbatim>\<open>index_to_elem\<close> of \<^verbatim>\<open>server/gamesvr/Combination.h\<close>: a vector of flags is moved from one
  combination to the next by exchanging the first \<open>1, 0\<close> and moving the ones before it to the
  left, and the scan then starts again at the front. The loop terminates because the flags, read
  as a binary number with the front as lowest digit, grow; what it lists is every sublist of the
  requested length exactly as often as it occurs. The locale \<open>combination_enumerator\<close> is what
  the hand search relies on.
\<close>

section \<open>The code\<close>

fun index_to_elem :: "'a list \<Rightarrow> int list \<Rightarrow> 'a list" where
  "index_to_elem (x # xs) (b # bs) = (if b = 1 then x # index_to_elem xs bs else index_to_elem xs bs)"
| "index_to_elem xs bs = []"

text \<open>\<^verbatim>\<open>sort(vec_index.begin(), vec_index.begin() + i, std::greater<int>())\<close>.\<close>

definition sort_front_desc :: "nat \<Rightarrow> int list \<Rightarrow> int list" where
  "sort_front_desc i v = rev (sort (take i v)) @ drop i v"

definition exchange :: "nat \<Rightarrow> int list \<Rightarrow> int list" where
  "exchange i v = sort_front_desc i (v[i := v ! (i + 1), i + 1 := v ! i])"

fun flags_value :: "int list \<Rightarrow> nat" where
  "flags_value [] = 0"
| "flags_value (b # bs) = (if b = 1 then 1 else 0) + 2 * flags_value bs"

lemma flags_value_append: "flags_value (xs @ ys) = flags_value xs + 2 ^ length xs * flags_value ys"
  by (induction xs) (simp_all add: algebra_simps)

lemma flags_value_less: "flags_value xs < 2 ^ length xs"
  by (induction xs) auto

lemma exchange_split:
  assumes "i + 1 < length v"
  shows "exchange i v = rev (sort (take i v)) @ v ! (i + 1) # v ! i # drop (i + 2) v"
proof -
  have v: "v = take i v @ v ! i # v ! (i + 1) # drop (i + 2) v"
    using assms by (simp add: Cons_nth_drop_Suc)
  obtain t a b d where t: "t = take i v" "a = v ! i" "b = v ! (i + 1)" "d = drop (i + 2) v" by blast
  have "length t = i" using assms t by simp
  moreover from v t have "v = t @ a # b # d" by simp
  ultimately have "v[i := b, i + 1 := a] = t @ b # a # d" by (simp add: list_update_append)
  with t \<open>length t = i\<close> show ?thesis by (simp add: exchange_def sort_front_desc_def)
qed

lemma length_exchange [simp]: "length (exchange i v) = length v"
  by (simp add: exchange_def sort_front_desc_def)

lemma exchange_grows:
  assumes "i + 1 < length v" and "v ! i = 1" and "v ! (i + 1) = 0"
  shows "flags_value v < flags_value (exchange i v)"
proof -
  let ?t = "take i v" and ?d = "drop (i + 2) v"
  have v: "v = ?t @ v ! i # v ! (i + 1) # ?d"
    using assms(1) by (simp add: Cons_nth_drop_Suc)
  then have "flags_value v = flags_value (?t @ [1, 0] @ ?d)" using assms by simp
  moreover have "flags_value (exchange i v) = flags_value (rev (sort ?t) @ [0, 1] @ ?d)"
    using assms by (simp add: exchange_split)
  moreover have "flags_value ?t < 2 ^ length ?t" by (rule flags_value_less)
  ultimately show ?thesis using assms(1) by (simp add: flags_value_append algebra_simps)
qed

function choices_loop :: "'a list \<Rightarrow> int list \<Rightarrow> nat \<Rightarrow> 'a list list \<Rightarrow> 'a list list" where
  "choices_loop arr vec_index i all_combines =
     (if i + 1 < length vec_index then
        if vec_index ! i = 1 \<and> vec_index ! (i + 1) = 0 then
          let vec_index = exchange i vec_index
          in choices_loop arr vec_index 0 (all_combines @ [index_to_elem arr vec_index])
        else choices_loop arr vec_index (i + 1) all_combines
      else all_combines)"
  by pat_completeness auto
termination
proof (relation "measures [\<lambda>(arr, v, i, out). 2 ^ length v - flags_value v, \<lambda>(arr, v, i, out). length v - i]",
    goal_cases)
  case (2 arr v i out w)
  then have "flags_value v < flags_value w" "length w = length v" by (simp_all add: exchange_grows)
  moreover have "flags_value w < 2 ^ length w" by (rule flags_value_less)
  ultimately have "2 ^ length v - flags_value w < 2 ^ length v - flags_value v"
    by (intro diff_less_mono2) simp_all
  with \<open>length w = length v\<close> show ?case by simp
qed auto

definition first_choice :: "nat \<Rightarrow> nat \<Rightarrow> int list" where
  "first_choice m n = replicate n 1 @ replicate (m - n) 0"

definition caculate_all_choices :: "'a list \<Rightarrow> nat \<Rightarrow> 'a list list \<Rightarrow> 'a list list" where
  "caculate_all_choices arr n all_combines =
     (if length arr < n then all_combines
      else
        let vec_index = first_choice (length arr) n;
            all_combines = all_combines @ [index_to_elem arr vec_index]
        in choices_loop arr vec_index 0 all_combines)"

declare choices_loop.simps [simp del]

section \<open>The order in which the flags are visited\<close>

text \<open>All flag vectors of length \<open>m\<close> with \<open>n\<close> ones, those that end in 0 first.\<close>

fun colex :: "nat \<Rightarrow> nat \<Rightarrow> int list list" where
  "colex 0 0 = [[]]"
| "colex 0 (Suc n) = []"
| "colex (Suc m) 0 = map (\<lambda>v. v @ [0]) (colex m 0)"
| "colex (Suc m) (Suc n) = map (\<lambda>v. v @ [0]) (colex m (Suc n)) @ map (\<lambda>v. v @ [1]) (colex m n)"

definition last_choice :: "nat \<Rightarrow> nat \<Rightarrow> int list" where
  "last_choice m n = replicate (m - n) 0 @ replicate n 1"

text \<open>The place of the first \<open>1, 0\<close>, if there is one.\<close>

fun first_10 :: "int list \<Rightarrow> nat option" where
  "first_10 (a # b # v) = (if a = 1 \<and> b = 0 then Some 0 else map_option Suc (first_10 (b # v)))"
| "first_10 v = None"

lemma first_10_Some:
  "first_10 v = Some i \<Longrightarrow> i + 1 < length v \<and> v ! i = 1 \<and> v ! (i + 1) = 0 \<and>
     (\<forall>j<i. \<not> (v ! j = 1 \<and> v ! (j + 1) = 0))"
proof (induction v arbitrary: i rule: first_10.induct)
  case (1 a b v)
  show ?case
  proof (cases "a = 1 \<and> b = 0")
    case True
    with 1 show ?thesis by simp
  next
    case False
    with 1 obtain k where "first_10 (b # v) = Some k" "i = Suc k" by auto
    with 1(1) [OF False] False show ?thesis by (auto simp: less_Suc_eq_0_disj nth_Cons')
  qed
qed simp_all

lemma first_10_None: "first_10 v = None \<Longrightarrow> j + 1 < length v \<Longrightarrow> \<not> (v ! j = 1 \<and> v ! (j + 1) = 0)"
proof (induction v arbitrary: j rule: first_10.induct)
  case (1 a b v)
  then show ?case by (cases j) (auto split: if_splits)
qed simp_all

text \<open>The scan of the loop is \<open>first_10\<close>.\<close>

lemma choices_loop_skip:
  "(\<forall>j. i \<le> j \<and> j < k \<longrightarrow> j + 1 < length v \<and> \<not> (v ! j = 1 \<and> v ! (j + 1) = 0)) \<Longrightarrow> i \<le> k \<Longrightarrow>
   choices_loop arr v i out = choices_loop arr v k out"
proof (induction "k - i" arbitrary: i)
  case 0
  then show ?case by simp
next
  case (Suc d)
  then have "i < k" by simp
  with Suc.prems have "choices_loop arr v i out = choices_loop arr v (i + 1) out"
    by (subst choices_loop.simps) auto
  also have "\<dots> = choices_loop arr v k out" using Suc \<open>i < k\<close> by (intro Suc.hyps(1)) auto
  finally show ?case .
qed

lemma choices_loop_scan:
  "choices_loop arr v 0 out =
     (case first_10 v of None \<Rightarrow> out
      | Some i \<Rightarrow> choices_loop arr (exchange i v) 0 (out @ [index_to_elem arr (exchange i v)]))"
proof (cases "first_10 v")
  case None
  have "choices_loop arr v 0 out = choices_loop arr v (length v - 1) out"
    using first_10_None [OF None] by (intro choices_loop_skip) auto
  also have "\<not> length v - 1 + 1 < length v" by auto
  then have "choices_loop arr v (length v - 1) out = out"
    by (subst choices_loop.simps) (simp only: if_False)
  finally show ?thesis using None by simp
next
  case (Some i)
  note i = first_10_Some [OF Some]
  then have "choices_loop arr v 0 out = choices_loop arr v i out"
    by (intro choices_loop_skip) auto
  also have "\<dots> = choices_loop arr (exchange i v) 0 (out @ [index_to_elem arr (exchange i v)])"
    using i by (subst choices_loop.simps) (simp add: Let_def)
  finally show ?thesis using Some by simp
qed

text \<open>One step of the enumeration of the flags.\<close>

definition next_flags :: "int list \<Rightarrow> int list option" where
  "next_flags v = map_option (\<lambda>i. exchange i v) (first_10 v)"

text \<open>A list of flag vectors in which each is followed by its successor.\<close>

definition flag_chain :: "int list list \<Rightarrow> bool" where
  "flag_chain vs \<longleftrightarrow> successively (\<lambda>v w. next_flags v = Some w) vs"

lemma choices_loop_chain:
  "flag_chain (v # vs) \<Longrightarrow> next_flags (last (v # vs)) = None \<Longrightarrow>
   choices_loop arr v 0 out = out @ map (index_to_elem arr) vs"
proof (induction vs arbitrary: v out)
  case Nil
  then show ?case by (subst choices_loop_scan) (simp add: next_flags_def)
next
  case (Cons w vs)
  then have "next_flags v = Some w" "flag_chain (w # vs)" by (simp_all add: flag_chain_def)
  with Cons show ?case
    by (subst choices_loop_scan) (auto simp: next_flags_def)
qed

lemma first_10_snoc:
  "first_10 v = Some i \<Longrightarrow> first_10 (v @ [b]) = Some i"
  by (induction v arbitrary: i rule: first_10.induct) (auto split: if_splits)

lemma next_flags_snoc:
  assumes "next_flags v = Some w"
  shows "next_flags (v @ [b]) = Some (w @ [b])"
proof -
  from assms obtain i where i: "first_10 v = Some i" "w = exchange i v" by (auto simp: next_flags_def)
  from first_10_Some [OF i(1)] have l: "i + 1 < length v" by simp
  then have "exchange i (v @ [b]) = exchange i v @ [b]"
    by (simp add: exchange_split nth_append)
  with i first_10_snoc [OF i(1)] show ?thesis by (simp add: next_flags_def)
qed

lemma flag_chain_snoc:
  assumes "flag_chain vs"
  shows "flag_chain (map (\<lambda>v. v @ [b]) vs)"
  using assms unfolding flag_chain_def successively_map
  by (rule successively_mono) (simp add: next_flags_snoc)

lemma first_10_ones: "first_10 (replicate n 1) = None"
proof (induction n)
  case (Suc n)
  then show ?case by (cases n) simp_all
qed simp

lemma first_10_last: "first_10 (replicate k 0 @ replicate n 1) = None"
proof (induction k)
  case 0
  then show ?case by (simp add: first_10_ones)
next
  case (Suc k)
  then show ?case by (cases "replicate k (0::int) @ replicate n 1") simp_all
qed

lemma first_10_last_snoc:
  "first_10 (replicate k 0 @ replicate (Suc n) 1 @ [0]) = Some (k + n)"
proof (induction k)
  case 0
  show ?case
  proof (induction n)
    case (Suc n)
    then show ?case by simp
  qed simp
next
  case (Suc k)
  then show ?case by (cases k) simp_all
qed

text \<open>From the last vector of the block that ends in 0 to the first of the block that ends in 1.\<close>

lemma next_flags_block:
  assumes "Suc n \<le> m"
  shows "next_flags (last_choice m (Suc n) @ [0]) = Some (first_choice m n @ [1])"
proof -
  let ?v = "replicate (m - Suc n) (0::int) @ replicate (Suc n) 1 @ [0]"
  have t: "take (m - Suc n + n) ?v = replicate (m - Suc n) 0 @ replicate n 1" by (simp flip: replicate_Suc)
  have "rev (sort (replicate (m - Suc n) (0::int) @ replicate n 1)) = replicate n 1 @ replicate (m - Suc n) 0"
    by (simp add: sorted_append sort_key_id_if_sorted)
  then have "exchange (m - Suc n + n) ?v = first_choice m n @ [1]"
    using assms t by (subst exchange_split) (auto simp: nth_append first_choice_def replicate_app_Cons_same
        simp flip: replicate_Suc)
  then show ?thesis
    using first_10_last_snoc [of "m - Suc n" n] by (simp add: next_flags_def last_choice_def)
qed

lemma colex_empty: "m < n \<Longrightarrow> colex m n = []"
  by (induction m n rule: colex.induct) simp_all

lemma colex_ends:
  "n \<le> m \<Longrightarrow> colex m n \<noteq> [] \<and> hd (colex m n) = first_choice m n \<and> last (colex m n) = last_choice m n"
proof (induction m n rule: colex.induct)
  case (3 m)
  then show ?case
    by (simp add: hd_map last_map first_choice_def last_choice_def replicate_append_same)
next
  case (4 m n)
  then have two: "colex m n \<noteq> []" "hd (colex m n) = first_choice m n" "last (colex m n) = last_choice m n"
    by simp_all
  have "last_choice m n @ [1] = last_choice (Suc m) (Suc n)"
    by (simp add: last_choice_def replicate_append_same)
  moreover have "hd (colex (Suc m) (Suc n)) = first_choice (Suc m) (Suc n)"
  proof (cases "Suc n \<le> m")
    case True
    with 4 have "colex m (Suc n) \<noteq> []" "hd (colex m (Suc n)) = first_choice m (Suc n)" by simp_all
    moreover have "first_choice m (Suc n) @ [0] = first_choice (Suc m) (Suc n)"
      using True by (simp add: first_choice_def replicate_append_same flip: replicate_Suc)
    ultimately show ?thesis by (simp add: hd_map hd_append)
  next
    case False
    with 4 have "n = m" by simp
    with two show ?thesis
      by (simp add: colex_empty hd_map first_choice_def replicate_append_same)
  qed
  ultimately show ?case using two by (simp add: last_map)
qed (simp_all add: first_choice_def last_choice_def)

lemma colex_chain: "flag_chain (colex m n)"
proof (induction m n rule: colex.induct)
  case (3 m)
  then show ?case by (simp add: flag_chain_snoc)
next
  case (4 m n)
  show ?case
  proof (cases "Suc n \<le> m")
    case True
    with colex_ends [of "Suc n" m] colex_ends [of n m] next_flags_block [of n m]
    have "next_flags (last (map (\<lambda>v. v @ [0]) (colex m (Suc n)))) = Some (hd (map (\<lambda>v. v @ [1]) (colex m n)))"
      by (simp add: last_map hd_map)
    with flag_chain_snoc [OF 4(1)] flag_chain_snoc [OF 4(2)] show ?thesis
      by (simp add: flag_chain_def successively_append_iff)
  next
    case False
    with flag_chain_snoc [OF 4(2)] show ?thesis by (simp add: colex_empty)
  qed
qed (simp_all add: flag_chain_def)

lemma caculate_all_choices_eq:
  "caculate_all_choices arr n out = out @ map (index_to_elem arr) (colex (length arr) n)"
proof (cases "length arr < n")
  case True
  then show ?thesis by (simp add: caculate_all_choices_def colex_empty)
next
  case False
  then have ends: "colex (length arr) n \<noteq> []" "hd (colex (length arr) n) = first_choice (length arr) n"
    "last (colex (length arr) n) = last_choice (length arr) n" using colex_ends [of n "length arr"] by simp_all
  then obtain vs where vs: "colex (length arr) n = first_choice (length arr) n # vs"
    by (metis list.collapse)
  have "next_flags (last_choice (length arr) n) = None"
    by (simp add: next_flags_def last_choice_def first_10_last)
  then have "choices_loop arr (first_choice (length arr) n) 0 out' = out' @ map (index_to_elem arr) vs" for out'
    using colex_chain [of "length arr" n] ends(3) unfolding vs by (intro choices_loop_chain) simp_all
  with False show ?thesis by (simp add: caculate_all_choices_def vs Let_def)
qed

section \<open>What is enumerated\<close>

lemma colex_length: "v \<in> set (colex m n) \<Longrightarrow> length v = m"
  by (induction m n arbitrary: v rule: colex.induct) auto

lemma index_to_elem_snoc:
  "length v = length arr \<Longrightarrow>
   index_to_elem (arr @ [x]) (v @ [b]) = (if b = 1 then index_to_elem arr v @ [x] else index_to_elem arr v)"
  by (induction v arr rule: list_induct2) auto

lemma mset_subseqs_snoc:
  "mset (subseqs (xs @ [x])) = mset (subseqs xs) + image_mset (\<lambda>ys. ys @ [x]) (mset (subseqs xs))"
proof (induction xs)
  case Nil
  then show ?case by simp
next
  case (Cons a xs)
  have "image_mset ((#) a) (mset (subseqs xs) + image_mset (\<lambda>ys. ys @ [x]) (mset (subseqs xs))) =
      image_mset ((#) a) (mset (subseqs xs)) + image_mset (\<lambda>ys. ys @ [x]) (image_mset ((#) a) (mset (subseqs xs)))"
    by (simp add: image_mset.compositionality comp_def)
  with Cons show ?case by (simp add: Let_def)
qed

lemma mset_colex_elems:
  "mset (map (index_to_elem arr) (colex (length arr) n)) = filter_mset (\<lambda>ys. length ys = n) (mset (subseqs arr))"
proof (induction arr arbitrary: n rule: rev_induct)
  case Nil
  then show ?case by (cases n) simp_all
next
  case (snoc x arr)
  let ?M = "\<lambda>n. mset (map (index_to_elem arr) (colex (length arr) n))"
  have ends0: "mset (map (index_to_elem (arr @ [x])) (map (\<lambda>v. v @ [0]) (colex (length arr) k))) = ?M k" for k
  proof -
    have "map (index_to_elem (arr @ [x])) (map (\<lambda>v. v @ [0]) (colex (length arr) k)) =
        map (index_to_elem arr) (colex (length arr) k)"
      using colex_length by (auto simp: index_to_elem_snoc)
    then show ?thesis by (simp only:)
  qed
  have ends1: "mset (map (index_to_elem (arr @ [x])) (map (\<lambda>v. v @ [1]) (colex (length arr) k))) =
      image_mset (\<lambda>ys. ys @ [x]) (?M k)" for k
  proof -
    have "map (index_to_elem (arr @ [x])) (map (\<lambda>v. v @ [1]) (colex (length arr) k)) =
        map (\<lambda>ys. ys @ [x]) (map (index_to_elem arr) (colex (length arr) k))"
      using colex_length by (auto simp: index_to_elem_snoc)
    then show ?thesis by (simp only: mset_map)
  qed
  have filt: "filter_mset (\<lambda>ys. length ys = k) (image_mset (\<lambda>ys. ys @ [x]) M) =
      image_mset (\<lambda>ys. ys @ [x]) (filter_mset (\<lambda>ys. Suc (length ys) = k) M)" for k M
    by (induction M) simp_all
  show ?case
  proof (cases n)
    case 0
    with ends0 [of 0] snoc [of 0] show ?thesis by (auto simp: mset_subseqs_snoc filt)
  next
    case (Suc k)
    with ends0 [of n] ends1 [of k] snoc [of n] snoc [of k] show ?thesis
      by (simp add: mset_subseqs_snoc filt)
  qed
qed

section \<open>What the hand search relies on\<close>

locale combination_enumerator =
  fixes comb :: "'a list \<Rightarrow> nat \<Rightarrow> 'a list list"
  assumes choose_mset: "mset (comb xs n) = filter_mset (\<lambda>ys. length ys = n) (mset (subseqs xs))"
begin

lemma set_choose: "set (comb xs n) = {ys. subseq ys xs \<and> length ys = n}"
proof -
  have "set (comb xs n) = set_mset (mset (comb xs n))" by simp
  also have "\<dots> = {ys. subseq ys xs \<and> length ys = n}" unfolding choose_mset by auto
  finally show ?thesis .
qed

lemma choose_subseq: "ys \<in> set (comb xs n) \<Longrightarrow> subseq ys xs"
  by (simp add: set_choose)

lemma choose_len: "ys \<in> set (comb xs n) \<Longrightarrow> length ys = n"
  by (simp add: set_choose)

lemma choose_mset_le: "ys \<in> set (comb xs n) \<Longrightarrow> mset ys \<subseteq># mset xs"
  by (intro subseq_mset choose_subseq)

lemma choose_distinct: "distinct xs \<Longrightarrow> distinct (comb xs n)"
proof -
  assume "distinct xs"
  then have "distinct (subseqs xs)" by (rule distinct_map [THEN iffD1, THEN conjunct1, OF distinct_set_subseqs])
  then have "distinct (filter (\<lambda>ys. length ys = n) (subseqs xs))" by simp
  moreover have "mset (comb xs n) = mset (filter (\<lambda>ys. length ys = n) (subseqs xs))"
    by (simp add: choose_mset)
  ultimately show ?thesis using mset_eq_imp_distinct_iff by blast
qed

end

interpretation choices: combination_enumerator "\<lambda>arr n. caculate_all_choices arr n []"
  by unfold_locales (simp add: caculate_all_choices_eq mset_colex_elems [simplified])

lemma length_colex: "length (colex m n) = m choose n"
  by (induction m n rule: colex.induct) simp_all

section \<open>Properties\<close>

text \<open>
  C5. \<^verbatim>\<open>caculate_all_choices\<close> terminates and appends to its output every sublist of the
  requested length, each exactly as often as it occurs among the sublists of the vector, so
  nothing is missed and nothing is listed twice for the same positions; the number of vectors it
  appends is the binomial coefficient.
\<close>

theorem all_choices_exact:
  "\<exists>new. caculate_all_choices arr n out = out @ new \<and>
     mset new = filter_mset (\<lambda>ys. length ys = n) (mset (subseqs arr)) \<and>
     length new = length arr choose n"
  using mset_colex_elems [of arr n]
  by (intro exI [of _ "map (index_to_elem arr) (colex (length arr) n)"])
    (simp add: caculate_all_choices_eq length_colex)

end
