(* ===== verification/Group_Search.thy ===== *)
theory Group_Search
  imports Card_Dealer Card_Rules Choices
begin

text \<open>
  The search for the groups in a hand, \<^verbatim>\<open>server/gamesvr/Combination.cpp\<close> lines 39 to 49 and
  495 to 868. The fields of the \<^verbatim>\<open>Combination\<close> object the searches read are the record
  \<open>Combination\<close>. A routine that only appends to its output vector is modelled by the list it
  appends; the caller concatenates. A failed \<^verbatim>\<open>assert\<close>, and a copy past the end of the
  \<^verbatim>\<open>std::array\<close> of \<^verbatim>\<open>MAX_CARD_COUNT\<close> cards, is \<open>None\<close>.

  The lemmas show that on a hand of at most 14 cards nothing aborts, that every group found
  is a sub-multiset of the hand with at least three cards, and that it obeys the rules of
  \<open>Card_Rules\<close>.
\<close>

definition MAX_CARD_COUNT :: nat where "MAX_CARD_COUNT = 14"

record Combination =
  m_joker_cards :: "PokerCard list"
  m_joker_combines :: "PokerCard list list"
  m_joker_point :: int

definition new_Combination :: Combination where
  "new_Combination = \<lparr>m_joker_cards = [], m_joker_combines = [], m_joker_point = 0\<rparr>"

definition straight_group :: "PokerCard list \<Rightarrow> CardGroup" where
  "straight_group cs = \<lparr>m_type = GROUP_STAIGHT, m_cards = cs\<rparr>"

definition three_kind_group :: "PokerCard list \<Rightarrow> CardGroup" where
  "three_kind_group cs = \<lparr>m_type = GROUP_THREE_KIND, m_cards = cs\<rparr>"

section \<open>Small routines\<close>

definition search_joker_cards :: "int \<Rightarrow> PokerCard list \<Rightarrow> PokerCard list" where
  "search_joker_cards jp all_cards = filter (is_joker jp) all_cards"

definition is_card_in_group :: "PokerCard \<Rightarrow> PokerCard list \<Rightarrow> bool" where
  "is_card_in_group c all_cards \<longleftrightarrow> c \<in> set all_cards"

definition select_card_combine :: "PokerCard list \<Rightarrow> nat \<Rightarrow> PokerCard list list" where
  "select_card_combine all_cards select_n = caculate_all_choices all_cards select_n []"

definition caculate_all_cards_combines :: "PokerCard list \<Rightarrow> nat \<Rightarrow> nat \<Rightarrow> PokerCard list list" where
  "caculate_all_cards_combines all_cards min_select max_select =
     concat (map (select_card_combine all_cards) [min_select..<max_select + 1])"

definition gen_valid_card_group :: "int \<Rightarrow> PokerCard list \<Rightarrow> CardGroup \<times> int" where
  "gen_valid_card_group jp all_cards =
     (\<lparr>m_type = GROUP_INVALID, m_cards = all_cards\<rparr>, caculate_card_score jp all_cards)"

text \<open>\<^verbatim>\<open>remove_cards\<close>: \<^verbatim>\<open>std::find\<close> and \<^verbatim>\<open>erase\<close> of the first equal card, for each card of the group.\<close>

fun erase_found :: "PokerCard list \<Rightarrow> PokerCard \<Rightarrow> PokerCard list" where
  "erase_found [] c = []"
| "erase_found (x # xs) c = (if x = c then xs else x # erase_found xs c)"

definition remove_cards :: "CardGroup \<Rightarrow> PokerCard list \<Rightarrow> PokerCard list" where
  "remove_cards one_group all_cards = foldl erase_found all_cards (m_cards one_group)"

text \<open>
  \<^verbatim>\<open>remove_card_group\<close>: the cards are copied into an array of 14; a card that is found there is
  overwritten with the blank card. \<open>is_in_cards\<close> is the inner loop.
\<close>

fun blank_found :: "PokerCard list \<Rightarrow> PokerCard \<Rightarrow> PokerCard list option" where
  "blank_found [] c = None"
| "blank_found (x # xs) c =
     (if x = c then Some (default_card # xs) else map_option ((#) x) (blank_found xs c))"

fun is_in_cards :: "PokerCard list \<Rightarrow> PokerCard list \<Rightarrow> bool" where
  "is_in_cards arr_card [] = True"
| "is_in_cards arr_card (c # cs) =
     (case blank_found arr_card c of None \<Rightarrow> False | Some arr_card \<Rightarrow> is_in_cards arr_card cs)"

definition remove_card_group :: "PokerCard list \<Rightarrow> CardGroup list \<Rightarrow> CardGroup list option" where
  "remove_card_group all_cards card_group =
     concat_opt (\<lambda>g.
       if length all_cards > MAX_CARD_COUNT then None
       else let arr_card = all_cards @ replicate (MAX_CARD_COUNT - length all_cards) default_card
         in Some (if is_in_cards arr_card (m_cards g) then [g] else [])) card_group"

section \<open>Straights\<close>

fun fill_gaps :: "PokerCard \<Rightarrow> int \<Rightarrow> PokerCard list \<Rightarrow> int" where
  "fill_gaps it_last fill_num [] = fill_num"
| "fill_gaps it_last fill_num (it # cs) =
     fill_gaps it
       (if m_point it_last = PA then fill_num + (pt it - 1 - 1)
        else fill_num + (pt it - pt it_last - 1)) cs"

text \<open>The least and the greatest number of jokers that make the cards a straight; \<open>(0, 0)\<close> for none.\<close>

fun to_straight_fill_joker_num :: "Combination \<Rightarrow> PokerCard list \<Rightarrow> (int \<times> int) option" where
  "to_straight_fill_joker_num self [] = None"
| "to_straight_fill_joker_num self (c # cs) =
     (let fill_num = fill_gaps c 0 cs;
          joker_card_num = int (length (m_joker_cards self));
          total_num = int (length (c # cs)) + fill_num;
          fill_num = (if total_num < 3 then fill_num + (3 - total_num) else fill_num);
          fill_num = (if fill_num = 0 then 1 else fill_num)
      in if fill_num > joker_card_num then Some (0, 0)
         else Some (fill_num, fill_num + (joker_card_num - fill_num)))"

definition combine_with_joker_card :: "Combination \<Rightarrow> PokerCard list \<Rightarrow> CardGroup list option" where
  "combine_with_joker_card self all_cards = do {
     (min_fill_num, max_fill_num) \<leftarrow> to_straight_fill_joker_num self all_cards;
     Some (if min_fill_num = 0 then []
       else concat (map (\<lambda>i. concat (map (\<lambda>joker.
              if int (length joker) \<noteq> i then []
              else [straight_group (sort (all_cards @ joker))]) (m_joker_combines self)))
            [min_fill_num..max_fill_num]))
   }"

text \<open>The body of the loop of \<^verbatim>\<open>search_straight_flush_select_n\<close>, for one choice of cards.\<close>

definition straights_of_choice :: "Combination \<Rightarrow> PokerCard list \<Rightarrow> CardGroup list option" where
  "straights_of_choice self hand = do {
     let pure = (if is_cards_pure_straight hand then [straight_group hand] else []);
     high \<leftarrow> combine_with_joker_card self hand;
     low \<leftarrow> (if length hand > 1 \<and> m_point (last hand) = PA
             then combine_with_joker_card self (last hand # butlast hand) else Some []);
     Some (pure @ high @ low)
   }"

definition search_straight_flush_select_n :: "Combination \<Rightarrow> PokerCard list \<Rightarrow> nat \<Rightarrow> CardGroup list option" where
  "search_straight_flush_select_n self all_cards select_n =
     (if \<not> (select_n \<ge> 1 \<and> select_n \<le> 14) then None
      else if length all_cards < select_n then Some []
      else concat_opt (straights_of_choice self) (select_card_combine all_cards select_n))"

definition repeat_straights :: "PokerCard list \<Rightarrow> nat \<Rightarrow> CardGroup list" where
  "repeat_straights reteat_card i =
     map straight_group (filter is_cards_pure_straight (select_card_combine reteat_card i))"

definition search_straight_flush_i :: "Combination \<Rightarrow> PokerCard list \<Rightarrow> PokerCard list \<Rightarrow> CardGroup list option" where
  "search_straight_flush_i self flush_cards reteat_card = do {
     first \<leftarrow> concat_opt (search_straight_flush_select_n self flush_cards)
               [1..<length flush_cards + length (m_joker_cards self) + 1];
     Some (first @ concat (map (repeat_straights reteat_card) [1..<length reteat_card + 1]))
   }"

text \<open>
  The loop of \<^verbatim>\<open>search_straight_flush\<close> over the sorted cards of one colour: the first card of each
  point goes to \<^verbatim>\<open>pop_cards\<close>, the further ones to \<^verbatim>\<open>pop_repeat_cards\<close>, jokers to neither.
\<close>

fun split_repeats :: "int \<Rightarrow> PokerCard list \<Rightarrow> PokerCard list \<Rightarrow> PokerCard list \<Rightarrow> PokerCard list \<times> PokerCard list" where
  "split_repeats jp pop rep [] = (pop, rep)"
| "split_repeats jp pop rep (it # cs) =
     (if is_joker jp it then split_repeats jp pop rep cs
      else if pop = [] then split_repeats jp (pop @ [it]) rep cs
      else if m_point (last pop) = m_point it then split_repeats jp pop (rep @ [it]) cs
      else split_repeats jp (pop @ [it]) rep cs)"

text \<open>\<^verbatim>\<open>std::map<TY_UINT8, std::vector<PokerCard> >\<close> keeps its keys in ascending order.\<close>

definition flush_colors :: "PokerCard list \<Rightarrow> u8 list" where
  "flush_colors all_cards = sort (remdups (map m_color all_cards))"

definition flush_cards :: "PokerCard list \<Rightarrow> u8 \<Rightarrow> PokerCard list" where
  "flush_cards all_cards col = filter (\<lambda>c. m_color c = col) all_cards"

definition search_straight_flush :: "Combination \<Rightarrow> PokerCard list \<Rightarrow> CardGroup list option" where
  "search_straight_flush self all_cards = do {
     colored \<leftarrow> concat_opt (\<lambda>col.
         case split_repeats (m_joker_point self) [] [] (sort (flush_cards all_cards col)) of
           (pop_cards, pop_repeat_cards) \<Rightarrow> search_straight_flush_i self pop_cards pop_repeat_cards)
       (flush_colors all_cards);
     Some (colored @ map straight_group (filter (\<lambda>j. \<not> length j < 3) (m_joker_combines self)))
   }"

definition search_pure_straight_flush :: "CardGroup list \<Rightarrow> CardGroup list" where
  "search_pure_straight_flush card_group = filter (\<lambda>g. is_cards_pure_straight (m_cards g)) card_group"

section \<open>Three of a kind\<close>

definition kinds_of_choice :: "Combination \<Rightarrow> PokerCard list \<Rightarrow> CardGroup list" where
  "kinds_of_choice self hand =
     (if length hand > 2 then [three_kind_group hand] else []) @
     map (\<lambda>joker. three_kind_group (hand @ joker)) (m_joker_combines self)"

definition search_three_of_kind_select_n :: "Combination \<Rightarrow> PokerCard list \<Rightarrow> nat \<Rightarrow> CardGroup list option" where
  "search_three_of_kind_select_n self all_cards select_n =
     (if \<not> (select_n \<ge> 2 \<and> select_n \<le> 4) then None
      else if length all_cards < select_n then Some []
      else Some (concat (map (kinds_of_choice self) (select_card_combine all_cards select_n))))"

definition search_three_of_kind_i :: "Combination \<Rightarrow> PokerCard list \<Rightarrow> PokerCard list \<Rightarrow> CardGroup list option" where
  "search_three_of_kind_i self all_cards reteat_card = do {
     first \<leftarrow> concat_opt (search_three_of_kind_select_n self all_cards) [2..<5];
     Some (first @ concat (map (\<lambda>i. map three_kind_group (select_card_combine reteat_card i)) [3..<5]))
   }"

text \<open>The loop over the sorted cards: \<^verbatim>\<open>pop_cards\<close> collects one rank.\<close>

fun three_of_kind_loop :: "Combination \<Rightarrow> PokerCard list \<Rightarrow> PokerCard list \<Rightarrow> PokerCard list \<Rightarrow> CardGroup list option" where
  "three_of_kind_loop self pop rep [] =
     (if length pop \<ge> 2 then search_three_of_kind_i self pop rep else Some [])"
| "three_of_kind_loop self pop rep (c # left) =
     (if (pop = [] \<or> m_point (hd pop) = m_point c) \<and> \<not> is_joker (m_joker_point self) c then
        if is_card_in_group c pop then three_of_kind_loop self pop (rep @ [c]) left
        else three_of_kind_loop self (pop @ [c]) rep left
      else do {
        found \<leftarrow> (if length pop \<ge> 2 then search_three_of_kind_i self pop rep else Some []);
        rest \<leftarrow> three_of_kind_loop self [c] [] left;
        Some (found @ rest)
      })"

definition search_three_of_kind :: "Combination \<Rightarrow> PokerCard list \<Rightarrow> CardGroup list option" where
  "search_three_of_kind self all_cards = three_of_kind_loop self [] [] (sort all_cards)"

section \<open>Removing cards\<close>

lemma erase_found_remove1 [simp]: "erase_found xs c = remove1 c xs"
  by (induction xs) auto

lemma erase_found_fun: "erase_found = (\<lambda>xs c. remove1 c xs)"
  by (intro ext) simp

lemma remove_cards_foldl: "remove_cards g xs = foldl (\<lambda>xs c. remove1 c xs) xs (m_cards g)"
  by (simp add: remove_cards_def erase_found_fun)

lemma mset_remove_cards [sf_mset]: "mset (remove_cards g xs) = mset xs - mset (m_cards g)"
  by (simp add: remove_cards_foldl mset_foldl_remove1)

lemma filter_remove_cards: "filter P (remove_cards g xs) = remove_cards g (filter P xs)"
  by (simp add: remove_cards_foldl filter_foldl_remove1)

lemma mset_remove_cards_add:
  "mset (m_cards g) \<subseteq># mset xs \<Longrightarrow> mset (m_cards g) + mset (remove_cards g xs) = mset xs"
  by (simp add: mset_remove_cards)

lemma length_remove_cards:
  "mset (m_cards g) \<subseteq># mset xs \<Longrightarrow> length (m_cards g) + length (remove_cards g xs) = length xs"
  using mset_remove_cards_add [of g xs] by (metis size_mset size_union)

lemma blank_found_None: "blank_found xs c = None \<longleftrightarrow> c \<notin> set xs"
  by (induction xs) auto

lemma blank_found_Some:
  "blank_found xs c = Some ys \<Longrightarrow> mset ys = add_mset default_card (mset xs - {#c#}) \<and> c \<in> set xs"
  by (induction xs arbitrary: ys) (auto split: if_splits simp: add_mset_commute)

lemma subset_blanks:
  assumes "b \<notin># M"
  shows "M \<subseteq># N + replicate_mset k b \<longleftrightarrow> M \<subseteq># N"
proof
  assume sub: "M \<subseteq># N + replicate_mset k b"
  show "M \<subseteq># N"
  proof (rule mset_subset_eqI)
    fix a
    show "count M a \<le> count N a"
      using mset_subset_eq_count [OF sub, of a] assms by (cases "a = b") (auto simp: not_in_iff)
  qed
next
  assume "M \<subseteq># N"
  then show "M \<subseteq># N + replicate_mset k b" by (rule subset_mset.order_trans) simp
qed

text \<open>
  The copy into the array and the blanking decide inclusion of multisets, as long as the blank
  card is neither in the hand nor in the group.
\<close>

lemma is_in_cards_iff:
  "default_card \<notin> set cs \<Longrightarrow> is_in_cards arr cs \<longleftrightarrow> mset cs \<subseteq># mset arr"
proof (induction cs arbitrary: arr)
  case Nil
  then show ?case by simp
next
  case (Cons c cs)
  then have d: "c \<noteq> default_card" "default_card \<notin># mset cs" by auto
  show ?case
  proof (cases "blank_found arr c")
    case None
    then have "c \<notin># mset arr" by (simp add: blank_found_None)
    with None show ?thesis by (auto dest: mset_subset_eqD)
  next
    case (Some arr')
    note b = blank_found_Some [OF Some]
    have "mset cs \<subseteq># add_mset default_card (mset arr - {#c#}) \<longleftrightarrow> mset cs \<subseteq># mset arr - {#c#}"
      using subset_blanks [OF d(2), of "mset arr - {#c#}" 1] by simp
    moreover from b have "mset arr = add_mset c (mset arr - {#c#})" by simp
    then have "mset (c # cs) \<subseteq># mset arr \<longleftrightarrow> mset cs \<subseteq># mset arr - {#c#}"
      by (metis mset.simps(2) mset_subset_eq_add_mset_cancel)
    ultimately show ?thesis using Some b Cons.IH [of arr'] d(2) by simp
  qed
qed

lemma remove_card_group_eq:
  assumes "length all_cards \<le> MAX_CARD_COUNT" and "default_card \<notin> set all_cards"
    and "\<forall>g\<in>set gs. default_card \<notin> set (m_cards g)"
  shows "remove_card_group all_cards gs = Some (filter (\<lambda>g. mset (m_cards g) \<subseteq># mset all_cards) gs)"
proof -
  have "concat_opt (\<lambda>g. if length all_cards > MAX_CARD_COUNT then None
       else let arr_card = all_cards @ replicate (MAX_CARD_COUNT - length all_cards) default_card
         in Some (if is_in_cards arr_card (m_cards g) then [g] else [])) gs =
     Some (concat (map (\<lambda>g. if mset (m_cards g) \<subseteq># mset all_cards then [g] else []) gs))"
    using assms by (intro concat_opt_total) (simp add: is_in_cards_iff subset_blanks)
  also have "concat (map (\<lambda>g. if mset (m_cards g) \<subseteq># mset all_cards then [g] else []) gs) =
      filter (\<lambda>g. mset (m_cards g) \<subseteq># mset all_cards) gs"
    by (induction gs) simp_all
  finally show ?thesis by (simp add: remove_card_group_def)
qed

section \<open>The object during a search\<close>

text \<open>
  While a set of cards is searched, the object holds the jokers among them and all their
  combinations.
\<close>

definition search_ok :: "Combination \<Rightarrow> PokerCard list \<Rightarrow> bool" where
  "search_ok self H \<longleftrightarrow>
     m_joker_cards self = search_joker_cards (m_joker_point self) H \<and>
     m_joker_combines self =
       caculate_all_cards_combines (m_joker_cards self) 1 (length (m_joker_cards self))"

lemma set_select: "set (select_card_combine cs n) = {ys. subseq ys cs \<and> length ys = n}"
  by (simp add: select_card_combine_def choices.set_choose)

lemma set_all_combines:
  "set (caculate_all_cards_combines cs 1 (length cs)) = {ys. subseq ys cs \<and> ys \<noteq> []}"
proof -
  have "set (caculate_all_cards_combines cs 1 (length cs)) =
      (\<Union>n\<in>{1..<length cs + 1}. {ys. subseq ys cs \<and> length ys = n})"
    by (auto simp only: caculate_all_cards_combines_def set_concat set_map set_upt set_select)
  also have "\<dots> = {ys. subseq ys cs \<and> ys \<noteq> []}"
    by (auto simp: Suc_le_eq less_Suc_eq_le dest: list_emb_length)
  finally show ?thesis .
qed

lemma search_ok_joker:
  assumes "search_ok self H" and "j \<in> set (m_joker_combines self)"
  shows "subseq j (search_joker_cards (m_joker_point self) H)" and "j \<noteq> []"
  using assms by (auto simp: search_ok_def set_all_combines [unfolded One_nat_def])

lemma joker_mset_le:
  "search_ok self H \<Longrightarrow> j \<in> set (m_joker_combines self) \<Longrightarrow>
   mset j \<subseteq># filter_mset (is_joker (m_joker_point self)) (mset H)"
  using search_ok_joker(1) [of self H j] by (auto simp: search_joker_cards_def dest!: subseq_mset)

lemma joker_all:
  "search_ok self H \<Longrightarrow> j \<in> set (m_joker_combines self) \<Longrightarrow> c \<in> set j \<Longrightarrow> is_joker (m_joker_point self) c"
  by (drule (1) joker_mset_le) (auto dest: mset_subset_eqD)

lemma natural_joker_mset:
  assumes "mset ns \<subseteq># filter_mset (\<lambda>c. \<not> is_joker jp c) (mset H)"
    and "mset js \<subseteq># filter_mset (is_joker jp) (mset H)"
  shows "mset (ns @ js) \<subseteq># mset H"
proof -
  have "mset (ns @ js) \<subseteq># filter_mset (\<lambda>c. \<not> is_joker jp c) (mset H) + filter_mset (is_joker jp) (mset H)"
    using subset_mset.add_mono [OF assms] by simp
  also have "\<dots> = mset H" by (metis multiset_partition union_commute)
  finally show ?thesis .
qed

lemma naturals_append_jokers:
  assumes "\<forall>c\<in>set ns. \<not> is_joker jp c" and "\<forall>c\<in>set js. is_joker jp c"
  shows "naturals jp (ns @ js) = ns"
  using assms by (simp add: naturals_def filter_id_conv)

lemma naturals_sort: "naturals jp (sort cs) = sort (naturals jp cs)"
  unfolding naturals_def using filter_sort [of "\<lambda>c. \<not> is_joker jp c" "\<lambda>c. c" cs] by simp

section \<open>The straights found are straights\<close>

definition straight_ok :: "int \<Rightarrow> CardGroup \<Rightarrow> bool" where
  "straight_ok jp g \<longleftrightarrow> m_type g = GROUP_STAIGHT \<and> is_cards_straight jp (sort (m_cards g))"

lemma straight_ok_length: "straight_ok jp g \<Longrightarrow> 3 \<le> length (m_cards g)"
  by (simp add: straight_ok_def straight_sorted)

text \<open>Cards of one colour with ascending points, none of them a joker or below 2.\<close>

definition suit_run :: "int \<Rightarrow> PokerCard list \<Rightarrow> bool" where
  "suit_run jp cs \<longleftrightarrow> ascending cs \<and> one_color cs \<and> (\<forall>c\<in>set cs. \<not> is_joker jp c \<and> 2 \<le> pt c)"

lemma suit_run_points: "suit_run jp cs \<Longrightarrow> c \<in> set cs \<Longrightarrow> 2 \<le> pt c \<and> pt c \<le> 14 \<and> pt c \<noteq> jp"
  by (force simp: suit_run_def is_joker_iff)

lemma ascending_sorted: "ascending cs \<Longrightarrow> sorted cs"
  unfolding ascending_def
  by (erule sorted_wrt_mono_rel [rotated]) (auto simp: pt_less_iff less_eq_PokerCard_ext_def less_PokerCard_ext_def)

lemma ascending_distinct: "ascending cs \<Longrightarrow> distinct (map pt cs)"
  by (induction cs) (auto simp: ascending_def)

lemma suit_run_naturals: "suit_run jp cs \<Longrightarrow> naturals jp cs = cs"
  by (simp add: suit_run_def naturals_def filter_id_conv)

lemma suit_run_subseq:
  assumes "suit_run jp cs" and "subseq ds cs"
  shows "suit_run jp ds"
proof -
  from assms(2) have sub: "set ds \<subseteq> set cs" by (rule subseq_set)
  have "ascending ds" using assms unfolding suit_run_def ascending_def
    using subseq_sorted_wrt by blast
  moreover have "one_color ds"
    using assms(1) sub unfolding suit_run_def one_color_def by (metis hd_in_set in_mono length_greater_0_conv length_pos_if_in_set)
  ultimately show ?thesis using assms(1) sub by (auto simp: suit_run_def)
qed

lemma pure_run_straight:
  assumes "suit_run jp cs" and "is_cards_pure_straight cs"
  shows "straight_ok jp (straight_group cs)"
proof -
  have asc: "ascending cs" "one_color cs" "\<forall>c\<in>set cs. pt c < 15"
    using assms(1) suit_run_points by (fastforce simp: suit_run_def)+
  with assms(2) have p: "3 \<le> length cs"
    "map pt cs = [pt (hd cs)..pt (hd cs) + int (length cs) - 1] \<or> map pt cs = [2..int (length cs)] @ [14]"
    by (simp_all add: pure_straight_natural)
  from p(2) have "fits_straight pt cs (length cs) \<or> fits_straight low_pt cs (length cs)"
  proof
    assume "map pt cs = [pt (hd cs)..pt (hd cs) + int (length cs) - 1]"
    then have "within_window (map pt cs) (length cs)" by (auto simp: within_window_def)
    with ascending_distinct [OF asc(1)] show ?thesis by (simp add: fits_straight_def)
  next
    assume m: "map pt cs = [2..int (length cs)] @ [14]"
    have "map low_pt cs = map (\<lambda>p. if p = 14 then 1 else p) (map pt cs)" by (simp add: low_pt_def)
    also have "\<dots> = [2..int (length cs)] @ [1]"
      using ascending_distinct [OF asc(1)] unfolding m by (auto intro!: map_idI)
    finally have "map low_pt cs = [2..int (length cs)] @ [1]" .
    then have "fits_straight low_pt cs (length cs)"
      by (auto simp: fits_straight_def within_window_def)
    then show ?thesis ..
  qed
  with asc p(1) suit_run_naturals [OF assms(1)] ascending_sorted [OF asc(1)] ascending_distinct [OF asc(1)]
  show ?thesis by (simp add: straight_ok_def straight_group_def straight_sorted sort_key_id_if_sorted)
qed

lemma gaps_Cons2: "gaps (c # d # cs) = pt d - pt c - 1 + gaps (d # cs)"
  by (simp add: gaps_def)

lemma fill_gaps_high:
  "ascending (c # cs) \<Longrightarrow> \<forall>d\<in>set cs. pt d \<le> 14 \<Longrightarrow> fill_gaps c n cs = n + gaps (c # cs)"
proof (induction cs arbitrary: c n)
  case Nil
  then show ?case by (simp add: gaps_def)
next
  case (Cons d cs)
  then have "pt c < pt d" "pt d \<le> 14" "ascending (d # cs)" by (auto simp: ascending_def)
  with Cons show ?case by (simp add: gaps_Cons2)
qed

lemma fill_gaps_low:
  assumes "pt a = 14" and "ascending cs" and "\<forall>c\<in>set cs. pt c < 14" and "cs \<noteq> []"
  shows "fill_gaps a n cs = n + gaps (ace_to_one a # cs)"
proof -
  obtain d ds where cs: "cs = d # ds" using assms(4) by (cases cs) auto
  from assms(1) have one: "pt (ace_to_one a) = 1" by (simp add: pt_ace_to_one low_pt_def)
  have "fill_gaps d (n + (pt d - 1 - 1)) ds = n + (pt d - 1 - 1) + gaps (d # ds)"
    using assms(2,3) unfolding cs by (intro fill_gaps_high) auto
  then show ?thesis using assms(1) one by (simp add: cs gaps_Cons2)
qed

lemma combine_with_joker_card_total: "cs \<noteq> [] \<Longrightarrow> combine_with_joker_card self cs \<noteq> None"
  by (cases cs) (auto simp: combine_with_joker_card_def Let_def split: bind_splits if_splits)

lemma combine_with_joker_card_found:
  assumes "combine_with_joker_card self (c # cs) = Some gs" and "g \<in> set gs"
  obtains j where "j \<in> set (m_joker_combines self)" and "g = straight_group (sort ((c # cs) @ j))"
    and "fill_gaps c 0 cs \<le> int (length j)" and "3 \<le> length (c # cs) + length j"
proof -
  let ?f = "fill_gaps c 0 cs" and ?n = "int (length (c # cs))"
  obtain lo hi where b: "to_straight_fill_joker_num self (c # cs) = Some (lo, hi)"
    using assms(1) by (auto simp: combine_with_joker_card_def split: bind_splits)
  with assms obtain i j where j: "lo \<le> i" "j \<in> set (m_joker_combines self)" "int (length j) = i"
    "g = straight_group (sort ((c # cs) @ j))" "lo \<noteq> 0"
    by (auto simp: combine_with_joker_card_def split: if_splits)
  with b have "?f \<le> lo" "3 \<le> ?n + lo"
    by (auto simp: Let_def split: if_splits)
  with j show ?thesis by (intro that [of j]) auto
qed

text \<open>Natural cards with enough jokers, the ace high or the ace low, make a straight.\<close>

lemma joker_straight_ok:
  assumes "suit_run jp ns" and "\<forall>c\<in>set js. is_joker jp c" and "3 \<le> length ns + length js"
    and "fits_straight pt ns (length ns + length js) \<or> fits_straight low_pt ns (length ns + length js)"
  shows "straight_ok jp (straight_group (sort (ns @ js)))"
proof -
  from assms(1) have ns: "ascending ns" "one_color ns" "\<forall>c\<in>set ns. \<not> is_joker jp c"
    by (auto simp: suit_run_def)
  have "naturals jp (sort (ns @ js)) = ns"
    using ns(3) assms(2) ascending_sorted [OF ns(1)]
    by (simp add: naturals_sort naturals_append_jokers sort_key_id_if_sorted)
  with ns(1,2) assms(3,4) ascending_distinct [OF ns(1)] show ?thesis
    by (simp add: straight_ok_def straight_group_def straight_sorted sort_key_id_if_sorted)
qed

lemma fits_high:
  assumes "suit_run jp ns" and "ns \<noteq> []" and "gaps ns \<le> int k"
  shows "fits_straight pt ns (length ns + k)"
  using assms gaps_window [OF ascending_sorted assms(2) refl, of k] ascending_distinct [of ns]
  by (simp add: fits_straight_def suit_run_def)

lemma fits_low:
  assumes "suit_run jp (xs @ [a])" and "pt a = 14"
  shows "fits_straight low_pt (xs @ [a]) (Suc (length xs) + k) \<longleftrightarrow> gaps (ace_to_one a # xs) \<le> int k"
proof -
  have asc: "ascending xs" and lt: "\<forall>x\<in>set xs. pt x < 14" and ge: "\<forall>x\<in>set xs. 2 \<le> pt x"
    using assms(1,2) by (auto simp: suit_run_def ascending_def sorted_wrt_append)
  have one: "pt (ace_to_one a) = 1" using assms(2) by (simp add: pt_ace_to_one low_pt_def)
  have low: "map low_pt xs = map pt xs" using lt by (auto simp: low_pt_def)
  have "ascending (ace_to_one a # xs)" using asc ge one by (auto simp: ascending_def)
  then have "gaps (ace_to_one a # xs) \<le> int k \<longleftrightarrow>
      within_window (map pt (ace_to_one a # xs)) (Suc (length xs) + k)"
    by (intro gaps_window ascending_sorted) simp_all
  also have "\<dots> \<longleftrightarrow> within_window (map low_pt (xs @ [a])) (Suc (length xs) + k)"
  proof (rule within_window_mset)
    show "set (map pt (ace_to_one a # xs)) = set (map low_pt (xs @ [a]))"
      unfolding list.map map_append low one using assms(2) by (simp add: low_pt_def)
  qed
  finally have "gaps (ace_to_one a # xs) \<le> int k \<longleftrightarrow>
      within_window (map low_pt (xs @ [a])) (Suc (length xs) + k)" .
  moreover have "distinct (map low_pt (xs @ [a]))"
    unfolding map_append list.map low using ascending_distinct [OF asc] ge assms(2)
    by (auto simp: low_pt_def)
  ultimately show ?thesis by (simp add: fits_straight_def)
qed

text \<open>A group as the searches promise it: legal, and made of cards of the hand.\<close>

definition straight_in :: "int \<Rightarrow> PokerCard list \<Rightarrow> CardGroup \<Rightarrow> bool" where
  "straight_in jp H g \<longleftrightarrow> straight_ok jp g \<and> mset (m_cards g) \<subseteq># mset H \<and>
     (sorted (m_cards g) \<or> (\<forall>c\<in>set (m_cards g). is_joker jp c))"

definition naturals_of :: "int \<Rightarrow> PokerCard list \<Rightarrow> PokerCard multiset" where
  "naturals_of jp H = filter_mset (\<lambda>c. \<not> is_joker jp c) (mset H)"

lemma naturals_of_le: "M \<subseteq># naturals_of jp H \<Longrightarrow> M \<subseteq># mset H"
  unfolding naturals_of_def by (rule subset_mset.order_trans [OF _ multiset_filter_subset])

lemma joker_straight_in:
  assumes ok: "search_ok self H" "m_joker_point self = jp"
    and run: "suit_run jp ns" "mset ns \<subseteq># naturals_of jp H"
    and j: "j \<in> set (m_joker_combines self)" "3 \<le> length ns + length j"
    and fits: "fits_straight pt ns (length ns + length j) \<or> fits_straight low_pt ns (length ns + length j)"
  shows "straight_in jp H (straight_group (sort (ns @ j)))"
proof -
  have "\<forall>c\<in>set j. is_joker jp c" using joker_all [OF ok(1) j(1)] ok(2) by simp
  with run(1) j(2) fits have "straight_ok jp (straight_group (sort (ns @ j)))"
    by (intro joker_straight_ok)
  moreover have "mset (ns @ j) \<subseteq># mset H"
    using run(2) joker_mset_le [OF ok(1) j(1)] ok(2) unfolding naturals_of_def
    by (intro natural_joker_mset) simp_all
  ultimately show ?thesis by (simp add: straight_in_def straight_group_def)
qed

lemma straights_of_choice_ok:
  assumes ok: "search_ok self H" "m_joker_point self = jp"
    and run: "suit_run jp ns" "mset ns \<subseteq># naturals_of jp H" and ne: "ns \<noteq> []"
  shows "\<exists>gs. straights_of_choice self ns = Some gs \<and> (\<forall>g\<in>set gs. straight_in jp H g)"
proof -
  obtain c cs where cs: "ns = c # cs" using ne by (cases ns) auto
  obtain high where high: "combine_with_joker_card self ns = Some high"
    using combine_with_joker_card_total [OF ne] by blast
  have high_ok: "straight_in jp H g" if g: "g \<in> set high" for g
  proof -
    from combine_with_joker_card_found [of self c cs high g] high g cs obtain j where
      j: "j \<in> set (m_joker_combines self)" "g = straight_group (sort (ns @ j))"
        "fill_gaps c 0 cs \<le> int (length j)" "3 \<le> length ns + length j" by auto
    have "fill_gaps c 0 cs = gaps ns"
      using run(1) suit_run_points [OF run(1)] unfolding cs
      by (subst fill_gaps_high) (auto simp: suit_run_def)
    with j(3) have "fits_straight pt ns (length ns + length j)" by (intro fits_high [OF run(1) ne]) simp
    with joker_straight_in [OF ok run j(1,4)] j(2) show ?thesis by blast
  qed
  have pure_ok: "straight_in jp H (straight_group ns)" if "is_cards_pure_straight ns"
    using pure_run_straight [OF run(1) that] naturals_of_le [OF run(2)] run(1) ascending_sorted
    by (simp add: straight_in_def straight_group_def suit_run_def)
  show ?thesis
  proof (cases "length ns > 1 \<and> m_point (last ns) = PA")
    case False
    then have "straights_of_choice self ns =
        Some ((if is_cards_pure_straight ns then [straight_group ns] else []) @ high)"
      unfolding straights_of_choice_def using high by auto
    with high_ok pure_ok show ?thesis by auto
  next
    case True
    define xs a where "xs = butlast ns" and "a = last ns"
    have "xs \<noteq> []" using True unfolding xs_def by (auto simp flip: length_greater_0_conv)
    with ne True have xs: "ns = xs @ [a]" "xs \<noteq> []" "pt a = 14" by (auto simp: xs_def a_def)
    obtain low where low: "combine_with_joker_card self (a # xs) = Some low"
      using combine_with_joker_card_total [of "a # xs" self] by blast
    have "straight_in jp H g" if g: "g \<in> set low" for g
    proof -
      from combine_with_joker_card_found [OF low g] obtain j where
        j: "j \<in> set (m_joker_combines self)" "g = straight_group (sort ((a # xs) @ j))"
          "fill_gaps a 0 xs \<le> int (length j)" "3 \<le> length (a # xs) + length j" by blast
      have asc: "ascending xs" "\<forall>x\<in>set xs. pt x < 14"
        using run(1) xs by (auto simp: suit_run_def ascending_def sorted_wrt_append)
      have "gaps (ace_to_one a # xs) \<le> int (length j)"
        using j(3) fill_gaps_low [OF xs(3) asc xs(2), of 0] by simp
      then have "fits_straight low_pt ns (length ns + length j)"
        using fits_low [of jp xs a "length j"] run(1) xs by simp
      moreover have "sort ((a # xs) @ j) = sort (ns @ j)"
        by (rule properties_for_sort) (simp_all add: xs(1))
      ultimately show ?thesis using joker_straight_in [OF ok run j(1)] j(2,4) xs(1) by simp
    qed
    moreover have "straights_of_choice self ns =
        Some ((if is_cards_pure_straight ns then [straight_group ns] else []) @ high @ low)"
      using True high low unfolding straights_of_choice_def xs_def a_def by auto
    ultimately show ?thesis using high_ok pure_ok by auto
  qed
qed

lemma concat_opt_all:
  assumes "\<And>x. x \<in> set xs \<Longrightarrow> \<exists>ys. f x = Some ys \<and> (\<forall>y\<in>set ys. P y)"
  shows "\<exists>zs. concat_opt f xs = Some zs \<and> (\<forall>z\<in>set zs. P z)"
  using assms
proof (induction xs)
  case (Cons x xs)
  then obtain ys zs where "f x = Some ys" "\<forall>y\<in>set ys. P y" "concat_opt f xs = Some zs" "\<forall>z\<in>set zs. P z"
    by (metis list.set_intros)
  then show ?case by auto
qed simp

lemma search_straight_flush_select_n_ok:
  assumes ok: "search_ok self H" "m_joker_point self = jp"
    and run: "suit_run jp cs" "mset cs \<subseteq># naturals_of jp H" and n: "1 \<le> n" "n \<le> 14"
  shows "\<exists>gs. search_straight_flush_select_n self cs n = Some gs \<and> (\<forall>g\<in>set gs. straight_in jp H g)"
proof -
  have "\<exists>gs. concat_opt (straights_of_choice self) (select_card_combine cs n) = Some gs \<and>
      (\<forall>g\<in>set gs. straight_in jp H g)"
  proof (rule concat_opt_all)
    fix ns assume "ns \<in> set (select_card_combine cs n)"
    then have ns: "subseq ns cs" "length ns = n" by (simp_all add: set_select)
    then have "suit_run jp ns" "mset ns \<subseteq># naturals_of jp H" "ns \<noteq> []"
      using suit_run_subseq [OF run(1)] subset_mset.order_trans [OF subseq_mset run(2)] n by auto
    then show "\<exists>gs. straights_of_choice self ns = Some gs \<and> (\<forall>g\<in>set gs. straight_in jp H g)"
      using straights_of_choice_ok [OF ok] by blast
  qed
  then show ?thesis using n by (auto simp: search_straight_flush_select_n_def)
qed

section \<open>Splitting a colour into first and repeated cards\<close>

text \<open>At most 14 cards, each a card of the game and none more often than twice: what is dealt.\<close>

definition legal_hand :: "PokerCard list \<Rightarrow> bool" where
  "legal_hand H \<longleftrightarrow> length H \<le> MAX_CARD_COUNT \<and> (\<forall>c. count (mset H) c \<le> (if in_pack c then 2 else 0))"

lemma legal_hand_card:
  assumes "legal_hand H" and "c \<in> set H"
  shows "in_pack c" and "2 \<le> pt c" and "c \<noteq> default_card"
proof -
  from assms(2) have "0 < count (mset H) c" by (simp add: count_greater_zero_iff)
  with assms(1) show p: "in_pack c" unfolding legal_hand_def by (metis leD)
  then have "2 \<le> m_point c"
    by (auto simp: in_pack_def is_valid_card_def simp del: point_ge_joker_iff split: if_splits
        elim: order_trans [rotated])
  then show "2 \<le> pt c" by (simp add: pt_def word_le_def)
  then show "c \<noteq> default_card" by (auto simp: pt_def default_card_def)
qed

lemma legal_hand_mono:
  assumes "legal_hand H" and "mset G \<subseteq># mset H"
  shows "legal_hand G"
  using assms length_le_of_mset [OF assms(2)] mset_subset_eq_count [OF assms(2)]
  unfolding legal_hand_def by (meson order_trans)

text \<open>A second copy of a card is the last: the repeated cards of a legal hand are distinct.\<close>

lemma legal_hand_rep_distinct:
  assumes "legal_hand H" and "set rep \<subseteq> set pop" and "mset pop + mset rep \<subseteq># mset H"
  shows "distinct rep"
proof (rule distinct_count_atmost_1 [THEN iffD2], rule allI)
  fix c
  have "count (mset pop) c + count (mset rep) c \<le> count (mset H) c"
    using mset_subset_eq_count [OF assms(3), of c] by simp
  also have "\<dots> \<le> (if in_pack c then 2 else 0)" using assms(1) unfolding legal_hand_def by blast
  also have "\<dots> \<le> 2" by simp
  finally have le: "count (mset pop) c + count (mset rep) c \<le> 2" .
  show "count (mset rep) c = (if c \<in> set rep then 1 else 0)"
  proof (cases "c \<in> set rep")
    case True
    with assms(2) have "c \<in># mset rep" "c \<in># mset pop" by auto
    then have "1 \<le> count (mset rep) c" "1 \<le> count (mset pop) c" by (simp_all only: count_greater_eq_one_iff)
    with le have "count (mset rep) c = 1" by linarith
    with True show ?thesis by simp
  qed (simp add: count_mset_0_iff)
qed

lemma split_repeats_mset:
  "split_repeats jp pop rep cs = (pop', rep') \<Longrightarrow>
   mset pop' + mset rep' = mset pop + mset rep + filter_mset (\<lambda>c. \<not> is_joker jp c) (mset cs)"
  by (induction cs arbitrary: pop rep) (auto split: if_splits)

definition split_inv :: "u8 \<Rightarrow> PokerCard list \<Rightarrow> PokerCard list \<Rightarrow> PokerCard list \<Rightarrow> bool" where
  "split_inv col pop rep cs \<longleftrightarrow>
     ascending pop \<and> sorted (rep @ cs) \<and> set rep \<subseteq> set pop \<and> (\<forall>c\<in>set (pop @ cs). m_color c = col) \<and>
     (\<forall>p\<in>set pop. \<forall>c\<in>set cs. p \<le> c)"

lemma split_repeats_inv:
  "split_inv col pop rep cs \<Longrightarrow> split_repeats jp pop rep cs = (pop', rep') \<Longrightarrow> split_inv col pop' rep' []"
proof (induction cs arbitrary: pop rep)
  case Nil
  then show ?case by simp
next
  case (Cons c cs)
  have srt: "sorted (rep @ cs)" "\<forall>d\<in>set cs. c \<le> d"
    using Cons.prems(1) by (auto simp: split_inv_def sorted_append)
  consider (joker) "is_joker jp c" | (first) "\<not> is_joker jp c" "pop = []"
    | (rep) "\<not> is_joker jp c" "pop \<noteq> []" "m_point (last pop) = m_point c"
    | (new) "\<not> is_joker jp c" "pop \<noteq> []" "m_point (last pop) \<noteq> m_point c" by blast
  then show ?case
  proof cases
    case joker
    have "split_inv col pop rep cs" using Cons.prems(1) by (simp add: split_inv_def sorted_append)
    then show ?thesis using Cons.IH Cons.prems(2) joker by simp
  next
    case first
    have "split_inv col [c] rep cs" using Cons.prems(1) first srt by (simp add: split_inv_def ascending_def)
    then show ?thesis using Cons.IH Cons.prems(2) first by simp
  next
    case rep
    then have "last pop \<in> set pop" by simp
    moreover have "m_color (last pop) = col" "m_color c = col"
      using Cons.prems(1) \<open>last pop \<in> set pop\<close> by (auto simp: split_inv_def)
    with rep(3) have "last pop = c" by simp
    ultimately have "c \<in> set pop" by simp
    with Cons.prems(1) srt have "split_inv col pop (rep @ [c]) cs" by (auto simp: split_inv_def sorted_append)
    then show ?thesis using Cons.IH Cons.prems(2) rep by simp
  next
    case new
    have le: "\<forall>p\<in>set pop. p \<le> last pop"
    proof
      fix p assume "p \<in> set pop"
      moreover have "sorted pop" using Cons.prems(1) by (auto simp: split_inv_def intro: ascending_sorted)
      moreover obtain i where "i < length pop" "pop ! i = p"
        using \<open>p \<in> set pop\<close> by (auto simp: in_set_conv_nth)
      ultimately show "p \<le> last pop" using new(2) sorted_nth_mono [of pop i "length pop - 1"]
        by (simp add: last_conv_nth)
    qed
    have "last pop \<le> c" using Cons.prems(1) new(2) by (auto simp: split_inv_def)
    with new(3) have "pt (last pop) < pt c"
      using card_le_point [of "last pop" c] by (auto simp: pt_less_iff order_le_less)
    with le have "\<forall>p\<in>set pop. pt p < pt c"
      by (meson card_le_point order_le_less_trans pt_le_iff)
    with Cons.prems(1) srt have "split_inv col (pop @ [c]) rep cs"
      by (auto simp: split_inv_def ascending_def sorted_wrt_append)
    then show ?thesis using Cons.IH Cons.prems(2) new by simp
  qed
qed

lemma sorted_distinct_ascending:
  assumes "sorted cs" and "distinct cs" and "\<forall>c\<in>set cs. m_color c = col"
  shows "ascending cs"
  using assms
proof (induction cs)
  case (Cons c cs)
  have "pt c < pt d" if "d \<in> set cs" for d
  proof -
    from that Cons.prems have "c \<le> d" "c \<noteq> d" "m_color c = m_color d" by auto
    then show ?thesis by (auto simp: less_eq_PokerCard_ext_def less_PokerCard_ext_def pt_less_iff split: if_splits)
  qed
  with Cons show ?case by (simp add: ascending_def)
qed (simp add: ascending_def)

lemma split_repeats_runs:
  assumes "legal_hand H" and "mset cs \<subseteq># mset H" and "\<forall>c\<in>set cs. m_color c = col"
    and split: "split_repeats jp [] [] (sort cs) = (pop, rep)"
  shows "suit_run jp pop" and "suit_run jp rep" and "mset pop + mset rep \<subseteq># naturals_of jp H"
    and "\<And>c. c \<in> set cs \<Longrightarrow> \<not> is_joker jp c \<Longrightarrow> c \<in> set pop"
proof -
  have sum: "mset pop + mset rep = filter_mset (\<lambda>c. \<not> is_joker jp c) (mset cs)"
    using split_repeats_mset [OF split] by simp
  then show "mset pop + mset rep \<subseteq># naturals_of jp H"
    using assms(2) by (simp add: naturals_of_def multiset_filter_mono)
  have "split_inv col [] [] (sort cs)" using assms(3) by (auto simp: split_inv_def ascending_def)
  from split_repeats_inv [OF this split] have inv: "ascending pop" "sorted rep" "set rep \<subseteq> set pop"
    "\<forall>c\<in>set pop. m_color c = col" by (auto simp: split_inv_def)
  show "c \<in> set pop" if "c \<in> set cs" "\<not> is_joker jp c" for c
  proof -
    from that have "c \<in># mset pop + mset rep" unfolding sum by simp
    with inv(3) show ?thesis by auto
  qed
  have el: "c \<in># mset pop + mset rep \<Longrightarrow> \<not> is_joker jp c \<and> 2 \<le> pt c" for c
    unfolding sum using assms(1,2) legal_hand_card(2) by (auto dest: mset_subset_eqD)
  show "suit_run jp pop"
    using inv el by (cases pop) (auto simp: suit_run_def one_color_def)
  have "mset pop + mset rep \<subseteq># mset H"
    using sum assms(2) by (metis multiset_filter_subset subset_mset.order_trans)
  then have "distinct rep" by (rule legal_hand_rep_distinct [OF assms(1) inv(3)])
  moreover have "\<forall>c\<in>set rep. m_color c = col" using inv(3,4) by blast
  ultimately have "ascending rep" using inv(2) sorted_distinct_ascending by blast
  with el \<open>\<forall>c\<in>set rep. m_color c = col\<close> show "suit_run jp rep"
    by (cases rep) (auto simp: suit_run_def one_color_def)
qed

section \<open>The search for straights\<close>

lemma search_straight_flush_i_ok:
  assumes ok: "search_ok self H" "m_joker_point self = jp" and len: "length H \<le> 14"
    and runs: "suit_run jp pop" "suit_run jp rep" "mset pop + mset rep \<subseteq># naturals_of jp H"
  shows "\<exists>gs. search_straight_flush_i self pop rep = Some gs \<and> (\<forall>g\<in>set gs. straight_in jp H g)"
proof -
  have pop: "mset pop \<subseteq># naturals_of jp H" and rep: "mset rep \<subseteq># naturals_of jp H"
    using runs(3) by (metis mset_subset_eq_add_left subset_mset.order_trans,
        metis mset_subset_eq_add_right subset_mset.order_trans)
  have "size (mset pop) \<le> size (naturals_of jp H)" using pop by (rule size_mset_mono)
  moreover have "size (naturals_of jp H) + length (m_joker_cards self) = length H"
    using ok sum_length_filter_compl [of "is_joker jp" H]
    by (simp add: naturals_of_def search_ok_def search_joker_cards_def flip: mset_filter)
  ultimately have 14: "length pop + length (m_joker_cards self) \<le> 14" using len by simp
  have "\<exists>first. concat_opt (search_straight_flush_select_n self pop)
      [1..<length pop + length (m_joker_cards self) + 1] = Some first \<and> (\<forall>g\<in>set first. straight_in jp H g)"
    by (rule concat_opt_all) (use 14 search_straight_flush_select_n_ok [OF ok runs(1) pop] in auto)
  then obtain first where first: "concat_opt (search_straight_flush_select_n self pop)
      [1..<length pop + length (m_joker_cards self) + 1] = Some first" "\<forall>g\<in>set first. straight_in jp H g"
    by blast
  have "straight_in jp H g" if g: "g \<in> set (repeat_straights rep i)" for g i
  proof -
    from g obtain ns where ns: "subseq ns rep" "is_cards_pure_straight ns" "g = straight_group ns"
      by (auto simp: repeat_straights_def set_select)
    have "mset ns \<subseteq># mset H"
      using subseq_mset [OF ns(1)] rep by (meson naturals_of_le subset_mset.order_trans)
    with pure_run_straight [OF suit_run_subseq [OF runs(2) ns(1)] ns(2)] ns(3)
      suit_run_subseq [OF runs(2) ns(1)] ascending_sorted show ?thesis
      by (simp add: straight_in_def straight_group_def suit_run_def)
  qed
  with first show ?thesis by (auto simp: search_straight_flush_i_def)
qed

lemma joker_group_straight:
  assumes "search_ok self H" "j \<in> set (m_joker_combines self)" "3 \<le> length j"
  shows "straight_in (m_joker_point self) H (straight_group j)"
proof -
  have "naturals (m_joker_point self) (sort j) = []"
    using joker_all [OF assms(1,2)] by (auto simp: naturals_def filter_empty_conv)
  moreover have "mset j \<subseteq># mset H"
    using joker_mset_le [OF assms(1,2)] multiset_filter_subset subset_mset.order_trans by blast
  ultimately show ?thesis using assms(3) joker_all [OF assms(1,2)]
    by (simp add: straight_in_def straight_ok_def straight_group_def straight_sorted one_color_def
        fits_straight_def within_window_def)
qed

lemma search_straight_flush_ok:
  assumes ok: "search_ok self H" "m_joker_point self = jp" and legal: "legal_hand H"
  shows "\<exists>gs. search_straight_flush self H = Some gs \<and> (\<forall>g\<in>set gs. straight_in jp H g)"
proof -
  have "\<exists>gs. concat_opt (\<lambda>col.
         case split_repeats (m_joker_point self) [] [] (sort (flush_cards H col)) of
           (pop_cards, pop_repeat_cards) \<Rightarrow> search_straight_flush_i self pop_cards pop_repeat_cards)
       (flush_colors H) = Some gs \<and> (\<forall>g\<in>set gs. straight_in jp H g)"
  proof (rule concat_opt_all)
    fix col
    obtain pop rep where split: "split_repeats jp [] [] (sort (flush_cards H col)) = (pop, rep)" by fastforce
    have "mset (flush_cards H col) \<subseteq># mset H" "\<forall>c\<in>set (flush_cards H col). m_color c = col"
      by (simp_all add: flush_cards_def)
    note runs = split_repeats_runs(1-3) [OF legal this split]
    have "length H \<le> 14" using legal by (simp add: legal_hand_def MAX_CARD_COUNT_def)
    with search_straight_flush_i_ok [OF ok _ runs] ok(2) split
    show "\<exists>gs. (case split_repeats (m_joker_point self) [] [] (sort (flush_cards H col)) of
        (pop_cards, pop_repeat_cards) \<Rightarrow> search_straight_flush_i self pop_cards pop_repeat_cards) = Some gs \<and>
        (\<forall>g\<in>set gs. straight_in jp H g)" by simp
  qed
  then obtain gs where "concat_opt (\<lambda>col.
         case split_repeats (m_joker_point self) [] [] (sort (flush_cards H col)) of
           (pop_cards, pop_repeat_cards) \<Rightarrow> search_straight_flush_i self pop_cards pop_repeat_cards)
       (flush_colors H) = Some gs" "\<forall>g\<in>set gs. straight_in jp H g" by blast
  with joker_group_straight [OF ok(1)] ok(2) show ?thesis
    by (auto simp: search_straight_flush_def not_less)
qed

section \<open>No straight is missed\<close>

lemma ascending_gaps_nonneg: "ascending (c # cs) \<Longrightarrow> 0 \<le> gaps (c # cs)"
proof (induction cs arbitrary: c)
  case Nil
  then show ?case by (simp add: gaps_def)
next
  case (Cons d cs)
  then have "pt c < pt d" "0 \<le> gaps (d # cs)" by (auto simp: ascending_def)
  then show ?case by (simp add: gaps_Cons2)
qed

lemma no_gaps_run:
  "ascending (c # cs) \<Longrightarrow> one_color (c # cs) \<Longrightarrow> \<forall>d\<in>set cs. pt d < 15 \<Longrightarrow> gaps (c # cs) \<le> 0 \<Longrightarrow>
   successively step_up (c # cs)"
proof (induction cs arbitrary: c)
  case Nil
  then show ?case by simp
next
  case (Cons d cs)
  then have d: "pt c < pt d" "ascending (d # cs)" "m_color c = m_color d" "one_color (d # cs)"
    by (auto simp: ascending_def one_color_Cons2)
  with ascending_gaps_nonneg [of d cs] Cons.prems(4) have "gaps (d # cs) \<le> 0" "pt d = pt c + 1"
    by (auto simp: gaps_Cons2)
  with Cons.IH [of d] d Cons.prems(3) show ?case by (simp add: step_up_def)
qed

lemma ace_ends_run_snoc:
  assumes "successively step_up xs" and "xs \<noteq> []" and "pt (last xs) < 15" and "pt (last xs) \<noteq> 13"
    and "m_color a = m_color (last xs)" and "pt a = 14" and "pt f = 2"
  shows "ace_ends_run f (xs @ [a])"
  using assms
proof (induction xs)
  case (Cons x xs)
  show ?case
  proof (cases xs)
    case Nil
    with Cons.prems show ?thesis by simp
  next
    case (Cons y ys)
    with Cons.IH Cons.prems show ?thesis by simp
  qed
qed simp

lemma fits_low_cases:
  assumes "suit_run jp ns" and "ns \<noteq> []" and "fits_straight low_pt ns (length ns + k)"
  obtains "gaps ns \<le> int k"
    | xs a where "ns = xs @ [a]" and "xs \<noteq> []" and "pt a = 14" and "gaps (ace_to_one a # xs) \<le> int k"
proof (cases "pt (last ns) = 14")
  case False
  have srt: "sorted ns" using assms(1) by (simp add: suit_run_def ascending_sorted)
  have "\<forall>c\<in>set ns. pt c < 15" using suit_run_points [OF assms(1)] by fastforce
  with False have "\<forall>c\<in>set ns. pt c \<noteq> 14" using sorted_last_ace [OF srt _ assms(2)] by blast
  then have "fits_straight pt ns (length ns + k)"
    using assms(3) no_ace_low [of ns] by (simp add: fits_straight_def)
  with gaps_window [OF srt assms(2) refl] that(1) show ?thesis by (simp add: fits_straight_def)
next
  case True
  define xs a where "xs = butlast ns" and "a = last ns"
  have ns: "ns = xs @ [a]" "pt a = 14" using assms(2) True by (simp_all add: xs_def a_def)
  show ?thesis
  proof (cases "xs = []")
    case True
    with ns that(1) show ?thesis by (simp add: gaps_def)
  next
    case False
    have "gaps (ace_to_one a # xs) \<le> int k"
      using fits_low [of jp xs a k] assms(1,3) ns by simp
    with ns False that(2) show ?thesis by blast
  qed
qed

lemma gapless_pure:
  assumes run: "suit_run jp ns" and len: "3 \<le> length ns"
    and fits: "fits_straight pt ns (length ns) \<or> fits_straight low_pt ns (length ns)"
  shows "is_cards_pure_straight ns"
proof -
  from len have ne: "ns \<noteq> []" by auto
  have pts: "\<forall>c\<in>set ns. pt c < 15" using suit_run_points [OF run] by fastforce
  have high: "is_cards_pure_straight ns" if "gaps ns \<le> 0"
  proof -
    from ne obtain c cs where "ns = c # cs" by (cases ns) auto
    then have "successively step_up ns"
      using no_gaps_run [of c cs] run pts that by (auto simp: suit_run_def)
    with len show ?thesis by (simp add: is_cards_pure_straight_iff)
  qed
  from fits show ?thesis
  proof
    assume "fits_straight pt ns (length ns)"
    then have "gaps ns \<le> int 0"
      using gaps_window [OF ascending_sorted ne, of 0 "length ns"] run by (simp add: fits_straight_def suit_run_def)
    with high show ?thesis by simp
  next
    assume "fits_straight low_pt ns (length ns)"
    then have "fits_straight low_pt ns (length ns + 0)" by simp
    from fits_low_cases [OF run ne this] show ?thesis
    proof cases
      case 1
      with high show ?thesis by simp
    next
      case (2 xs a)
      then obtain x ys where xs: "xs = x # ys" by (cases xs) auto
      have asc: "ascending xs" "one_color xs" "\<forall>x\<in>set xs. pt x < 14" "2 \<le> pt x" "m_color a = m_color (last xs)"
        using run 2 xs by (auto simp: suit_run_def ascending_def sorted_wrt_append one_color_def)
      have "gaps (ace_to_one a # xs) = pt x - 2 + gaps xs"
        using 2(3) by (simp add: xs gaps_Cons2 pt_ace_to_one low_pt_def)
      with 2(4) asc ascending_gaps_nonneg [of x ys] xs have g: "pt x = 2" "gaps xs \<le> 0" by auto
      with no_gaps_run [of x ys] asc xs have up: "successively step_up xs" by fastforce
      have "pt (last xs) < 14" using asc(3) 2(2) by simp
      have "successively step_up ns \<or> ace_ends_run x ns"
      proof (cases "pt (last xs) = 13")
        case True
        then have "step_up (last xs) a" using 2(3) asc(5) by (simp add: step_up_def)
        with up 2(1,2) show ?thesis by (simp add: successively_append_iff)
      next
        case False
        with ace_ends_run_snoc [OF up 2(2) _ False asc(5) 2(3) g(1)] \<open>pt (last xs) < 14\<close> 2(1) show ?thesis by simp
      qed
      moreover have "hd ns = x" using 2(1) xs by simp
      ultimately show ?thesis using len by (simp add: is_cards_pure_straight_iff)
    qed
  qed
qed

lemma combine_with_joker_card_finds:
  assumes "combine_with_joker_card self (c # cs) = Some gs" and "j \<in> set (m_joker_combines self)"
    and "fill_gaps c 0 cs \<le> int (length j)" and "3 \<le> length (c # cs) + length j" and "j \<noteq> []"
    and "length j \<le> length (m_joker_cards self)"
  shows "straight_group (sort ((c # cs) @ j)) \<in> set gs"
proof -
  obtain lo hi where b: "to_straight_fill_joker_num self (c # cs) = Some (lo, hi)"
    using assms(1) by (auto simp: combine_with_joker_card_def split: bind_splits)
  have "1 \<le> int (length j)" using assms(5) by (simp add: Suc_le_eq)
  with b assms(3,4,6) have "lo \<noteq> 0 \<and> lo \<le> int (length j) \<and> int (length j) \<le> hi"
    by (auto simp: Let_def split: if_splits)
  with assms(1,2) b show ?thesis by (force simp: combine_with_joker_card_def)
qed

lemma straights_of_choice_parts:
  assumes "straights_of_choice self ns = Some gs"
  obtains high low where "combine_with_joker_card self ns = Some high"
    and "(if length ns > 1 \<and> m_point (last ns) = PA
          then combine_with_joker_card self (last ns # butlast ns) else Some []) = Some low"
    and "gs = (if is_cards_pure_straight ns then [straight_group ns] else []) @ high @ low"
  using assms unfolding straights_of_choice_def Let_def
  by (auto split: bind_splits simp del: point_eq_numeral_iff)

lemma straights_of_choice_finds:
  assumes found: "straights_of_choice self ns = Some gs" and run: "suit_run jp ns" and ne: "ns \<noteq> []"
    and len: "3 \<le> length ns + length j"
    and fits: "fits_straight pt ns (length ns + length j) \<or> fits_straight low_pt ns (length ns + length j)"
    and j: "j = [] \<or> j \<in> set (m_joker_combines self) \<and> length j \<le> length (m_joker_cards self)"
  shows "\<exists>g\<in>set gs. mset (m_cards g) = mset (ns @ j)"
proof (cases "j = []")
  case True
  with gapless_pure [OF run] len fits have pure: "is_cards_pure_straight ns" by simp
  have "straight_group ns \<in> set gs" by (rule straights_of_choice_parts [OF found]) (simp add: pure)
  with True show ?thesis by (intro bexI [of _ "straight_group ns"]) (simp add: straight_group_def)
next
  case False
  with j have jc: "j \<in> set (m_joker_combines self)" "length j \<le> length (m_joker_cards self)" by auto
  obtain c cs where cs: "ns = c # cs" using ne by (cases ns) auto
  obtain high where high: "combine_with_joker_card self ns = Some high"
    and sub: "set high \<subseteq> set gs" by (rule straights_of_choice_parts [OF found]) auto
  have by_high: ?thesis if "gaps ns \<le> int (length j)"
  proof -
    have "fill_gaps c 0 cs = gaps ns"
      using run suit_run_points [OF run] unfolding cs by (subst fill_gaps_high) (auto simp: suit_run_def)
    with combine_with_joker_card_finds [of self c cs high j] high jc False len that cs
    have "straight_group (sort (ns @ j)) \<in> set high" by simp
    with sub show ?thesis by (auto simp: straight_group_def intro!: bexI [of _ "straight_group (sort (ns @ j))"])
  qed
  have by_low: ?thesis if l: "ns = xs @ [a]" "xs \<noteq> []" "pt a = 14" "gaps (ace_to_one a # xs) \<le> int (length j)" for xs a
  proof -
    have "length ns > 1 \<and> m_point (last ns) = PA" "last ns # butlast ns = a # xs"
      using l by (cases xs; simp)+
    note cond = this
    obtain low where low: "combine_with_joker_card self (a # xs) = Some low" "set low \<subseteq> set gs"
      by (rule straights_of_choice_parts [OF found]) (use cond in auto)
    have "ascending xs" "\<forall>x\<in>set xs. pt x < 14"
      using run l by (auto simp: suit_run_def ascending_def sorted_wrt_append)
    then have "fill_gaps a 0 xs \<le> int (length j)" using fill_gaps_low [OF l(3)] l(2,4) by simp
    with combine_with_joker_card_finds [OF low(1) jc(1)] False jc(2) len l(1)
    have "straight_group (sort ((a # xs) @ j)) \<in> set low" by simp
    with low(2) l(1) show ?thesis
      by (auto simp: straight_group_def intro!: bexI [of _ "straight_group (sort ((a # xs) @ j))"])
  qed
  from fits show ?thesis
  proof
    assume "fits_straight pt ns (length ns + length j)"
    then have "gaps ns \<le> int (length j)"
      using gaps_window [OF ascending_sorted ne, of "length j"] run by (simp add: fits_straight_def suit_run_def)
    then show ?thesis by (rule by_high)
  next
    assume "fits_straight low_pt ns (length ns + length j)"
    from fits_low_cases [OF run ne this] show ?thesis using by_high by_low by cases
  qed
qed

lemma flush_choice_found:
  assumes ok: "search_ok self H" "m_joker_point self = jp" and legal: "legal_hand H"
    and gs: "search_straight_flush self H = Some gs"
    and run: "suit_run jp ns" and ne: "ns \<noteq> []" and sub: "set ns \<subseteq> set H"
    and len: "3 \<le> length ns + length j"
    and fits: "fits_straight pt ns (length ns + length j) \<or> fits_straight low_pt ns (length ns + length j)"
    and j: "j = [] \<or> j \<in> set (m_joker_combines self)"
  shows "\<exists>g\<in>set gs. mset (m_cards g) = mset (ns @ j)"
proof -
  define col where "col = m_color (hd ns)"
  have col: "\<forall>c\<in>set ns. m_color c = col" using run by (simp add: suit_run_def one_color_def col_def)
  have "hd ns \<in> set H" using ne sub by auto
  then have colin: "col \<in> set (flush_colors H)" by (auto simp: flush_colors_def col_def)
  obtain pop rep where split: "split_repeats jp [] [] (sort (flush_cards H col)) = (pop, rep)" by fastforce
  have fl: "mset (flush_cards H col) \<subseteq># mset H" "\<forall>c\<in>set (flush_cards H col). m_color c = col"
    by (simp_all add: flush_cards_def)
  note runs = split_repeats_runs [OF legal fl split]
  have "set ns \<subseteq> set pop"
    using runs(4) sub col run by (auto simp: flush_cards_def suit_run_def)
  moreover have "sorted_wrt (<) ns"
    using run unfolding suit_run_def ascending_def
    by (auto elim!: sorted_wrt_mono_rel [rotated] simp: pt_less_iff less_PokerCard_ext_def)
  moreover have "sorted pop" using runs(1) by (simp add: suit_run_def ascending_sorted)
  ultimately have ns: "subseq ns pop" by (rule sorted_subset_imp_subseq)
  obtain colored where colored: "concat_opt (\<lambda>col.
         case split_repeats (m_joker_point self) [] [] (sort (flush_cards H col)) of
           (pop_cards, pop_repeat_cards) \<Rightarrow> search_straight_flush_i self pop_cards pop_repeat_cards)
       (flush_colors H) = Some colored" "set colored \<subseteq> set gs"
    using gs by (auto simp: search_straight_flush_def split: bind_splits)
  obtain i_gs where i: "search_straight_flush_i self pop rep = Some i_gs" "set i_gs \<subseteq> set colored"
    using concat_opt_part [OF colored(1) colin] split ok(2) by auto
  then obtain first where first: "concat_opt (search_straight_flush_select_n self pop)
      [1..<length pop + length (m_joker_cards self) + 1] = Some first" "set first \<subseteq> set i_gs"
    by (auto simp: search_straight_flush_i_def split: bind_splits)
  have "length ns \<le> length pop" using ns by (rule list_emb_length)
  then have n: "length ns \<in> set [1..<length pop + length (m_joker_cards self) + 1]"
    using ne by (auto simp: Suc_le_eq)
  obtain n_gs where n_gs: "search_straight_flush_select_n self pop (length ns) = Some n_gs"
    "set n_gs \<subseteq> set first" using concat_opt_part [OF first(1) n] .
  then have "concat_opt (straights_of_choice self) (select_card_combine pop (length ns)) = Some n_gs"
    using \<open>length ns \<le> length pop\<close> by (simp add: search_straight_flush_select_n_def split: if_splits)
  moreover have "ns \<in> set (select_card_combine pop (length ns))" using ns by (simp add: set_select)
  ultimately obtain c_gs where c: "straights_of_choice self ns = Some c_gs" "set c_gs \<subseteq> set n_gs"
    by (rule concat_opt_part)
  have "j = [] \<or> j \<in> set (m_joker_combines self) \<and> length j \<le> length (m_joker_cards self)"
    using j search_ok_joker(1) [OF ok(1)] ok(1) by (auto simp: search_ok_def dest: list_emb_length)
  from straights_of_choice_finds [OF c(1) run ne len fits this] show ?thesis
    using c(2) n_gs(2) first(2) i(2) colored(2) by blast
qed

text \<open>A legal straight of the hand, in any order, splits into a run of one colour and jokers.\<close>

lemma hand_straight_split:
  assumes legal: "legal_hand H" and G: "mset G \<subseteq># mset H" and st: "is_cards_straight jp (sort G)"
  obtains ns where "suit_run jp ns" and "mset G = mset ns + mset (jokers_of jp G)" and "set ns \<subseteq> set H"
    and "3 \<le> length G" and "length G = length ns + length (jokers_of jp G)"
    and "fits_straight pt ns (length G) \<or> fits_straight low_pt ns (length G)"
proof -
  define ns where "ns = naturals jp (sort G)"
  have st': "3 \<le> length G" "one_color ns" "distinct (map pt ns)"
    "fits_straight pt ns (length G) \<or> fits_straight low_pt ns (length G)"
    using st by (simp_all add: straight_sorted ns_def)
  have setns: "set ns = {c \<in> set G. \<not> is_joker jp c}" by (auto simp: ns_def naturals_def)
  then have sub: "set ns \<subseteq> set H" using mset_subset_eqD [OF G] by auto
  have srt: "sorted ns" by (simp add: ns_def naturals_def sorted_wrt_filter)
  then have "sorted (map pt ns)" by (rule sorted_pt)
  with st'(3) have "sorted_wrt (<) (map pt ns)" by (simp add: strict_sorted_iff)
  then have "ascending ns" by (simp add: ascending_def sorted_wrt_map)
  with st'(2) sub setns legal legal_hand_card(2) have run: "suit_run jp ns"
    by (auto simp: suit_run_def)
  have "mset G = filter_mset (\<lambda>c. \<not> is_joker jp c) (mset G) + filter_mset (is_joker jp) (mset G)"
    by (metis multiset_partition union_commute)
  also have "\<dots> = mset ns + mset (jokers_of jp G)"
    by (simp add: ns_def naturals_def jokers_of_def flip: mset_filter mset_sort)
      (simp add: mset_filter)
  finally have eq: "mset G = mset ns + mset (jokers_of jp G)" .
  then have "length G = length ns + length (jokers_of jp G)" by (metis size_mset size_union)
  with that run eq sub st' show ?thesis by blast
qed

text \<open>
  The search finds the straights of the hand and nothing else: the groups it returns are, as
  multisets of cards, exactly the sub-multisets of the hand that pass \<^verbatim>\<open>is_cards_straight\<close>.
\<close>

lemma search_straight_flush_exact:
  assumes ok: "search_ok self H" "m_joker_point self = jp" and legal: "legal_hand H"
  shows "\<exists>gs. search_straight_flush self H = Some gs \<and> (\<forall>g\<in>set gs. m_type g = GROUP_STAIGHT) \<and>
    (\<forall>G. (\<exists>g\<in>set gs. mset (m_cards g) = mset G) \<longleftrightarrow> mset G \<subseteq># mset H \<and> is_cards_straight jp (sort G))"
proof -
  obtain gs where gs: "search_straight_flush self H = Some gs" "\<forall>g\<in>set gs. straight_in jp H g"
    using search_straight_flush_ok [OF ok legal] by blast
  have sound: "mset G \<subseteq># mset H \<and> is_cards_straight jp (sort G)"
    if "g \<in> set gs" "mset (m_cards g) = mset G" for g G
  proof -
    from that(2) have "sort (m_cards g) = sort G" by (metis mset_sort properties_for_sort sorted_sort)
    with gs(2) that show ?thesis by (auto simp: straight_in_def straight_ok_def)
  qed
  have complete: "\<exists>g\<in>set gs. mset (m_cards g) = mset G"
    if G: "mset G \<subseteq># mset H" "is_cards_straight jp (sort G)" for G
  proof -
    obtain ns where ns: "suit_run jp ns" "mset G = mset ns + mset (jokers_of jp G)" "set ns \<subseteq> set H"
      "3 \<le> length G" "length G = length ns + length (jokers_of jp G)"
      "fits_straight pt ns (length G) \<or> fits_straight low_pt ns (length G)"
      by (rule hand_straight_split [OF legal G])
    have "mset (jokers_of jp G) \<subseteq># mset (search_joker_cards jp H)"
      using G(1) by (simp add: jokers_of_def search_joker_cards_def multiset_filter_mono)
    from subseq_of_mset [OF this] obtain j where
      j: "subseq j (search_joker_cards jp H)" "mset j = mset (jokers_of jp G)" by blast
    then have jc: "j = [] \<or> j \<in> set (m_joker_combines self)"
      using ok by (auto simp: search_ok_def set_all_combines [unfolded One_nat_def])
    have lj: "length j = length (jokers_of jp G)" using j(2) by (metis size_mset)
    show ?thesis
    proof (cases "ns = []")
      case True
      with ns lj have "3 \<le> length j" by simp
      with jc have "straight_group j \<in> set gs" using gs(1)
        by (auto simp: search_straight_flush_def not_less split: bind_splits)
      with True ns(2) j(2) show ?thesis by (intro bexI [of _ "straight_group j"]) (simp add: straight_group_def)
    next
      case False
      from flush_choice_found [OF ok legal gs(1) ns(1) False ns(3) _ _ jc] ns(4-6) lj j(2) ns(2)
      show ?thesis by simp
    qed
  qed
  have "\<forall>g\<in>set gs. m_type g = GROUP_STAIGHT" using gs(2) by (auto simp: straight_in_def straight_ok_def)
  with gs(1) sound complete show ?thesis by blast
qed

section \<open>The search for three of a kind\<close>

text \<open>
  A set: two to four natural cards of one rank and of different colours, and jokers, three cards
  at least. Nothing bounds the jokers from above.
\<close>

definition kind_ok :: "int \<Rightarrow> CardGroup \<Rightarrow> bool" where
  "kind_ok jp g \<longleftrightarrow> m_type g = GROUP_THREE_KIND \<and> 3 \<le> length (m_cards g) \<and>
     2 \<le> length (naturals jp (m_cards g)) \<and> length (naturals jp (m_cards g)) \<le> 4 \<and>
     same_rank (naturals jp (m_cards g))"

definition kind_in :: "int \<Rightarrow> PokerCard list \<Rightarrow> CardGroup \<Rightarrow> bool" where
  "kind_in jp H g \<longleftrightarrow> kind_ok jp g \<and> mset (m_cards g) \<subseteq># mset H"

text \<open>Such a group passes the test of the declaration exactly if it has at most four cards.\<close>

lemma same_rank_mset:
  assumes "same_rank xs" and "mset xs = mset ys"
  shows "same_rank ys"
proof -
  have "set xs = set ys" "distinct (map m_color ys)"
    using assms mset_eq_imp_distinct_iff [of "map m_color xs" "map m_color ys"]
    by (auto simp: same_rank_def dest: mset_eq_setD)
  with assms(1) show ?thesis by (cases ys) (auto simp: same_rank_def)
qed

lemma same_rank_filter: "same_rank xs \<Longrightarrow> same_rank (filter P xs)"
  unfolding same_rank_def by (metis distinct_map_filter filter_is_subset filter_set hd_in_set length_greater_0_conv
      length_pos_if_in_set subsetD)

lemma kind_ok_check:
  assumes "kind_ok jp g"
  shows "is_cards_three_of_kind jp (sort (m_cards g)) \<longleftrightarrow> length (m_cards g) \<le> 4"
proof -
  let ?cs = "sort (m_cards g)"
  have same: "same_rank (naturals jp ?cs)"
    using assms same_rank_mset [of "naturals jp (m_cards g)" "naturals jp ?cs"]
    by (simp add: kind_ok_def naturals_sort)
  have lo: "low_naturals jp ?cs = filter (\<lambda>c. pt c < jp) (naturals jp ?cs)"
    and hi: "high_naturals jp ?cs = filter (\<lambda>c. jp < pt c) (naturals jp ?cs)"
    by (auto simp: low_naturals_def high_naturals_def naturals_def is_joker_iff intro: filter_cong)
  have one: "low_naturals jp ?cs = [] \<or> high_naturals jp ?cs = []"
  proof (rule ccontr)
    assume "\<not> ?thesis"
    then obtain a b where "a \<in> set (naturals jp ?cs)" "pt a < jp" "b \<in> set (naturals jp ?cs)" "jp < pt b"
      by (auto simp: lo hi filter_empty_conv)
    with same show False unfolding same_rank_def by (metis less_asym pt_eq_iff)
  qed
  have "length (naturals jp ?cs) = length (naturals jp (m_cards g))" by (simp add: naturals_sort)
  with one same_rank_filter [OF same] assms show ?thesis
    unfolding lo hi by (subst three_of_kind_sorted) (auto simp: lo hi kind_ok_def)
qed

text \<open>The cards of one rank the loop collects: first and repeated ones.\<close>

definition rank_pile :: "int \<Rightarrow> PokerCard list \<Rightarrow> PokerCard list \<Rightarrow> PokerCard list \<Rightarrow> bool" where
  "rank_pile jp H pop rep \<longleftrightarrow>
     distinct pop \<and> (\<forall>c\<in>set pop. m_point c = m_point (hd pop) \<and> \<not> is_joker jp c) \<and>
     set rep \<subseteq> set pop \<and> mset pop + mset rep \<subseteq># mset H"

lemma same_point_same_rank:
  assumes "distinct cs" and "\<forall>c\<in>set cs. m_point c = p"
  shows "same_rank cs"
proof -
  have "inj_on m_color (set cs)" using assms(2) by (intro inj_onI) simp
  with assms show ?thesis by (cases cs) (auto simp: same_rank_def distinct_map)
qed

lemma rank_choice_kind_in:
  assumes pile: "distinct cs" "\<forall>c\<in>set cs. m_point c = p \<and> \<not> is_joker jp c" "mset cs \<subseteq># mset H"
    and ns: "subseq ns cs" "2 \<le> length ns" "length ns \<le> 4"
    and j: "\<forall>c\<in>set j. is_joker jp c" "mset j \<subseteq># filter_mset (is_joker jp) (mset H)"
      "3 \<le> length ns + length j"
  shows "kind_in jp H (three_kind_group (ns @ j))"
proof -
  have sub: "set ns \<subseteq> set cs" "distinct ns"
    using ns(1) pile(1) subseq_set by (auto dest: subseq_distinct)
  then have nat: "naturals jp (ns @ j) = ns" using pile(2) j(1) by (intro naturals_append_jokers) auto
  have "same_rank ns" using sub pile(2) by (intro same_point_same_rank [where p = p]) auto
  moreover have "mset ns \<subseteq># filter_mset (\<lambda>c. \<not> is_joker jp c) (mset H)"
  proof -
    have "mset ns \<subseteq># mset H" using subseq_mset [OF ns(1)] pile(3) by (rule subset_mset.order_trans)
    from multiset_filter_mono [OF this] have
      "filter_mset (\<lambda>c. \<not> is_joker jp c) (mset ns) \<subseteq># filter_mset (\<lambda>c. \<not> is_joker jp c) (mset H)" .
    moreover have "filter_mset (\<lambda>c. \<not> is_joker jp c) (mset ns) = mset ns"
      using sub pile(2) by (auto simp: filter_mset_eq_conv)
    ultimately show ?thesis by simp
  qed
  then have "mset (ns @ j) \<subseteq># mset H" using j(2) by (rule natural_joker_mset)
  ultimately show ?thesis using nat ns j(3) by (simp add: kind_in_def kind_ok_def three_kind_group_def)
qed

lemma search_three_of_kind_i_ok:
  assumes ok: "search_ok self H" "m_joker_point self = jp" and legal: "legal_hand H"
    and pile: "rank_pile jp H pop rep"
  shows "\<exists>gs. search_three_of_kind_i self pop rep = Some gs \<and> (\<forall>g\<in>set gs. kind_in jp H g)"
proof -
  have p: "distinct pop" "\<forall>c\<in>set pop. m_point c = m_point (hd pop) \<and> \<not> is_joker jp c"
    "mset pop \<subseteq># mset H"
    using pile by (auto simp: rank_pile_def intro: subset_mset.order_trans [rotated])
  have r: "distinct rep" "\<forall>c\<in>set rep. m_point c = m_point (hd pop) \<and> \<not> is_joker jp c"
    "mset rep \<subseteq># mset H"
    using pile legal_hand_rep_distinct [OF legal, of rep pop]
    by (auto simp: rank_pile_def intro: subset_mset.order_trans [rotated])
  have choice: "kind_in jp H g" if "g \<in> set (kinds_of_choice self ns)" "subseq ns pop"
    "2 \<le> length ns" "length ns \<le> 4" for g ns
  proof -
    from that(1) consider (pure) "g = three_kind_group ns" "length ns > 2"
      | (jok) j where "j \<in> set (m_joker_combines self)" "g = three_kind_group (ns @ j)"
      by (auto simp: kinds_of_choice_def split: if_splits)
    then show ?thesis
    proof cases
      case pure
      with rank_choice_kind_in [OF p that(2-4), of "[]"] show ?thesis by simp
    next
      case jok
      then have "j \<noteq> []" "\<forall>c\<in>set j. is_joker jp c" "mset j \<subseteq># filter_mset (is_joker jp) (mset H)"
        using ok search_ok_joker(2) [OF ok(1)] joker_all [OF ok(1)] joker_mset_le [OF ok(1)] by auto
      with rank_choice_kind_in [OF p that(2-4), of j] jok(2) that(3) show ?thesis
        by (cases j) auto
    qed
  qed
  have "\<exists>first. concat_opt (search_three_of_kind_select_n self pop) [2..<5] = Some first \<and>
      (\<forall>g\<in>set first. kind_in jp H g)"
    by (rule concat_opt_all) (auto simp: search_three_of_kind_select_n_def set_select intro: choice)
  then obtain first where "concat_opt (search_three_of_kind_select_n self pop) [2..<5] = Some first"
    "\<forall>g\<in>set first. kind_in jp H g" by blast
  moreover have "kind_in jp H (three_kind_group ns)" if "ns \<in> set (select_card_combine rep i)" "i \<in> {3..<5}" for ns i
    using rank_choice_kind_in [OF r, of ns "[]"] that by (auto simp: set_select)
  ultimately show ?thesis by (auto simp: search_three_of_kind_i_def simp del: upt_rec_numeral)
qed

lemma three_of_kind_loop_ok:
  assumes ok: "search_ok self H" "m_joker_point self = jp" and legal: "legal_hand H"
  shows "rank_pile jp H pop rep \<or> (\<exists>j. pop = [j] \<and> is_joker jp j \<and> rep = []) \<Longrightarrow>
    mset pop + mset rep + mset left \<subseteq># mset H \<Longrightarrow>
    \<exists>gs. three_of_kind_loop self pop rep left = Some gs \<and> (\<forall>g\<in>set gs. kind_in jp H g)"
proof (induction left arbitrary: pop rep)
  case Nil
  then show ?case using search_three_of_kind_i_ok [OF ok legal] by auto
next
  case (Cons c left)
  have le: "mset [c] + mset left \<subseteq># mset H"
    using Cons.prems(2) by (auto intro: subset_mset.order_trans [rotated])
  show ?case
  proof (cases "(pop = [] \<or> m_point (hd pop) = m_point c) \<and> \<not> is_joker jp c")
    case True
    then have "\<not> (\<exists>j. pop = [j] \<and> is_joker jp j)" by (auto simp: is_joker_def pt_def)
    with Cons.prems have pile: "rank_pile jp H pop rep" by blast
    have "mset pop + mset rep \<subseteq># mset H"
      using pile by (simp add: rank_pile_def)
    show ?thesis
    proof (cases "c \<in> set pop")
      case c: True
      have "rank_pile jp H pop (rep @ [c])"
        using pile Cons.prems(2) c by (auto simp: rank_pile_def intro: subset_mset.order_trans [rotated])
      with Cons.IH [of pop "rep @ [c]"] Cons.prems(2) True c ok(2) show ?thesis
        by (simp add: is_card_in_group_def)
    next
      case c: False
      have "\<forall>d\<in>set (pop @ [c]). m_point d = m_point (hd (pop @ [c])) \<and> \<not> is_joker jp d"
        using True pile by (cases pop) (auto simp: rank_pile_def)
      then have "rank_pile jp H (pop @ [c]) rep"
        using pile Cons.prems(2) c by (auto simp: rank_pile_def intro: subset_mset.order_trans [rotated])
      with Cons.IH [of "pop @ [c]" rep] Cons.prems(2) True c ok(2) show ?thesis
        by (simp add: is_card_in_group_def)
    qed
  next
    case False
    have "\<exists>found. (if length pop \<ge> 2 then search_three_of_kind_i self pop rep else Some []) = Some found \<and>
        (\<forall>g\<in>set found. kind_in jp H g)"
      using Cons.prems(1) search_three_of_kind_i_ok [OF ok legal, of pop rep]
      by (cases "length pop \<ge> 2") auto
    then obtain found where found: "(if length pop \<ge> 2 then search_three_of_kind_i self pop rep else Some []) = Some found"
      "\<forall>g\<in>set found. kind_in jp H g" by blast
    have "rank_pile jp H [c] [] \<or> (\<exists>j. [c] = [j] \<and> is_joker jp j \<and> [] = [])"
      using le mset_subset_eqD [OF le, of c] by (auto simp: rank_pile_def)
    with Cons.IH [of "[c]" "[]"] le obtain rest where
      "three_of_kind_loop self [c] [] left = Some rest" "\<forall>g\<in>set rest. kind_in jp H g" by auto
    with found False ok(2) show ?thesis by (auto split: bind_splits)
  qed
qed

lemma search_three_of_kind_ok:
  assumes "search_ok self H" "m_joker_point self = jp" "legal_hand H"
  shows "\<exists>gs. search_three_of_kind self H = Some gs \<and> (\<forall>g\<in>set gs. kind_in jp H g)"
  unfolding search_three_of_kind_def
  by (rule three_of_kind_loop_ok [OF assms]) (simp_all add: rank_pile_def)

section \<open>No set is missed\<close>

lemma is_joker_point: "m_point a = m_point b \<Longrightarrow> is_joker jp a \<longleftrightarrow> is_joker jp b"
  by (simp add: is_joker_def pt_def)

lemma three_of_kind_loop_pile:
  assumes "three_of_kind_loop self pop rep left = Some gs" and "sorted left" and "distinct pop"
    and "\<forall>c\<in>set pop. m_point c = m_point (hd pop)" and "\<forall>c\<in>set pop. \<forall>d\<in>set left. c \<le> d"
    and "\<forall>c\<in>T. m_point c = p \<and> \<not> is_joker (m_joker_point self) c" and "T \<subseteq> set pop \<union> set left"
    and "2 \<le> card T"
  shows "\<exists>pop' rep' gs'. T \<subseteq> set pop' \<and> distinct pop' \<and> search_three_of_kind_i self pop' rep' = Some gs' \<and>
    set gs' \<subseteq> set gs"
  using assms
proof (induction left arbitrary: pop rep gs)
  case Nil
  then have T: "T \<subseteq> set pop" by simp
  then have "2 \<le> length pop"
    using Nil.prems(8) card_mono [OF _ T] card_length [of pop] by simp
  with Nil.prems(1,3) T show ?case by auto
next
  case (Cons c left)
  have left: "sorted left" "\<forall>d\<in>set left. c \<le> d" using Cons.prems(2) by simp_all
  show ?case
  proof (cases "(pop = [] \<or> m_point (hd pop) = m_point c) \<and> \<not> is_joker (m_joker_point self) c")
    case True
    show ?thesis
    proof (cases "c \<in> set pop")
      case c: True
      with True Cons.prems(1) have loop: "three_of_kind_loop self pop (rep @ [c]) left = Some gs"
        by (simp add: is_card_in_group_def)
      have sub: "T \<subseteq> set pop \<union> set left" and le: "\<forall>d\<in>set pop. \<forall>e\<in>set left. d \<le> e"
        using Cons.prems(5,7) c by auto
      show ?thesis by (rule Cons.IH [OF loop left(1) Cons.prems(3,4) le Cons.prems(6) sub Cons.prems(8)])
    next
      case c: False
      with True Cons.prems(1) have loop: "three_of_kind_loop self (pop @ [c]) rep left = Some gs"
        by (simp add: is_card_in_group_def)
      have pts: "\<forall>d\<in>set (pop @ [c]). m_point d = m_point (hd (pop @ [c]))"
      proof (cases "pop = []")
        case False
        then have hd: "hd (pop @ [c]) = hd pop" by simp
        from True False have "m_point c = m_point (hd pop)" by metis
        with Cons.prems(4) show ?thesis unfolding hd by (metis UnE empty_iff insert_iff list.set set_append)
      qed simp
      have le: "\<forall>d\<in>set (pop @ [c]). \<forall>e\<in>set left. d \<le> e" using Cons.prems(5) left(2) by auto
      have dist: "distinct (pop @ [c])" and sub: "T \<subseteq> set (pop @ [c]) \<union> set left"
        using Cons.prems(3,7) c by auto
      show ?thesis by (rule Cons.IH [OF loop left(1) dist pts le Cons.prems(6) sub Cons.prems(8)])
    qed
  next
    case False
    obtain found rest where fr: "(if length pop \<ge> 2 then search_three_of_kind_i self pop rep else Some []) = Some found"
      "three_of_kind_loop self [c] [] left = Some rest" "gs = found @ rest"
      using Cons.prems(1) False by (auto split: bind_splits)
    show ?thesis
    proof (cases "T \<subseteq> set pop")
      case True
      then have "2 \<le> length pop" using Cons.prems(8) card_mono [OF _ True] card_length [of pop] by simp
      with fr True Cons.prems(3) show ?thesis by auto
    next
      case nsub: False
      then obtain t where t: "t \<in> T" "t \<in> set (c # left)" using Cons.prems(7) by auto
      have "T \<inter> set pop = {}"
      proof (rule ccontr)
        assume "T \<inter> set pop \<noteq> {}"
        then obtain u where u: "u \<in> T" "u \<in> set pop" by blast
        have "m_point u = p" "m_point t = p" "\<not> is_joker (m_joker_point self) t" using Cons.prems(6) t u by auto
        moreover have "u \<le> c" "c \<le> t" using Cons.prems(5) u(2) t(2) left(2) by auto
        ultimately have "m_point c = p" using card_le_point [of u c] card_le_point [of c t] by simp
        moreover have "m_point (hd pop) = p" using Cons.prems(4) u(2) \<open>m_point u = p\<close> by force
        ultimately show False
          using False is_joker_point [of c t] \<open>m_point t = p\<close> \<open>\<not> is_joker (m_joker_point self) t\<close> by simp
      qed
      then have sub: "T \<subseteq> set [c] \<union> set left" using Cons.prems(7) by auto
      have one: "distinct [c]" "\<forall>d\<in>set [c]. m_point d = m_point (hd [c])" "\<forall>d\<in>set [c]. \<forall>e\<in>set left. d \<le> e"
        using left(2) by simp_all
      from Cons.IH [OF fr(2) left(1) one Cons.prems(6) sub Cons.prems(8)] fr(3)
      show ?thesis by fastforce
    qed
  qed
qed

lemma distinct_subset_mset: "distinct xs \<Longrightarrow> set xs \<subseteq> set ys \<Longrightarrow> mset xs \<subseteq># mset ys"
  by (rule mset_subset_eqI) (auto simp: distinct_count_atmost_1 Suc_le_eq subset_iff)

text \<open>
  The same for sets: the groups returned are, as multisets, exactly the sub-multisets of the hand
  that are a set of two to four natural cards with any number of jokers.
\<close>

lemma search_three_of_kind_exact:
  assumes ok: "search_ok self H" "m_joker_point self = jp" and legal: "legal_hand H"
  shows "\<exists>gs. search_three_of_kind self H = Some gs \<and> (\<forall>g\<in>set gs. m_type g = GROUP_THREE_KIND) \<and>
    (\<forall>G. (\<exists>g\<in>set gs. mset (m_cards g) = mset G) \<longleftrightarrow> mset G \<subseteq># mset H \<and> kind_ok jp (three_kind_group G))"
proof -
  obtain gs where gs: "search_three_of_kind self H = Some gs" "\<forall>g\<in>set gs. kind_in jp H g"
    using search_three_of_kind_ok [OF ok legal] by blast
  have sound: "mset G \<subseteq># mset H \<and> kind_ok jp (three_kind_group G)"
    if "g \<in> set gs" "mset (m_cards g) = mset G" for g G
  proof -
    have g: "kind_ok jp g" "mset (m_cards g) \<subseteq># mset H" using gs(2) that(1) by (auto simp: kind_in_def)
    have "mset (naturals jp (m_cards g)) = mset (naturals jp G)" using that(2) by (simp add: naturals_def)
    then have "same_rank (naturals jp G)" "length (naturals jp G) = length (naturals jp (m_cards g))"
      "length G = length (m_cards g)"
      using same_rank_mset g(1) that(2) by (auto simp: kind_ok_def dest: mset_eq_length)
    with g that(2) show ?thesis by (simp add: kind_ok_def three_kind_group_def)
  qed
  have complete: "\<exists>g\<in>set gs. mset (m_cards g) = mset G"
    if G: "mset G \<subseteq># mset H" "kind_ok jp (three_kind_group G)" for G
  proof -
    let ?ns = "naturals jp G"
    have ns: "3 \<le> length G" "2 \<le> length ?ns" "length ?ns \<le> 4" "same_rank ?ns"
      using G(2) by (simp_all add: kind_ok_def three_kind_group_def)
    then have dist: "distinct ?ns" by (auto simp: same_rank_def distinct_map)
    have sub: "set ?ns \<subseteq> set H" using mset_subset_eqD [OF G(1)] by (auto simp: naturals_def)
    have "\<exists>pop' rep' gs'. set ?ns \<subseteq> set pop' \<and> distinct pop' \<and>
        search_three_of_kind_i self pop' rep' = Some gs' \<and> set gs' \<subseteq> set gs"
    proof -
      have t: "\<forall>c\<in>set ?ns. m_point c = m_point (hd ?ns) \<and> \<not> is_joker (m_joker_point self) c"
        "set ?ns \<subseteq> set [] \<union> set (sort H)" "2 \<le> card (set ?ns)"
        using ns(2,4) ok(2) sub distinct_card [OF dist] by (auto simp: same_rank_def naturals_def)
      show ?thesis
        by (rule three_of_kind_loop_pile [OF gs(1) [unfolded search_three_of_kind_def] sorted_sort _ _ _ t]) simp_all
    qed
    then obtain pop' rep' gs' where pop: "set ?ns \<subseteq> set pop'" "distinct pop'"
      "search_three_of_kind_i self pop' rep' = Some gs'" "set gs' \<subseteq> set gs" by blast
    obtain cs where cs: "subseq cs pop'" "mset cs = mset ?ns"
      using subseq_of_mset [OF distinct_subset_mset [OF dist pop(1)]] by blast
    have lcs: "length cs = length ?ns" using cs(2) by (rule mset_eq_length)
    have "mset (jokers_of jp G) \<subseteq># mset (search_joker_cards jp H)"
      using G(1) by (simp add: jokers_of_def search_joker_cards_def multiset_filter_mono)
    from subseq_of_mset [OF this] obtain j where
      j: "subseq j (search_joker_cards jp H)" "mset j = mset (jokers_of jp G)" by blast
    then have jc: "j = [] \<or> j \<in> set (m_joker_combines self)"
      using ok by (auto simp: search_ok_def set_all_combines [unfolded One_nat_def])
    have mG: "mset (cs @ j) = mset G"
      using cs(2) j(2) by (simp add: naturals_def jokers_of_def)
    have len: "length cs + length j = length G" using mG by (metis length_append mset_eq_length)
    have kinds: "three_kind_group (cs @ j) \<in> set (kinds_of_choice self cs)"
    proof (cases "j = []")
      case True
      with len ns(1) show ?thesis by (simp add: kinds_of_choice_def)
    next
      case False
      with jc show ?thesis by (auto simp: kinds_of_choice_def)
    qed
    obtain first where first: "concat_opt (search_three_of_kind_select_n self pop') [2..<5] = Some first"
      "set first \<subseteq> set gs'"
      using pop(3) unfolding search_three_of_kind_i_def by (auto split: bind_splits simp del: upt_rec_numeral)
    have "length cs \<in> set [2..<5]" using ns(2,3) lcs by (simp, linarith)
    from concat_opt_part [OF first(1) this] obtain n_gs where
      n: "search_three_of_kind_select_n self pop' (length cs) = Some n_gs" "set n_gs \<subseteq> set first" by blast
    have "three_kind_group (cs @ j) \<in> set n_gs"
      using n(1) ns(2,3) lcs list_emb_length [OF cs(1)] cs(1) kinds
      by (auto simp: search_three_of_kind_select_n_def set_select intro!: bexI [of _ cs] split: if_splits)
    with n(2) first(2) pop(4) mG show ?thesis
      by (intro bexI [of _ "three_kind_group (cs @ j)"]) (auto simp: three_kind_group_def)
  qed
  have "\<forall>g\<in>set gs. m_type g = GROUP_THREE_KIND" using gs(2) by (auto simp: kind_in_def kind_ok_def)
  with gs(1) sound complete show ?thesis by blast
qed

section \<open>Properties\<close>

definition sample_hand :: "PokerCard list" where
  "sample_hand = [mk_card 1 5, mk_card 1 9, mk_card 1 6, mk_card 2 5]"

definition sample_search :: Combination where
  "sample_search = \<lparr>m_joker_cards = [mk_card 1 9], m_joker_combines = [[mk_card 1 9]], m_joker_point = 9\<rparr>"

lemma sample_search_ok: "search_ok sample_search sample_hand"
  by code_simp

lemma sample_hand_legal: "legal_hand sample_hand"
  by (auto simp: legal_hand_def sample_hand_def MAX_CARD_COUNT_def in_pack_def is_valid_card_def mk_card_def pt_def)

text \<open>
  C2. The search for straights is exact. On a hand that can be dealt (at most 14 cards, every
  card at most twice) and with the jokers of the hand in the object, \<^verbatim>\<open>search_straight_flush\<close>
  does not abort, and the groups it returns are, as multisets of cards, exactly the sub-multisets
  of the hand that \<^verbatim>\<open>is_cards_straight\<close> accepts: it invents none and misses none.
\<close>

theorem straight_search_exact:
  assumes "search_ok self H" and "legal_hand H"
  shows "\<exists>gs. search_straight_flush self H = Some gs \<and> (\<forall>g\<in>set gs. m_type g = GROUP_STAIGHT) \<and>
    (\<forall>G. (\<exists>g\<in>set gs. mset (m_cards g) = mset G) \<longleftrightarrow>
       mset G \<subseteq># mset H \<and> is_cards_straight (m_joker_point self) (sort G))"
  using search_straight_flush_exact [OF assms(1) refl assms(2)] .

theorem straight_search_exact_witness:
  "\<exists>gs. search_straight_flush sample_search sample_hand = Some gs \<and>
     (\<exists>g\<in>set gs. mset (m_cards g) = mset [mk_card 1 6, mk_card 1 9, mk_card 1 5])"
proof -
  have "mset [mk_card 1 6, mk_card 1 9, mk_card 1 5] \<subseteq># mset sample_hand"
    by (simp add: sample_hand_def)
  moreover have "is_cards_straight (m_joker_point sample_search) (sort [mk_card 1 6, mk_card 1 9, mk_card 1 5])"
    by code_simp
  ultimately show ?thesis using straight_search_exact [OF sample_search_ok sample_hand_legal] by blast
qed

text \<open>
  C4. The search for sets is exact too: under the same conditions \<^verbatim>\<open>search_three_of_kind\<close> does
  not abort, and its groups are, as multisets of cards, exactly the sub-multisets of the hand with
  two to four natural cards of one rank in different colours, the rest jokers, three cards in all;
  of these, \<^verbatim>\<open>is_cards_three_of_kind\<close> accepts those of at most four cards and rejects the others.
\<close>

theorem kind_search_exact:
  assumes "search_ok self H" and "legal_hand H"
  shows "\<exists>gs. search_three_of_kind self H = Some gs \<and> (\<forall>g\<in>set gs. m_type g = GROUP_THREE_KIND) \<and>
    (\<forall>G. (\<exists>g\<in>set gs. mset (m_cards g) = mset G) \<longleftrightarrow>
       mset G \<subseteq># mset H \<and> kind_ok (m_joker_point self) (three_kind_group G)) \<and>
    (\<forall>g\<in>set gs. is_cards_three_of_kind (m_joker_point self) (sort (m_cards g)) \<longleftrightarrow> length (m_cards g) \<le> 4)"
proof -
  obtain gs where gs: "search_three_of_kind self H = Some gs" "\<forall>g\<in>set gs. m_type g = GROUP_THREE_KIND"
    "\<forall>G. (\<exists>g\<in>set gs. mset (m_cards g) = mset G) \<longleftrightarrow>
       mset G \<subseteq># mset H \<and> kind_ok (m_joker_point self) (three_kind_group G)"
    using search_three_of_kind_exact [OF assms(1) refl assms(2)] by blast
  have "kind_ok (m_joker_point self) g" if "g \<in> set gs" for g
  proof -
    from gs(3) that have "kind_ok (m_joker_point self) (three_kind_group (m_cards g))" by blast
    with gs(2) that show ?thesis by (simp add: kind_ok_def three_kind_group_def)
  qed
  with gs kind_ok_check show ?thesis by blast
qed

theorem kind_search_exact_witness:
  "\<exists>gs. search_three_of_kind sample_search sample_hand = Some gs \<and>
     (\<exists>g\<in>set gs. mset (m_cards g) = mset [mk_card 1 5, mk_card 2 5, mk_card 1 9] \<and>
        is_cards_three_of_kind 9 (sort (m_cards g)))"
proof -
  obtain gs where gs: "search_three_of_kind sample_search sample_hand = Some gs"
    "\<forall>G. (\<exists>g\<in>set gs. mset (m_cards g) = mset G) \<longleftrightarrow>
       mset G \<subseteq># mset sample_hand \<and> kind_ok (m_joker_point sample_search) (three_kind_group G)"
    "\<forall>g\<in>set gs. is_cards_three_of_kind (m_joker_point sample_search) (sort (m_cards g)) \<longleftrightarrow> length (m_cards g) \<le> 4"
    using kind_search_exact [OF sample_search_ok sample_hand_legal] by blast
  have "mset [mk_card 1 5, mk_card 2 5, mk_card 1 9] \<subseteq># mset sample_hand" by (simp add: sample_hand_def)
  moreover have "kind_ok (m_joker_point sample_search) (three_kind_group [mk_card 1 5, mk_card 2 5, mk_card 1 9])"
    by code_simp
  ultimately obtain g where g: "g \<in> set gs" "mset (m_cards g) = mset [mk_card 1 5, mk_card 2 5, mk_card 1 9]"
    using gs(2) by blast
  have "length (m_cards g) = size (mset (m_cards g))" by simp
  also have "\<dots> = 3" unfolding g(2) by simp
  finally have "length (m_cards g) = 3" .
  with gs g show ?thesis by (auto simp: sample_search_def)
qed

end
