(* ===== verification/Hand_Search.thy ===== *)
theory Hand_Search
  imports Group_Search "HOL-Library.Product_Lexorder"
begin

text \<open>
  The search over a whole hand, \<^verbatim>\<open>server/gamesvr/Combination.cpp\<close> lines 11 to 37 and 51 to 493:
  \<^verbatim>\<open>search_all_group\<close> with its four nested loops and early returns, the automatic declaration
  \<^verbatim>\<open>default_declare\<close> and the choice of the card to discard, \<^verbatim>\<open>post_best_card\<close>.

  Each nested loop is a definition of its own, run by \<open>loop_ret\<close>, whose flag says whether the
  body returned from the function. \<^verbatim>\<open>std::sort\<close> on combinations, which need not be stable, is a
  parameter.
\<close>

record CombinationInfo =
  m_score :: int
  m_card_group :: "CardGroup list"
  m_valid_cards :: "PokerCard list"
  m_is_has_firtlife :: bool
  m_is_has_secondelife :: bool

definition new_CombinationInfo :: CombinationInfo where
  "new_CombinationInfo = \<lparr>m_score = 0, m_card_group = [], m_valid_cards = [],
     m_is_has_firtlife = False, m_is_has_secondelife = False\<rparr>"

fun loop_ret :: "('a \<Rightarrow> 's \<Rightarrow> ('s \<times> bool) option) \<Rightarrow> 'a list \<Rightarrow> 's \<Rightarrow> ('s \<times> bool) option" where
  "loop_ret f [] s = Some (s, False)"
| "loop_ret f (x # xs) s = do {
     (s', returned) \<leftarrow> f x s;
     if returned then Some (s', True) else loop_ret f xs s'
   }"

section \<open>\<^verbatim>\<open>search_all_group\<close>\<close>

text \<open>A combination without loose cards, and one whose remaining cards are loose.\<close>

definition full_comb :: "CardGroup list \<Rightarrow> CombinationInfo" where
  "full_comb groups = new_CombinationInfo\<lparr>m_card_group := groups,
     m_is_has_firtlife := True, m_is_has_secondelife := True\<rparr>"

definition loose_comb :: "int \<Rightarrow> bool \<Rightarrow> bool \<Rightarrow> CardGroup list \<Rightarrow> PokerCard list \<Rightarrow> CombinationInfo" where
  "loose_comb jp first second groups cards =
     (case gen_valid_card_group jp cards of (onegroup, score) \<Rightarrow>
        new_CombinationInfo\<lparr>m_score := score, m_card_group := groups @ [onegroup], m_valid_cards := cards,
          m_is_has_firtlife := first, m_is_has_secondelife := second\<rparr>)"

type_synonym search_state = "Combination \<times> CombinationInfo list"

text \<open>Lines 448 to 488: a fourth group, the rest is loose.\<close>

definition fourth_body :: "nat \<Rightarrow> CardGroup list \<Rightarrow> PokerCard list \<Rightarrow> CardGroup \<Rightarrow> search_state
    \<Rightarrow> (search_state \<times> bool) option" where
  "fourth_body stop groups cards3 it3 = (\<lambda>(self, combs).
     let cards4 = remove_cards it3 cards3 in
     if cards4 = [] then Some ((self, combs @ [full_comb (groups @ [it3])]), stop \<ge> 0)
     else if \<not> (length cards4 > 0 \<and> length cards4 < 3) then None
     else Some ((self, combs @ [loose_comb (m_joker_point self) True True (groups @ [it3]) cards4]),
       stop \<ge> 0 \<and> stop \<ge> length cards4))"

text \<open>Lines 404 to 489: a third group.\<close>

definition third_body :: "nat \<Rightarrow> CardGroup list \<Rightarrow> PokerCard list \<Rightarrow> CardGroup list \<Rightarrow> CardGroup \<Rightarrow> search_state
    \<Rightarrow> (search_state \<times> bool) option" where
  "third_body stop groups cards2 all_group2 it2 = (\<lambda>(self, combs).
     let cards3 = remove_cards it2 cards2 in
     if cards3 = [] then Some ((self, combs @ [full_comb (groups @ [it2])]), stop \<ge> 0)
     else do {
       all_group3 \<leftarrow> remove_card_group cards3 all_group2;
       if all_group3 = [] then
         Some ((self, combs @ [loose_comb (m_joker_point self) True True (groups @ [it2]) cards3]),
           stop \<ge> 0 \<and> stop \<ge> length cards3)
       else loop_ret (fourth_body stop (groups @ [it2]) cards3) all_group3 (self, combs)
     })"

text \<open>Lines 353 to 490: a second straight; the object now holds the jokers of the rest.\<close>

definition set_jokers :: "PokerCard list \<Rightarrow> Combination \<Rightarrow> Combination" where
  "set_jokers jokers self = self\<lparr>m_joker_cards := jokers,
     m_joker_combines := caculate_all_cards_combines jokers 1 (length jokers)\<rparr>"

definition second_body :: "nat \<Rightarrow> CardGroup \<Rightarrow> PokerCard list \<Rightarrow> PokerCard list \<Rightarrow> CardGroup \<Rightarrow> search_state
    \<Rightarrow> (search_state \<times> bool) option" where
  "second_body stop it cards1 joker_cards1 itSecond = (\<lambda>(self, combs).
     let cards2 = remove_cards itSecond cards1;
         joker_cards2 = remove_cards itSecond joker_cards1
     in if cards2 = [] then Some ((self, combs @ [full_comb [it, itSecond]]), stop \<ge> 0)
     else
       let self = (if m_joker_cards self \<noteq> joker_cards2 then set_jokers joker_cards2 self else self)
       in do {
         straights \<leftarrow> search_straight_flush self cards2;
         kinds \<leftarrow> search_three_of_kind self cards2;
         let all_group2 = straights @ kinds;
         if all_group2 = [] then
           Some ((self, combs @ [loose_comb (m_joker_point self) True True [it, itSecond] cards2]),
             stop \<ge> 0 \<and> stop \<ge> length cards2)
         else loop_ret (third_body stop [it, itSecond] cards2 all_group2) all_group2 (self, combs)
       })"

text \<open>Lines 324 to 491: a first, pure straight. A hand that is one pure straight is skipped.\<close>

definition first_body :: "nat \<Rightarrow> PokerCard list \<Rightarrow> PokerCard list \<Rightarrow> CardGroup list \<Rightarrow> CardGroup \<Rightarrow> search_state
    \<Rightarrow> (search_state \<times> bool) option" where
  "first_body stop all_cards all_joker_cards strai_group it = (\<lambda>(self, combs).
     let cards1 = remove_cards it all_cards;
         joker_cards1 = remove_cards it all_joker_cards
     in if cards1 = [] then Some ((self, combs), False)
     else do {
       secondlife_group \<leftarrow> remove_card_group cards1 strai_group;
       if secondlife_group = [] then
         Some ((self, combs @ [loose_comb (m_joker_point self) True False [it] cards1]), False)
       else loop_ret (second_body stop it cards1 joker_cards1) secondlife_group (self, combs)
     })"

definition search_all_group :: "nat \<Rightarrow> PokerCard list \<Rightarrow> search_state \<Rightarrow> search_state option" where
  "search_all_group stop all_cards = (\<lambda>(self, combs).
     let all_joker_cards = search_joker_cards (m_joker_point self) all_cards;
         self = set_jokers all_joker_cards self
     in do {
       strai_group \<leftarrow> search_straight_flush self all_cards;
       let fistlife_group = search_pure_straight_flush strai_group;
       if fistlife_group = [] then
         Some (self, combs @ [loose_comb (m_joker_point self) False False [] all_cards])
       else map_option fst
         (loop_ret (first_body stop all_cards all_joker_cards strai_group) fistlife_group (self, combs))
     })"

section \<open>\<^verbatim>\<open>default_declare\<close>\<close>

fun least_score :: "CombinationInfo \<Rightarrow> int \<Rightarrow> CombinationInfo list \<Rightarrow> CombinationInfo \<times> int" where
  "least_score it_min score [] = (it_min, score)"
| "least_score it_min score (it # combs) =
     (if m_score it < score then least_score it (m_score it) combs else least_score it_min score combs)"

definition default_declare :: "Combination \<Rightarrow> PokerCard list \<Rightarrow> int \<Rightarrow> (Combination \<times> int \<times> CardGroup list) option" where
  "default_declare self hand_card joker_point = do {
     (self, card_combs) \<leftarrow> search_all_group 0 hand_card (self\<lparr>m_joker_point := joker_point\<rparr>, []);
     if card_combs = [] then None
     else if m_score (last card_combs) = 0 then
       Some (self, m_score (last card_combs), m_card_group (last card_combs))
     else case least_score (hd card_combs) (m_score (hd card_combs)) card_combs of
       (it_min, score) \<Rightarrow> Some (self, score, m_card_group it_min)
   }"

section \<open>\<^verbatim>\<open>post_best_card\<close>\<close>

definition sort_combine_func :: "CombinationInfo \<Rightarrow> CombinationInfo \<Rightarrow> bool" where
  "sort_combine_func left_comb right_comb =
     (if m_is_has_firtlife left_comb = m_is_has_firtlife right_comb then
        if m_is_has_firtlife left_comb \<and> m_is_has_secondelife left_comb \<noteq> m_is_has_secondelife right_comb
        then m_is_has_secondelife left_comb
        else if length (m_valid_cards left_comb) \<noteq> length (m_valid_cards right_comb)
        then length (m_valid_cards left_comb) < length (m_valid_cards right_comb)
        else False
      else m_is_has_firtlife left_comb)"

text \<open>
  \<^verbatim>\<open>post_valid_group_bigest_card\<close>: in each group of four cards or more the last joker if there is
  at most one other card, else the last other card; of these the first with the greatest score.
\<close>

fun last_two_kinds :: "int \<Rightarrow> nat \<Rightarrow> PokerCard \<Rightarrow> PokerCard \<Rightarrow> PokerCard list \<Rightarrow> nat \<times> PokerCard \<times> PokerCard" where
  "last_two_kinds jp nonjoker_count itnojoker itjoker [] = (nonjoker_count, itnojoker, itjoker)"
| "last_two_kinds jp nonjoker_count itnojoker itjoker (c # cs) =
     (if is_joker jp c then last_two_kinds jp nonjoker_count itnojoker c cs
      else last_two_kinds jp (nonjoker_count + 1) c itjoker cs)"

definition group_post_card :: "int \<Rightarrow> PokerCard list \<Rightarrow> PokerCard" where
  "group_post_card jp cards =
     (let list_cards = sort cards in
      case last_two_kinds jp 0 (hd list_cards) (hd list_cards) list_cards of
        (nonjoker_count, itnojoker, itjoker) \<Rightarrow> if nonjoker_count \<le> 1 then itjoker else itnojoker)"

fun bigest_card_loop :: "int \<Rightarrow> int \<Rightarrow> PokerCard \<Rightarrow> CardGroup list \<Rightarrow> PokerCard" where
  "bigest_card_loop jp score card1 [] = card1"
| "bigest_card_loop jp score card1 (g # gs) =
     (if length (m_cards g) < 4 then bigest_card_loop jp score card1 gs
      else let itpost = group_post_card jp (m_cards g) in
        if get_score jp itpost > score then bigest_card_loop jp (get_score jp itpost) itpost gs
        else bigest_card_loop jp score card1 gs)"

definition post_valid_group_bigest_card :: "CardGroup list \<Rightarrow> int \<Rightarrow> PokerCard \<Rightarrow> PokerCard" where
  "post_valid_group_bigest_card card_groups joker_point card1 = bigest_card_loop joker_point (- 1) card1 card_groups"

text \<open>\<^verbatim>\<open>caculate_cards_relation\<close> on cards with their degrees: the pairs of line 246, then the ace.\<close>

record CardRelation =
  r_card :: PokerCard
  m_relate_degree :: int

definition add_degree :: "int \<Rightarrow> CardRelation \<Rightarrow> CardRelation" where
  "add_degree n r = r\<lparr>m_relate_degree := m_relate_degree r + n\<rparr>"

text \<open>The points for a pair, \<open>None\<close> where the inner loop breaks.\<close>

definition pair_degree :: "PokerCard \<Rightarrow> PokerCard \<Rightarrow> int option" where
  "pair_degree it it_next =
     (if m_point it_next = m_point it then Some 2
      else if \<bar>pt it_next - pt it\<bar> = 2 \<and> m_color it_next = m_color it then Some 3
      else if \<bar>pt it_next - pt it\<bar> = 1 \<and> m_color it_next = m_color it then Some 4
      else if \<bar>pt it_next - pt it\<bar> > 2 then None
      else Some 0)"

fun relate_next :: "CardRelation \<Rightarrow> CardRelation list \<Rightarrow> CardRelation \<times> CardRelation list" where
  "relate_next it [] = (it, [])"
| "relate_next it (r # rs) =
     (case pair_degree (r_card it) (r_card r) of
        None \<Rightarrow> (it, r # rs)
      | Some n \<Rightarrow> (case relate_next (add_degree n it) rs of (it', rs') \<Rightarrow> (it', add_degree n r # rs')))"

text \<open>The second loop of the body, from the front of the vector while the point is at most 3.\<close>

fun relate_ace :: "CardRelation \<Rightarrow> CardRelation list \<Rightarrow> CardRelation \<times> CardRelation list" where
  "relate_ace it [] = (it, [])"
| "relate_ace it (r # rs) =
     (if \<not> m_point (r_card r) \<le> 3 then (it, r # rs)
      else
        let n = (if m_color (r_card r) = m_color (r_card it) \<and> m_point (r_card r) = P2 then 4
                 else if m_color (r_card r) = m_color (r_card it) \<and> m_point (r_card r) = P3 then 3 else 0)
        in case relate_ace (add_degree n it) rs of (it', rs') \<Rightarrow> (it', add_degree n r # rs'))"

lemma length_relate_next [simp]: "length (snd (relate_next it rs)) = length rs"
  by (induction rs arbitrary: it) (auto split: option.splits prod.splits, metis snd_conv)

text \<open>
  The outer loop: \<open>front\<close> is what it has passed. The ace itself is not below 4, so the loop over
  the front part stops at the latest there and never meets \<^verbatim>\<open>it\<close> itself.
\<close>

function relation_loop :: "CardRelation list \<Rightarrow> CardRelation list \<Rightarrow> CardRelation list" where
  "relation_loop front [] = front"
| "relation_loop front (it # rest) =
     (case relate_next it rest of (it, rest) \<Rightarrow>
        if m_point (r_card it) = PA then
          (case relate_ace it front of (it, front) \<Rightarrow> relation_loop (front @ [it]) rest)
        else relation_loop (front @ [it]) rest)"
  by pat_completeness auto
termination
  by (relation "measure (\<lambda>(front, rest). length rest)")
    (auto dest: arg_cong [where f = "\<lambda>p. length (snd p)"])

definition caculate_cards_relation :: "CardRelation list \<Rightarrow> CardRelation list" where
  "caculate_cards_relation card_relatin = relation_loop [] card_relatin"

text \<open>\<^verbatim>\<open>post_less_relation_card\<close>: its first loop splits the sorted cards into first and repeated ones.\<close>

fun split_relations :: "int \<Rightarrow> PokerCard list \<Rightarrow> CardRelation list \<Rightarrow> CardRelation list \<Rightarrow> CardRelation list \<times> CardRelation list" where
  "split_relations jp [] first rep = (first, rep)"
| "split_relations jp (c # cs) first rep =
     (if is_joker jp c then split_relations jp cs first rep
      else case cs of
          [] \<Rightarrow> (first @ [\<lparr>r_card = c, m_relate_degree = 0\<rparr>], rep)
        | d # ds \<Rightarrow>
            if d = c then split_relations jp cs first (rep @ [\<lparr>r_card = c, m_relate_degree = - 1\<rparr>])
            else split_relations jp cs (first @ [\<lparr>r_card = c, m_relate_degree = 0\<rparr>]) rep)"

fun least_related :: "int \<Rightarrow> CardRelation \<Rightarrow> CardRelation list \<Rightarrow> CardRelation" where
  "least_related jp it_min [] = it_min"
| "least_related jp it_min (it # rs) =
     (if m_relate_degree it < m_relate_degree it_min then least_related jp it rs
      else if m_relate_degree it = m_relate_degree it_min \<and>
          get_score jp (r_card it) > get_score jp (r_card it_min) then least_related jp it rs
      else least_related jp it_min rs)"

definition post_less_relation_card :: "PokerCard list \<Rightarrow> int \<Rightarrow> PokerCard option" where
  "post_less_relation_card hand_card joker_point =
     (if hand_card = [] then None
      else let cards = sort hand_card in
        case split_relations joker_point cards [] [] of
          (first_cards, repeat_cards) \<Rightarrow>
            if first_cards = [] then Some (last cards)
            else
              let all_rel = caculate_cards_relation first_cards @ caculate_cards_relation repeat_cards
              in Some (r_card (least_related joker_point (hd all_rel) (tl all_rel))))"

text \<open>
  The last loop of \<^verbatim>\<open>post_best_card\<close>, over the combinations that rank like the best one. The result
  is the card and the score.
\<close>

fun best_post_loop :: "int \<Rightarrow> CombinationInfo \<Rightarrow> int \<Rightarrow> PokerCard \<Rightarrow> CombinationInfo list \<Rightarrow> (PokerCard \<times> int) option" where
  "best_post_loop jp itmin min_score card1 [] = Some (card1, min_score)"
| "best_post_loop jp itmin min_score card1 (it # combs) =
     (if m_is_has_firtlife itmin \<noteq> m_is_has_firtlife it \<or> m_is_has_secondelife itmin \<noteq> m_is_has_secondelife it \<or>
         length (m_valid_cards itmin) \<noteq> length (m_valid_cards it)
      then Some (card1, min_score)
      else if m_valid_cards it = [] then Some (post_valid_group_bigest_card (m_card_group it) jp card1, 0)
      else do {
        postcard \<leftarrow> post_less_relation_card (m_valid_cards it) jp;
        let score = m_score it - get_score jp postcard;
        if score < min_score then best_post_loop jp it score postcard combs
        else best_post_loop jp itmin min_score card1 combs
      })"

definition post_best_card ::
    "((CombinationInfo \<Rightarrow> CombinationInfo \<Rightarrow> bool) \<Rightarrow> CombinationInfo list \<Rightarrow> CombinationInfo list)
      \<Rightarrow> Combination \<Rightarrow> PokerCard list \<Rightarrow> int \<Rightarrow> PokerCard \<Rightarrow> (Combination \<times> PokerCard \<times> int) option" where
  "post_best_card std_sort self hand_card joker_point card0 = do {
     (self, card_combs) \<leftarrow> search_all_group 1 hand_card (self\<lparr>m_joker_point := joker_point\<rparr>, []);
     if card_combs = [] then None
     else
       let card_combs = std_sort sort_combine_func card_combs;
           itmin = hd card_combs
       in if m_valid_cards itmin = [] then
            Some (self, post_valid_group_bigest_card (m_card_group itmin) joker_point card0, 0)
          else do {
            card1 \<leftarrow> post_less_relation_card (m_valid_cards itmin) joker_point;
            (card1, score) \<leftarrow> best_post_loop joker_point itmin (m_score itmin - get_score joker_point card1) card1 (tl card_combs);
            Some (self, card1, score)
          }
   }"

section \<open>What a combination is\<close>

definition group_in :: "int \<Rightarrow> PokerCard list \<Rightarrow> CardGroup \<Rightarrow> bool" where
  "group_in jp H g \<longleftrightarrow> straight_in jp H g \<or> kind_in jp H g"

definition cards_of :: "CardGroup list \<Rightarrow> PokerCard multiset" where
  "cards_of gs = (\<Sum>g\<leftarrow>gs. mset (m_cards g))"

lemma cards_of_simps [simp]:
  "cards_of [] = {#}" "cards_of (g # gs) = mset (m_cards g) + cards_of gs"
  "cards_of (gs @ hs) = cards_of gs + cards_of hs"
  by (simp_all add: cards_of_def)

text \<open>
  The groups of a combination: first a pure straight (the first life), then a straight (the
  second life), then any legal groups; in front of the loose cards.
\<close>

fun lives :: "int \<Rightarrow> bool \<Rightarrow> bool \<Rightarrow> CardGroup list \<Rightarrow> bool" where
  "lives jp first second [] \<longleftrightarrow> \<not> first \<and> \<not> second"
| "lives jp first second [g] \<longleftrightarrow>
     first \<and> \<not> second \<and> straight_ok jp g \<and> is_cards_pure_straight (sort (m_cards g))"
| "lives jp first second (g # h # gs) \<longleftrightarrow>
     first \<and> second \<and> straight_ok jp g \<and> is_cards_pure_straight (sort (m_cards g)) \<and> straight_ok jp h \<and>
     (\<forall>x\<in>set gs. straight_ok jp x \<or> kind_ok jp x)"

definition comb_ok :: "int \<Rightarrow> PokerCard list \<Rightarrow> CombinationInfo \<Rightarrow> bool" where
  "comb_ok jp H ci \<longleftrightarrow>
     (\<exists>gs. m_card_group ci = gs @ (if m_valid_cards ci = [] then []
             else [\<lparr>m_type = GROUP_INVALID, m_cards = m_valid_cards ci\<rparr>]) \<and>
        lives jp (m_is_has_firtlife ci) (m_is_has_secondelife ci) gs \<and> length gs \<le> 4) \<and>
     cards_of (m_card_group ci) = mset H \<and>
     m_score ci = caculate_card_score jp (m_valid_cards ci) \<and>
     (m_valid_cards ci = [] \<longrightarrow> m_is_has_secondelife ci)"

lemma full_comb_ok:
  assumes "lives jp True True gs" and "length gs \<le> 4" and "cards_of gs = mset H"
  shows "comb_ok jp H (full_comb gs)"
  using assms by (simp add: comb_ok_def full_comb_def new_CombinationInfo_def)

lemma loose_comb_ok:
  assumes "lives jp first second gs" and "length gs \<le> 4" and "cs \<noteq> []" and "cards_of gs + mset cs = mset H"
  shows "comb_ok jp H (loose_comb jp first second gs cs)"
  using assms by (simp add: comb_ok_def loose_comb_def gen_valid_card_group_def new_CombinationInfo_def)

lemma pure_not_all_jokers:
  assumes "is_cards_pure_straight cs"
  shows "\<not> (\<forall>c\<in>set cs. is_joker jp c)"
proof
  assume all: "\<forall>c\<in>set cs. is_joker jp c"
  obtain c d ds where cs: "cs = c # d # ds"
    using assms by (cases cs rule: remdups_adj.cases) auto
  have "step_up c d \<or> pt c < 15 \<and> pt c \<noteq> 13 \<and> pt d = 14 \<and> pt c = 2"
    using assms unfolding cs is_cards_pure_straight_iff by auto
  with all show False unfolding cs by (auto simp: step_up_def is_joker_iff)
qed

lemma pure_straight_sort:
  assumes "straight_in jp H g" and "is_cards_pure_straight (m_cards g)"
  shows "is_cards_pure_straight (sort (m_cards g))"
  using assms pure_not_all_jokers [OF assms(2), of jp] by (auto simp: straight_in_def sort_key_id_if_sorted)

lemma group_in_mono: "group_in jp G g \<Longrightarrow> mset G \<subseteq># mset H \<Longrightarrow> group_in jp H g"
  by (auto simp: group_in_def straight_in_def kind_in_def intro: subset_mset.order_trans)

lemma group_in_le: "group_in jp H g \<Longrightarrow> mset (m_cards g) \<subseteq># mset H"
  by (auto simp: group_in_def straight_in_def kind_in_def)

lemma group_in_length: "group_in jp H g \<Longrightarrow> 3 \<le> length (m_cards g)"
  by (auto simp: group_in_def straight_in_def kind_in_def kind_ok_def dest: straight_ok_length)

lemma legal_no_default: "legal_hand H \<Longrightarrow> default_card \<notin> set H"
  using legal_hand_card(3) by blast

text \<open>The groups that are still in the rest of the hand.\<close>

lemma remove_card_group_ok:
  assumes "legal_hand H" and "mset cs \<subseteq># mset H" and "\<forall>g\<in>set gs. mset (m_cards g) \<subseteq># mset H"
  shows "remove_card_group cs gs = Some (filter (\<lambda>g. mset (m_cards g) \<subseteq># mset cs) gs)"
proof (rule remove_card_group_eq)
  have "legal_hand cs" using legal_hand_mono [OF assms(1,2)] .
  then show "length cs \<le> MAX_CARD_COUNT" "default_card \<notin> set cs"
    by (simp_all add: legal_hand_def legal_no_default)
  show "\<forall>g\<in>set gs. default_card \<notin> set (m_cards g)"
    using assms(3) legal_no_default [OF assms(1)] mset_subset_eqD set_mset_mset by metis
qed

section \<open>The loops\<close>

lemma loop_ret_inv:
  assumes "\<And>x s. x \<in> set xs \<Longrightarrow> P s \<Longrightarrow> \<exists>s' r. f x s = Some (s', r) \<and> P s'" and "P s"
  shows "\<exists>s' r. loop_ret f xs s = Some (s', r) \<and> P s'"
  using assms
proof (induction xs arbitrary: s)
  case Nil
  then show ?case by auto
next
  case (Cons x xs)
  from Cons.prems obtain s1 r where s1: "f x s = Some (s1, r)" "P s1" by fastforce
  show ?case
  proof (cases r)
    case True
    with s1 show ?thesis by auto
  next
    case False
    with s1 Cons.IH [of s1] Cons.prems(1) show ?thesis by auto
  qed
qed

text \<open>All combinations found so far are good, and the object knows the jokers it names.\<close>

definition state_ok :: "int \<Rightarrow> PokerCard list \<Rightarrow> search_state \<Rightarrow> bool" where
  "state_ok jp H st \<longleftrightarrow> m_joker_point (fst st) = jp \<and>
     m_joker_combines (fst st) = caculate_all_cards_combines (m_joker_cards (fst st)) 1 (length (m_joker_cards (fst st))) \<and>
     (\<forall>ci\<in>set (snd st). comb_ok jp H ci)"

lemma state_ok_append:
  "state_ok jp H (self, combs) \<Longrightarrow> comb_ok jp H ci \<Longrightarrow> state_ok jp H (self, combs @ [ci])"
  by (simp add: state_ok_def)

lemma fourth_body_ok:
  assumes st: "state_ok jp H (self, combs)" and legal: "legal_hand H"
    and pre: "lives jp True True gs" "length gs = 3" "cards_of gs + mset cards3 = mset H" "\<forall>g\<in>set gs. 3 \<le> length (m_cards g)"
    and g: "group_in jp cards3 it3"
  shows "\<exists>st' r. fourth_body stop gs cards3 it3 (self, combs) = Some (st', r) \<and> state_ok jp H st'"
proof -
  let ?c4 = "remove_cards it3 cards3"
  have c4: "mset (m_cards it3) + mset ?c4 = mset cards3"
    using mset_remove_cards_add [OF group_in_le [OF g]] .
  have lv: "lives jp True True (gs @ [it3])" "length (gs @ [it3]) \<le> 4"
    using pre(1,2) g by (auto simp: group_in_def straight_in_def kind_in_def length_Suc_conv eval_nat_numeral)
  have sum: "cards_of (gs @ [it3]) + mset ?c4 = mset H"
    using pre(3) c4 by (simp add: add.assoc)
  have "size (cards_of gs) \<ge> 9"
    using pre(2,4) by (auto simp: length_Suc_conv eval_nat_numeral)
  moreover have "size (cards_of (gs @ [it3]) + mset ?c4) = length H" unfolding sum by simp
  ultimately have "length ?c4 \<le> 2"
    using legal group_in_length [OF g] by (simp add: legal_hand_def MAX_CARD_COUNT_def)
  moreover have jp: "m_joker_point self = jp" using st by (simp add: state_ok_def)
  ultimately show ?thesis
    using state_ok_append [OF st full_comb_ok [OF lv]] state_ok_append [OF st loose_comb_ok [OF lv _ sum]] sum
    by (cases "?c4 = []") (auto simp: fourth_body_def Let_def)
qed

lemma third_body_ok:
  assumes st: "state_ok jp H (self, combs)" and legal: "legal_hand H"
    and pre: "lives jp True True gs" "length gs = 2" "cards_of gs + mset cards2 = mset H" "\<forall>g\<in>set gs. 3 \<le> length (m_cards g)"
    and all: "\<forall>g\<in>set all_group2. group_in jp cards2 g" and it2: "it2 \<in> set all_group2"
  shows "\<exists>st' r. third_body stop gs cards2 all_group2 it2 (self, combs) = Some (st', r) \<and> state_ok jp H st'"
proof -
  let ?c3 = "remove_cards it2 cards2"
  from all it2 have g: "group_in jp cards2 it2" by blast
  have c3: "mset (m_cards it2) + mset ?c3 = mset cards2"
    using mset_remove_cards_add [OF group_in_le [OF g]] .
  have lv: "lives jp True True (gs @ [it2])" "length (gs @ [it2]) = 3"
    using pre(1,2) g by (auto simp: group_in_def straight_in_def kind_in_def length_Suc_conv eval_nat_numeral)
  have sum: "cards_of (gs @ [it2]) + mset ?c3 = mset H"
    using pre(3) c3 by (simp add: add.assoc)
  have len: "\<forall>g\<in>set (gs @ [it2]). 3 \<le> length (m_cards g)" using pre(4) group_in_length [OF g] by auto
  have jp: "m_joker_point self = jp" using st by (simp add: state_ok_def)
  show ?thesis
  proof (cases "?c3 = []")
    case True
    then show ?thesis
      using state_ok_append [OF st full_comb_ok [OF lv(1)]] lv(2) sum by (auto simp: third_body_def Let_def)
  next
    case ne: False
    have H2: "legal_hand cards2" using legal_hand_mono [OF legal] pre(3) by (metis mset_subset_eq_add_right)
    have "mset ?c3 \<subseteq># mset cards2" using c3 by (metis mset_subset_eq_add_right)
    then have rem: "remove_card_group ?c3 all_group2 = Some (filter (\<lambda>g. mset (m_cards g) \<subseteq># mset ?c3) all_group2)"
      using all group_in_le by (intro remove_card_group_ok [OF H2]) auto
    let ?g3 = "filter (\<lambda>g. mset (m_cards g) \<subseteq># mset ?c3) all_group2"
    show ?thesis
    proof (cases "?g3 = []")
      case True
      then show ?thesis
        using ne rem jp state_ok_append [OF st loose_comb_ok [OF lv(1) _ ne sum]] lv(2)
        by (simp add: third_body_def Let_def)
    next
      case False
      have "\<exists>st' r. loop_ret (fourth_body stop (gs @ [it2]) ?c3) ?g3 (self, combs) = Some (st', r) \<and> state_ok jp H st'"
      proof (rule loop_ret_inv [where P = "state_ok jp H", OF _ st])
        fix g st assume "g \<in> set ?g3" and s: "state_ok jp H st"
        then have "group_in jp ?c3 g" using all by (auto simp: group_in_def straight_in_def kind_in_def)
        with fourth_body_ok [of jp H "fst st" "snd st"] s legal lv sum len
        show "\<exists>st' r. fourth_body stop (gs @ [it2]) ?c3 g st = Some (st', r) \<and> state_ok jp H st'" by simp
      qed
      with ne rem False show ?thesis by (simp add: third_body_def Let_def)
    qed
  qed
qed

lemma set_jokers_ok:
  "state_ok jp H (self, combs) \<Longrightarrow> state_ok jp H (set_jokers js self, combs)"
  by (simp add: state_ok_def set_jokers_def)

lemma search_ok_set_jokers: "js = search_joker_cards (m_joker_point self) H \<Longrightarrow> search_ok (set_jokers js self) H"
  by (simp add: search_ok_def set_jokers_def)

lemma second_body_ok:
  assumes st: "state_ok jp H (self, combs)" and legal: "legal_hand H"
    and it: "straight_ok jp it" "is_cards_pure_straight (sort (m_cards it))" "mset (m_cards it) + mset cards1 = mset H"
    and j1: "joker_cards1 = search_joker_cards jp cards1"
    and g: "straight_in jp cards1 itSecond"
  shows "\<exists>st' r. second_body stop it cards1 joker_cards1 itSecond (self, combs) = Some (st', r) \<and> state_ok jp H st'"
proof -
  let ?c2 = "remove_cards itSecond cards1" and ?j2 = "remove_cards itSecond joker_cards1"
  have le: "mset (m_cards itSecond) \<subseteq># mset cards1" using g by (simp add: straight_in_def)
  have lv: "lives jp True True [it, itSecond]" using it(1,2) g by (simp add: straight_in_def)
  have sum: "cards_of [it, itSecond] + mset ?c2 = mset H"
    using it(3) mset_remove_cards_add [OF le] by (simp add: add.assoc)
  have len: "\<forall>g\<in>set [it, itSecond]. 3 \<le> length (m_cards g)"
    using it(1) g by (auto simp: straight_in_def dest: straight_ok_length)
  show ?thesis
  proof (cases "?c2 = []")
    case True
    then show ?thesis
      using state_ok_append [OF st full_comb_ok [OF lv]] sum by (auto simp: second_body_def Let_def)
  next
    case ne: False
    define self' where "self' = (if m_joker_cards self \<noteq> ?j2 then set_jokers ?j2 self else self)"
    have st': "state_ok jp H (self', combs)" using st set_jokers_ok by (simp add: self'_def)
    have jp: "m_joker_point self' = jp" using st' by (simp add: state_ok_def)
    have "?j2 = search_joker_cards jp ?c2" by (simp add: j1 search_joker_cards_def filter_remove_cards)
    then have ok: "search_ok self' ?c2"
      using st by (auto simp: self'_def search_ok_def set_jokers_def state_ok_def)
    have H2: "legal_hand ?c2" using legal_hand_mono [OF legal] sum by (metis mset_subset_eq_add_right)
    obtain straights where s: "search_straight_flush self' ?c2 = Some straights" "\<forall>g\<in>set straights. straight_in jp ?c2 g"
      using search_straight_flush_ok [OF ok jp H2] by blast
    obtain kinds where k: "search_three_of_kind self' ?c2 = Some kinds" "\<forall>g\<in>set kinds. kind_in jp ?c2 g"
      using search_three_of_kind_ok [OF ok jp H2] by blast
    have all: "\<forall>g\<in>set (straights @ kinds). group_in jp ?c2 g" using s(2) k(2) by (auto simp: group_in_def)
    have body: "second_body stop it cards1 joker_cards1 itSecond (self, combs) =
        (if straights @ kinds = [] then
           Some ((self', combs @ [loose_comb (m_joker_point self') True True [it, itSecond] ?c2]),
             stop \<ge> 0 \<and> stop \<ge> length ?c2)
         else loop_ret (third_body stop [it, itSecond] ?c2 (straights @ kinds)) (straights @ kinds) (self', combs))"
      using ne s(1) k(1) by (simp add: second_body_def Let_def self'_def)
    show ?thesis
    proof (cases "straights @ kinds = []")
      case True
      with body jp state_ok_append [OF st' loose_comb_ok [OF lv _ ne sum]] show ?thesis by auto
    next
      case False
      have "\<exists>st' r. loop_ret (third_body stop [it, itSecond] ?c2 (straights @ kinds)) (straights @ kinds) (self', combs) =
          Some (st', r) \<and> state_ok jp H st'"
      proof (rule loop_ret_inv [where P = "state_ok jp H", OF _ st'])
        fix g st assume "g \<in> set (straights @ kinds)" and "state_ok jp H st"
        with third_body_ok [of jp H "fst st" "snd st" "[it, itSecond]" ?c2 "straights @ kinds" g stop] legal lv sum len all
        show "\<exists>st' r. third_body stop [it, itSecond] ?c2 (straights @ kinds) g st = Some (st', r) \<and> state_ok jp H st'"
          by simp
      qed
      then show ?thesis unfolding body if_not_P [OF False] .
    qed
  qed
qed

lemma first_body_ok:
  assumes st: "state_ok jp H (self, combs)" and legal: "legal_hand H"
    and gs: "\<forall>g\<in>set strai_group. straight_in jp H g"
    and it: "it \<in> set strai_group" "is_cards_pure_straight (m_cards it)"
  shows "\<exists>st' r. first_body stop H (search_joker_cards jp H) strai_group it (self, combs) = Some (st', r) \<and> state_ok jp H st'"
proof -
  let ?c1 = "remove_cards it H"
  have g: "straight_in jp H it" using gs it(1) by blast
  then have le: "mset (m_cards it) \<subseteq># mset H" by (simp add: straight_in_def)
  have sum: "mset (m_cards it) + mset ?c1 = mset H" using mset_remove_cards_add [OF le] .
  have pure: "straight_ok jp it" "is_cards_pure_straight (sort (m_cards it))"
    using g pure_straight_sort [OF g it(2)] by (simp_all add: straight_in_def)
  have jp: "m_joker_point self = jp" using st by (simp add: state_ok_def)
  show ?thesis
  proof (cases "?c1 = []")
    case True
    then show ?thesis using st by (auto simp: first_body_def Let_def)
  next
    case ne: False
    let ?g2 = "filter (\<lambda>g. mset (m_cards g) \<subseteq># mset ?c1) strai_group"
    have rem: "remove_card_group ?c1 strai_group = Some ?g2"
      using gs sum by (intro remove_card_group_ok [OF legal]) (auto simp: straight_in_def, metis mset_subset_eq_add_right)
    show ?thesis
    proof (cases "?g2 = []")
      case True
      have "lives jp True False [it]" using pure by simp
      from state_ok_append [OF st loose_comb_ok [OF this _ ne]] sum ne rem True jp
      show ?thesis by (auto simp: first_body_def Let_def)
    next
      case False
      have j1: "remove_cards it (search_joker_cards jp H) = search_joker_cards jp ?c1"
        by (simp add: search_joker_cards_def filter_remove_cards)
      have "\<exists>st' r. loop_ret (second_body stop it ?c1 (remove_cards it (search_joker_cards jp H))) ?g2 (self, combs) =
          Some (st', r) \<and> state_ok jp H st'"
      proof (rule loop_ret_inv [where P = "state_ok jp H", OF _ st])
        fix g st assume "g \<in> set ?g2" and "state_ok jp H st"
        with second_body_ok [of jp H "fst st" "snd st" it ?c1 _ g stop] legal pure sum j1 gs
        show "\<exists>st' r. second_body stop it ?c1 (remove_cards it (search_joker_cards jp H)) g st = Some (st', r) \<and> state_ok jp H st'"
          by (auto simp: straight_in_def)
      qed
      with ne rem False show ?thesis by (simp add: first_body_def Let_def)
    qed
  qed
qed

lemma search_all_group_ok:
  assumes legal: "legal_hand H" and ne: "H \<noteq> []" and jp: "m_joker_point self = jp"
  shows "\<exists>self' combs. search_all_group stop H (self, []) = Some (self', combs) \<and> (\<forall>ci\<in>set combs. comb_ok jp H ci)"
proof -
  let ?js = "search_joker_cards jp H"
  let ?self = "set_jokers ?js self"
  have ok: "search_ok ?self H" "m_joker_point ?self = jp"
    using jp by (simp_all add: search_ok_def set_jokers_def)
  have st: "state_ok jp H (?self, [])" using jp by (simp add: state_ok_def set_jokers_def)
  obtain gs where gs: "search_straight_flush ?self H = Some gs" "\<forall>g\<in>set gs. straight_in jp H g"
    using search_straight_flush_ok [OF ok legal] by blast
  have eq: "search_all_group stop H (self, []) =
      (if search_pure_straight_flush gs = [] then Some (?self, [loose_comb jp False False [] H])
       else map_option fst (loop_ret (first_body stop H ?js gs) (search_pure_straight_flush gs) (?self, [])))"
    using gs(1) jp ok(2) by (simp add: search_all_group_def Let_def)
  show ?thesis
  proof (cases "search_pure_straight_flush gs = []")
    case True
    have "comb_ok jp H (loose_comb jp False False [] H)"
      using ne by (intro loose_comb_ok) simp_all
    with eq True show ?thesis by auto
  next
    case False
    have "\<exists>st' r. loop_ret (first_body stop H ?js gs) (search_pure_straight_flush gs) (?self, []) = Some (st', r) \<and> state_ok jp H st'"
    proof (rule loop_ret_inv [where P = "state_ok jp H", OF _ st])
      fix g st assume "g \<in> set (search_pure_straight_flush gs)" and "state_ok jp H st"
      with first_body_ok [of jp H "fst st" "snd st" gs g stop] legal gs(2)
      show "\<exists>st' r. first_body stop H ?js gs g st = Some (st', r) \<and> state_ok jp H st'"
        by (simp add: search_pure_straight_flush_def)
    qed
    with eq False show ?thesis by (auto simp: state_ok_def)
  qed
qed

section \<open>A combination is a declaration\<close>

definition big_set :: "CardGroup \<Rightarrow> bool" where
  "big_set g \<longleftrightarrow> m_type g = GROUP_THREE_KIND \<and> length (m_cards g) > 4"

lemma legal_group_checks:
  "straight_ok jp g \<or> kind_ok jp g \<Longrightarrow> \<not> big_set g \<Longrightarrow>
   group_checks jp g \<and> (m_type g = GROUP_STAIGHT \<or> m_type g = GROUP_THREE_KIND)"
  using kind_ok_check [of jp g] by (auto simp: group_checks_def straight_ok_def kind_ok_def big_set_def)

lemma lives_groups:
  "lives jp first second gs \<Longrightarrow> g \<in> set gs \<Longrightarrow> straight_ok jp g \<or> kind_ok jp g"
  by (induction jp first second gs rule: lives.induct) auto

lemma lives_counts:
  assumes "lives jp first second gs"
  shows "gs \<noteq> [] \<longrightarrow> 1 \<le> length (pure_groups (gs @ hs))"
    and "second \<longrightarrow> 2 \<le> length (straight_groups (gs @ hs)) \<and> gs \<noteq> []"
    and "\<not> second \<longrightarrow> (\<forall>g\<in>set gs. m_type g = GROUP_STAIGHT)"
  using assms by (cases gs rule: remdups_adj.cases; auto simp: pure_groups_def straight_groups_def straight_ok_def)+

lemma comb_lose_declare:
  assumes ok: "comb_ok jp H ci" and small: "\<forall>g\<in>set (m_card_group ci). \<not> big_set g"
  shows "check_lose_declare (m_card_group ci) jp = (True, m_score ci)"
proof -
  define v where "v = (if m_valid_cards ci = [] then [] else [\<lparr>m_type = GROUP_INVALID, m_cards = m_valid_cards ci\<rparr>])"
  obtain gs where gs: "m_card_group ci = gs @ v" "lives jp (m_is_has_firtlife ci) (m_is_has_secondelife ci) gs"
    "m_score ci = caculate_card_score jp (m_valid_cards ci)"
    using ok by (auto simp: comb_ok_def v_def)
  note counts = lives_counts [OF gs(2)]
  have vt: "\<forall>g\<in>set v. m_type g = GROUP_INVALID" by (simp add: v_def)
  have g: "group_checks jp x \<and> lives_ok jp (length (pure_groups (gs @ v))) (length (straight_groups (gs @ v))) x"
    if "x \<in> set (gs @ v)" for x
  proof (cases "x \<in> set v")
    case True
    with vt show ?thesis by (auto simp: group_checks_def lives_ok_def)
  next
    case False
    with that have x: "x \<in> set gs" by simp
    from legal_group_checks [OF lives_groups [OF gs(2) x]] small gs(1) x
    have chk: "group_checks jp x" "m_type x = GROUP_STAIGHT \<or> m_type x = GROUP_THREE_KIND" by auto
    have pure: "1 \<le> length (pure_groups (gs @ v))" using counts(1) [of v] x by (metis empty_iff empty_set)
    show ?thesis
    proof (cases "m_type x = GROUP_STAIGHT")
      case True
      with chk pure show ?thesis by (simp add: lives_ok_def)
    next
      case kind: False
      with counts(3) x have "m_is_has_secondelife ci" by blast
      with counts(2) [of v] chk pure kind show ?thesis by (auto simp: lives_ok_def group_checks_def)
    qed
  qed
  then have acc: "fst (check_lose_declare (gs @ v) jp)" by (simp add: check_lose_declare_iff)
  have "filter (\<lambda>g. m_type g = GROUP_INVALID) gs = []"
    using lives_groups [OF gs(2)] by (force simp: filter_empty_conv straight_ok_def kind_ok_def)
  then have "loose_score jp (gs @ v) = m_score ci" using gs(3) by (simp add: loose_score_def v_def)
  with check_lose_declare_score [OF acc] acc gs(1) show ?thesis by (simp add: prod_eq_iff)
qed

lemma comb_win_declare:
  assumes ok: "comb_ok jp H ci"
  shows "is_groups_declare (m_card_group ci) jp \<longleftrightarrow>
    m_valid_cards ci = [] \<and> (\<forall>g\<in>set (m_card_group ci). \<not> big_set g)"
proof (cases "m_valid_cards ci = []")
  case False
  with ok show ?thesis by (auto simp: comb_ok_def is_groups_declare_iff)
next
  case True
  with ok have gs: "lives jp (m_is_has_firtlife ci) True (m_card_group ci)" by (auto simp: comb_ok_def)
  note counts = lives_counts(1,2) [OF gs, of "[]"]
  show ?thesis
  proof
    assume "is_groups_declare (m_card_group ci) jp"
    then have "\<forall>g\<in>set (m_card_group ci). group_checks jp g" by (simp add: is_groups_declare_iff)
    with lives_groups [OF gs] kind_ok_check have "\<forall>g\<in>set (m_card_group ci). \<not> big_set g"
      by (fastforce simp: group_checks_def big_set_def straight_ok_def)
    with True show "m_valid_cards ci = [] \<and> (\<forall>g\<in>set (m_card_group ci). \<not> big_set g)" by simp
  next
    assume "m_valid_cards ci = [] \<and> (\<forall>g\<in>set (m_card_group ci). \<not> big_set g)"
    with legal_group_checks lives_groups [OF gs]
    have "\<forall>g\<in>set (m_card_group ci). group_checks jp g \<and> m_type g \<noteq> GROUP_INVALID" by fastforce
    with counts show "is_groups_declare (m_card_group ci) jp" by (auto simp: is_groups_declare_iff)
  qed
qed

section \<open>Every hand of four cards or more has a combination\<close>

text \<open>A body of a loop grows the list when it adds a combination.\<close>

definition grows :: "search_state \<Rightarrow> search_state \<Rightarrow> bool" where
  "grows st st' \<longleftrightarrow> length (snd st) < length (snd st')"

lemma loop_ret_grows:
  assumes "\<And>x s s' r. x \<in> set xs \<Longrightarrow> f x s = Some (s', r) \<Longrightarrow> grows s s' \<or> s' = s \<and> \<not> r"
    and "loop_ret f xs s = Some (s', r)"
  shows "grows s s' \<or> s' = s"
    and "\<exists>x\<in>set xs. \<forall>s s' r. f x s = Some (s', r) \<longrightarrow> grows s s' \<Longrightarrow> grows s s'"
  using assms
proof (induction xs arbitrary: s)
  case Nil
  { case 1 then show ?case by simp }
  { case 2 then show ?case by simp }
next
  case (Cons x xs)
  have step: "\<exists>s1 r1. f x s = Some (s1, r1) \<and> (if r1 then s' = s1 else loop_ret f xs s1 = Some (s', r))"
    if "loop_ret f (x # xs) s = Some (s', r)" for s
  proof -
    from that obtain s1 r1 where "f x s = Some (s1, r1)"
      "(if r1 then Some (s1, True) else loop_ret f xs s1) = Some (s', r)"
      by (auto simp: Option.bind_eq_Some_conv)
    then show ?thesis by (intro exI [of _ s1] exI [of _ r1]) (auto split: if_splits)
  qed
  { case 1
    obtain s1 r1 where s1: "f x s = Some (s1, r1)" "if r1 then s' = s1 else loop_ret f xs s1 = Some (s', r)"
      using step [OF 1(2)] by blast
    have one: "grows s s1 \<or> s1 = s \<and> \<not> r1" by (rule 1(1) [OF _ s1(1)]) simp
    show ?case
    proof (cases r1)
      case True
      with s1 one show ?thesis by auto
    next
      case False
      then have rest: "loop_ret f xs s1 = Some (s', r)" using s1(2) by simp
      have "grows s1 s' \<or> s' = s1"
        by (rule Cons.IH(1) [OF _ rest]) (meson 1(1) list.set_intros(2))
      with one show ?thesis by (auto simp: grows_def)
    qed }
  { case 2
    obtain s1 r1 where s1: "f x s = Some (s1, r1)" "if r1 then s' = s1 else loop_ret f xs s1 = Some (s', r)"
      using step [OF 2(3)] by blast
    have one: "grows s s1 \<or> s1 = s \<and> \<not> r1" by (rule 2(2) [OF _ s1(1)]) simp
    show ?case
    proof (cases r1)
      case True
      with s1 one show ?thesis by auto
    next
      case False
      then have rest: "loop_ret f xs s1 = Some (s', r)" using s1(2) by simp
      have weak: "grows s1 s' \<or> s' = s1"
        by (rule Cons.IH(1) [OF _ rest]) (meson 2(2) list.set_intros(2))
      from one show ?thesis
      proof
        assume "grows s s1"
        with weak show ?thesis by (auto simp: grows_def)
      next
        assume eq: "s1 = s \<and> \<not> r1"
        show ?thesis
        proof (cases "\<forall>s s' r. f x s = Some (s', r) \<longrightarrow> grows s s'")
          case True
          with s1(1) have "grows s s1" by blast
          with eq show ?thesis by (simp add: grows_def)
        next
          case no: False
          with 2(1) have "\<exists>y\<in>set xs. \<forall>s s' r. f y s = Some (s', r) \<longrightarrow> grows s s'" by auto
          then have "grows s1 s'" by (rule Cons.IH(2) [OF _ _ rest]) (meson 2(2) list.set_intros(2))
          with eq show ?thesis by simp
        qed
      qed
    qed }
qed

lemma grows_append [simp]: "grows (self, combs) (self', combs @ [ci])"
  by (simp add: grows_def)

lemma fourth_body_grows: "fourth_body stop gs cards3 g st = Some (st', r) \<Longrightarrow> grows st st'"
  by (cases st) (auto simp: fourth_body_def Let_def grows_def split: if_splits)

lemma third_body_grows: "third_body stop gs cards2 all2 g st = Some (st', r) \<Longrightarrow> grows st st'"
proof -
  assume b: "third_body stop gs cards2 all2 g st = Some (st', r)"
  obtain self combs where st: "st = (self, combs)" by fastforce
  show ?thesis
  proof (cases "\<exists>g3. g3 \<noteq> [] \<and>
      loop_ret (fourth_body stop (gs @ [g]) (remove_cards g cards2)) g3 (self, combs) = Some (st', r)")
    case True
    then obtain g3 where g3: "g3 \<noteq> []"
      "loop_ret (fourth_body stop (gs @ [g]) (remove_cards g cards2)) g3 (self, combs) = Some (st', r)" by blast
    have "\<exists>x\<in>set g3. \<forall>s s' r. fourth_body stop (gs @ [g]) (remove_cards g cards2) x s = Some (s', r) \<longrightarrow> grows s s'"
      using g3(1) fourth_body_grows by (cases g3) auto
    then show ?thesis unfolding st
      by (rule loop_ret_grows(2) [OF _ g3(2), rotated]) (blast dest: fourth_body_grows)
  next
    case False
    with b st show ?thesis by (auto simp: third_body_def Let_def split: bind_splits if_splits)
  qed
qed

lemma second_body_grows: "second_body stop it cards1 j1 g st = Some (st', r) \<Longrightarrow> grows st st'"
proof -
  assume b: "second_body stop it cards1 j1 g st = Some (st', r)"
  obtain self combs where st: "st = (self, combs)" by fastforce
  let ?c2 = "remove_cards g cards1"
  show ?thesis
  proof (cases "?c2 = []")
    case True
    with b st show ?thesis by (auto simp: second_body_def Let_def)
  next
    case False
    define self' where "self' = (if m_joker_cards self \<noteq> remove_cards g j1 then set_jokers (remove_cards g j1) self else self)"
    have "second_body stop it cards1 j1 g (self, combs) = do {
        straights \<leftarrow> search_straight_flush self' ?c2;
        kinds \<leftarrow> search_three_of_kind self' ?c2;
        if straights @ kinds = [] then
           Some ((self', combs @ [loose_comb (m_joker_point self') True True [it, g] ?c2]), stop \<ge> 0 \<and> stop \<ge> length ?c2)
         else loop_ret (third_body stop [it, g] ?c2 (straights @ kinds)) (straights @ kinds) (self', combs) }"
      unfolding second_body_def Let_def self'_def using False by simp
    with b st obtain straights kinds where
      body: "(if straights @ kinds = [] then
           Some ((self', combs @ [loose_comb (m_joker_point self') True True [it, g] ?c2]), stop \<ge> 0 \<and> stop \<ge> length ?c2)
         else loop_ret (third_body stop [it, g] ?c2 (straights @ kinds)) (straights @ kinds) (self', combs)) = Some (st', r)"
      by (auto simp only: Option.bind_eq_Some_conv)
    show ?thesis
    proof (cases "straights @ kinds = []")
      case True
      with body st show ?thesis by auto
    next
      case ne: False
      let ?f = "third_body stop [it, g] ?c2 (straights @ kinds)"
      from body ne have loop: "loop_ret ?f (straights @ kinds) (self', combs) = Some (st', r)" by (simp only: if_False)
      have "\<exists>x\<in>set (straights @ kinds). \<forall>s s' r. ?f x s = Some (s', r) \<longrightarrow> grows s s'"
        using ne third_body_grows by (metis last_in_set)
      then have "grows (self', combs) st'"
        by (rule loop_ret_grows(2) [OF _ loop, rotated]) (blast dest: third_body_grows)
      then show ?thesis by (simp add: st grows_def)
    qed
  qed
qed

lemma first_body_grows:
  assumes "first_body stop H js gs g st = Some (st', r)"
  shows "grows st st' \<or> st' = st \<and> \<not> r" and "remove_cards g H \<noteq> [] \<Longrightarrow> grows st st'"
proof -
  obtain self combs where st: "st = (self, combs)" by fastforce
  have "grows st st'" if "remove_cards g H \<noteq> []"
  proof (cases "\<exists>g2. g2 \<noteq> [] \<and>
      loop_ret (second_body stop g (remove_cards g H) (remove_cards g js)) g2 (self, combs) = Some (st', r)")
    case True
    then obtain g2 where g2: "g2 \<noteq> []"
      "loop_ret (second_body stop g (remove_cards g H) (remove_cards g js)) g2 (self, combs) = Some (st', r)" by blast
    have "\<exists>x\<in>set g2. \<forall>s s' r. second_body stop g (remove_cards g H) (remove_cards g js) x s = Some (s', r) \<longrightarrow> grows s s'"
      using g2(1) second_body_grows by (cases g2) auto
    then show ?thesis unfolding st
      by (rule loop_ret_grows(2) [OF _ g2(2), rotated]) (blast dest: second_body_grows)
  next
    case False
    with assms st that show ?thesis by (auto simp: first_body_def Let_def split: bind_splits if_splits)
  qed
  then show "remove_cards g H \<noteq> [] \<Longrightarrow> grows st st'" "grows st st' \<or> st' = st \<and> \<not> r"
    using assms st by (blast, cases "remove_cards g H = []", auto simp: first_body_def Let_def)
qed

lemma straight_from_naturals:
  assumes "sorted cs" and "3 \<le> length cs" and "naturals jp cs = naturals jp xs" and "one_color xs"
    and "distinct (map pt xs)" and "fits_straight f xs (length cs)" and "f = pt \<or> f = low_pt"
  shows "is_cards_straight jp cs"
proof -
  have sub: "set (naturals jp xs) \<subseteq> set xs" by (auto simp: naturals_def)
  have "one_color (naturals jp xs)"
    using assms(4) sub unfolding one_color_def by (metis hd_in_set in_mono length_greater_0_conv length_pos_if_in_set)
  moreover have "distinct (map pt (naturals jp xs))" using assms(5) by (simp add: naturals_def distinct_map_filter)
  moreover have "fits_straight f (naturals jp xs) (length cs)"
    using assms(6) sub by (auto simp: fits_straight_def within_window_def naturals_def distinct_map_filter)
  ultimately show ?thesis using assms(2,3,7) unfolding straight_sorted [OF assms(1)] by auto
qed

lemma pure_prefix:
  assumes "sorted cs" and "is_cards_pure_straight cs" and "is_cards_straight jp cs" and "4 \<le> length cs"
  shows "is_cards_pure_straight (take 3 cs) \<and> is_cards_straight jp (take 3 cs)"
proof -
  obtain a b c r where cs: "cs = a # b # c # r"
    using assms(4) by (auto simp: Suc_le_length_iff eval_nat_numeral)
  have t: "take 3 cs = [a, b, c]" by (simp add: cs)
  have srt: "sorted [a, b, c]" using assms(1) by (simp add: cs)
  have p: "successively step_up cs \<or> ace_ends_run a cs"
    using assms(2) by (simp add: is_cards_pure_straight_iff cs)
  then consider (run) "step_up a b" "step_up b c"
    | (ace3) "step_up a b" "m_color c = m_color b" "pt b < 15" "pt b \<noteq> 13" "pt c = 14" "pt a = 2"
    | (ace2) "m_color b = m_color a" "pt a < 15" "pt a \<noteq> 13" "pt b = 14" "pt a = 2"
    unfolding cs by auto
  then show ?thesis
  proof cases
    case run
    then have "is_cards_straight jp [a, b, c]"
      by (intro straight_from_naturals [OF srt, where xs = "[a, b, c]" and f = pt])
        (simp_all add: step_up_def one_color_def fits_straight_def within_window_def)
    with run show ?thesis unfolding t is_cards_pure_straight_iff by simp
  next
    case ace3
    then have "is_cards_straight jp [a, b, c]"
      by (intro straight_from_naturals [OF srt, where xs = "[a, b, c]" and f = low_pt])
        (simp_all add: step_up_def one_color_def fits_straight_def within_window_def low_pt_def)
    with ace3 show ?thesis unfolding t is_cards_pure_straight_iff by simp
  next
    case ace2
    have st: "one_color (naturals jp cs)" "distinct (map pt (naturals jp cs))"
      using assms(3) by (simp_all add: straight_sorted [OF assms(1)])
    have "pt b \<le> pt c" using srt by (simp add: pt_le_iff card_le_point)
    have c: "15 \<le> pt c \<or> jp = 14"
    proof (rule ccontr)
      assume neg: "\<not> ?thesis"
      with \<open>pt b \<le> pt c\<close> ace2 have pc: "pt c = 14" "jp \<noteq> 14" by auto
      with ace2 have "\<not> is_joker jp b" "\<not> is_joker jp c" by (auto simp: is_joker_iff)
      then have "naturals jp cs = naturals jp [a] @ b # c # naturals jp r" by (simp add: cs naturals_def)
      with st(2) ace2 pc show False by simp
    qed
    have "pt c = 14 \<or> 15 \<le> pt c" using \<open>pt b \<le> pt c\<close> ace2 by auto
    with c have "is_joker jp c" by (auto simp: is_joker_iff)
    then have "naturals jp [a, b, c] = naturals jp [a, b]" by (simp add: naturals_def)
    with ace2 have "is_cards_straight jp [a, b, c]"
      by (intro straight_from_naturals [OF srt, where xs = "[a, b]" and f = low_pt])
        (simp_all add: one_color_def fits_straight_def within_window_def low_pt_def)
    with ace2 show ?thesis unfolding t is_cards_pure_straight_iff by simp
  qed
qed

lemma search_all_group_nonempty:
  assumes legal: "legal_hand H" and len: "4 \<le> length H" and st: "search_all_group stop H (self, []) = Some (self', combs)"
  shows "combs \<noteq> []"
proof -
  let ?jp = "m_joker_point self"
  let ?js = "search_joker_cards ?jp H"
  let ?self = "set_jokers ?js self"
  have ok: "search_ok ?self H" "m_joker_point ?self = ?jp"
    by (simp_all add: search_ok_def set_jokers_def)
  obtain gs where gs: "search_straight_flush ?self H = Some gs" "\<forall>g\<in>set gs. straight_in ?jp H g"
    using search_straight_flush_ok [OF ok legal] by blast
  have complete: "\<exists>g\<in>set gs. mset (m_cards g) = mset G"
    if "mset G \<subseteq># mset H" "is_cards_straight ?jp (sort G)" for G
    using search_straight_flush_exact [OF ok legal] gs(1) that by auto
  have eq: "search_all_group stop H (self, []) =
      (if search_pure_straight_flush gs = [] then Some (?self, [loose_comb ?jp False False [] H])
       else map_option fst (loop_ret (first_body stop H ?js gs) (search_pure_straight_flush gs) (?self, [])))"
    using gs(1) ok(2) by (simp add: search_all_group_def Let_def)
  show ?thesis
  proof (cases "search_pure_straight_flush gs = []")
    case True
    with eq st show ?thesis by auto
  next
    case False
    then obtain g where g: "g \<in> set gs" "is_cards_pure_straight (m_cards g)"
      by (auto simp: search_pure_straight_flush_def filter_empty_conv)
    have "\<exists>h\<in>set (search_pure_straight_flush gs). remove_cards h H \<noteq> []"
    proof (cases "remove_cards g H = []")
      case False
      with g show ?thesis by (auto simp: search_pure_straight_flush_def)
    next
      case True
      have gin: "straight_in ?jp H g" using gs(2) g(1) by blast
      then have le: "mset (m_cards g) \<subseteq># mset H" by (simp add: straight_in_def)
      from mset_remove_cards_add [OF le] True have same: "mset (m_cards g) = mset H" by simp
      let ?cs = "sort (m_cards g)"
      have "4 \<le> length ?cs" using len same by (metis length_sort mset_eq_length)
      moreover have "is_cards_straight ?jp ?cs" using gin by (simp add: straight_in_def straight_ok_def)
      ultimately have pre: "is_cards_pure_straight (take 3 ?cs)" "is_cards_straight ?jp (take 3 ?cs)"
        using pure_prefix [of ?cs ?jp] pure_straight_sort [OF gin g(2)] by simp_all
      have srt: "sorted (take 3 ?cs)" by (simp add: sorted_wrt_take)
      have "mset (take 3 ?cs) \<subseteq># mset ?cs" by (metis append_take_drop_id mset_append mset_subset_eq_add_left)
      then have "mset (take 3 ?cs) \<subseteq># mset H" by (simp add: same)
      with complete [of "take 3 ?cs"] pre(2) srt obtain h where
        h: "h \<in> set gs" "mset (m_cards h) = mset (take 3 ?cs)" by (auto simp: sort_key_id_if_sorted)
      have hin: "straight_in ?jp H h" using gs(2) h(1) by blast
      have "\<not> (\<forall>c\<in>set (take 3 ?cs). is_joker ?jp c)" using pure_not_all_jokers [OF pre(1)] .
      moreover have "set (m_cards h) = set (take 3 ?cs)" using h(2) by (rule mset_eq_setD)
      ultimately have "sorted (m_cards h)" using hin by (auto simp: straight_in_def)
      with srt h(2) have "m_cards h = take 3 ?cs" by (metis properties_for_sort sort_key_id_if_sorted)
      with pre(1) h(1) have "h \<in> set (search_pure_straight_flush gs)" by (simp add: search_pure_straight_flush_def)
      moreover have "remove_cards h H \<noteq> []"
      proof
        assume "remove_cards h H = []"
        with length_remove_cards [of h H] hin have "length (m_cards h) = length H" by (simp add: straight_in_def)
        with \<open>m_cards h = take 3 ?cs\<close> len show False by simp
      qed
      ultimately show ?thesis by blast
    qed
    then obtain h where h: "h \<in> set (search_pure_straight_flush gs)" "remove_cards h H \<noteq> []" by blast
    from eq st False have
      "map_option fst (loop_ret (first_body stop H ?js gs) (search_pure_straight_flush gs) (?self, [])) = Some (self', combs)"
      by simp
    then obtain r where
      loop: "loop_ret (first_body stop H ?js gs) (search_pure_straight_flush gs) (?self, []) = Some ((self', combs), r)"
      by (cases "loop_ret (first_body stop H ?js gs) (search_pure_straight_flush gs) (?self, [])") auto
    have "grows (?self, []) (self', combs)"
    proof (rule loop_ret_grows(2) [OF _ loop, rotated])
      show "\<exists>x\<in>set (search_pure_straight_flush gs). \<forall>s s' r. first_body stop H ?js gs x s = Some (s', r) \<longrightarrow> grows s s'"
        using h first_body_grows(2) by blast
    qed (use first_body_grows(1) in blast)
    then show ?thesis by (auto simp: grows_def)
  qed
qed

section \<open>The automatic declaration\<close>

lemma least_score_props:
  assumes "least_score it_min score combs = (best, s)" and "m_score it_min = score"
  shows "m_score best = s" and "s \<le> score" and "\<forall>ci\<in>set combs. s \<le> m_score ci" and "best = it_min \<or> best \<in> set combs"
  using assms
proof (induction combs arbitrary: it_min score)
  case (Cons c combs)
  { case 1 with Cons.IH show ?case by (cases "m_score c < score") auto }
  { case 2 with Cons.IH(2) [of c "m_score c"] Cons.IH(2) [of it_min score] show ?case
      by (cases "m_score c < score") auto }
  { case 3 with Cons.IH(2,3) [of c "m_score c"] Cons.IH(2,3) [of it_min score] show ?case
      by (cases "m_score c < score") auto }
  { case 4 with Cons.IH(4) [of c "m_score c"] Cons.IH(4) [of it_min score] show ?case
      by (cases "m_score c < score") auto }
qed simp_all

lemma comb_ok_score_nonneg: "comb_ok jp H ci \<Longrightarrow> 0 \<le> m_score ci"
  by (auto simp: comb_ok_def caculate_card_score_nonneg)

lemma default_declare_ok:
  assumes legal: "legal_hand H" and len: "4 \<le> length H"
  shows "\<exists>self' combs score groups ci.
    search_all_group 0 H (self\<lparr>m_joker_point := jp\<rparr>, []) = Some (self', combs) \<and>
    default_declare self H jp = Some (self', score, groups) \<and>
    ci \<in> set combs \<and> groups = m_card_group ci \<and> score = m_score ci \<and> comb_ok jp H ci \<and>
    (\<forall>c\<in>set combs. score \<le> m_score c)"
proof -
  from len have ne: "H \<noteq> []" by auto
  obtain self' combs where s: "search_all_group 0 H (self\<lparr>m_joker_point := jp\<rparr>, []) = Some (self', combs)"
    "\<forall>ci\<in>set combs. comb_ok jp H ci"
    using search_all_group_ok [OF legal ne, of "self\<lparr>m_joker_point := jp\<rparr>" jp 0] by auto
  have nonempty: "combs \<noteq> []" using search_all_group_nonempty [OF legal len s(1)] .
  obtain best sc where l: "least_score (hd combs) (m_score (hd combs)) combs = (best, sc)" by fastforce
  note ls = least_score_props [OF l refl]
  have best: "best \<in> set combs" using ls(4) nonempty by auto
  show ?thesis
  proof (cases "m_score (last combs) = 0")
    case True
    have "last combs \<in> set combs" using nonempty by simp
    moreover have "\<forall>c\<in>set combs. m_score (last combs) \<le> m_score c" using s(2) True comb_ok_score_nonneg by auto
    ultimately show ?thesis using s nonempty True
      by (intro exI [of _ self'] exI [of _ combs] exI [of _ "m_score (last combs)"]
          exI [of _ "m_card_group (last combs)"] exI [of _ "last combs"]) (simp add: default_declare_def)
  next
    case False
    with s nonempty l ls best show ?thesis
      by (intro exI [of _ self'] exI [of _ combs] exI [of _ sc] exI [of _ "m_card_group best"] exI [of _ best])
        (simp add: default_declare_def)
  qed
qed

section \<open>The card to discard\<close>

lemma last_two_kinds_in:
  "last_two_kinds jp n a b cs = (n', a', b') \<Longrightarrow> a' \<in> insert a (set cs) \<and> b' \<in> insert b (set cs)"
  by (induction cs arbitrary: n a b) (auto split: if_splits)

lemma group_post_card_in: "cards \<noteq> [] \<Longrightarrow> group_post_card jp cards \<in> set cards"
proof -
  assume ne: "cards \<noteq> []"
  obtain n a b where l: "last_two_kinds jp 0 (hd (sort cards)) (hd (sort cards)) (sort cards) = (n, a, b)"
    by (metis prod_cases3)
  have "hd (sort cards) \<in> set cards" using ne by (metis hd_in_set set_sort length_sort length_0_conv)
  with last_two_kinds_in [OF l] show ?thesis by (auto simp: group_post_card_def l Let_def)
qed

lemma bigest_card_loop_in:
  "bigest_card_loop jp score card1 gs = card1 \<or> (\<exists>g\<in>set gs. 4 \<le> length (m_cards g) \<and> bigest_card_loop jp score card1 gs \<in> set (m_cards g))"
proof (induction gs arbitrary: score card1)
  case (Cons g gs)
  have "m_cards g \<noteq> [] \<Longrightarrow> group_post_card jp (m_cards g) \<in> set (m_cards g)" by (rule group_post_card_in)
  then show ?case using Cons.IH [of score card1]
      Cons.IH [of "get_score jp (group_post_card jp (m_cards g))" "group_post_card jp (m_cards g)"]
    by (cases "length (m_cards g) < 4") (fastforce simp: Let_def not_less)+
qed simp

text \<open>A group of four cards or more always provides the card.\<close>

lemma bigest_card_in:
  "\<exists>g\<in>set gs. 4 \<le> length (m_cards g) \<Longrightarrow>
   \<exists>g\<in>set gs. bigest_card_loop jp (- 1) card1 gs \<in> set (m_cards g)"
proof (induction gs)
  case (Cons g gs)
  show ?case
  proof (cases "length (m_cards g) < 4")
    case True
    with Cons show ?thesis by auto
  next
    case False
    then have p: "group_post_card jp (m_cards g) \<in> set (m_cards g)" by (intro group_post_card_in) auto
    have "get_score jp (group_post_card jp (m_cards g)) > - 1"
      using get_score_bounds [of jp "group_post_card jp (m_cards g)"] by linarith
    then have "bigest_card_loop jp (- 1) card1 (g # gs) =
        bigest_card_loop jp (get_score jp (group_post_card jp (m_cards g))) (group_post_card jp (m_cards g)) gs"
      using False by (simp add: Let_def)
    with p bigest_card_loop_in [of jp "get_score jp (group_post_card jp (m_cards g))" "group_post_card jp (m_cards g)" gs]
    show ?thesis by (metis list.set_intros)
  qed
qed simp

text \<open>The relations keep the cards.\<close>

lemma add_degree_card [simp]: "r_card (add_degree n r) = r_card r"
  by (simp add: add_degree_def)

lemma relate_next_cards:
  "relate_next it rs = (it', rs') \<Longrightarrow> r_card it' = r_card it \<and> map r_card rs' = map r_card rs"
proof (induction rs arbitrary: it it' rs')
  case (Cons r rs)
  then show ?case
    by (cases "pair_degree (r_card it) (r_card r)") (fastforce split: prod.splits)+
qed simp

lemma relate_ace_cards:
  "relate_ace it rs = (it', rs') \<Longrightarrow> r_card it' = r_card it \<and> map r_card rs' = map r_card rs"
proof (induction rs arbitrary: it it' rs')
  case (Cons r rs)
  then show ?case
    by (cases "\<not> m_point (r_card r) \<le> 3") (fastforce simp: Let_def split: prod.splits)+
qed simp

lemma relation_loop_cards: "map r_card (relation_loop front rest) = map r_card (front @ rest)"
proof (induction front rest rule: relation_loop.induct)
  case (1 front)
  then show ?case by simp
next
  case (2 front it rest)
  obtain it1 rest1 where n: "relate_next it rest = (it1, rest1)" by fastforce
  obtain it2 front2 where a: "relate_ace it1 front = (it2, front2)" by fastforce
  from 2 n a relate_next_cards [OF n] relate_ace_cards [OF a] show ?case by auto
qed

lemma least_related_in: "least_related jp it rs \<in> insert it (set rs)"
proof (induction rs arbitrary: it)
  case (Cons r rs)
  from Cons.IH [of r] Cons.IH [of it] show ?case by auto
qed simp

lemma split_relations_cards:
  "split_relations jp cs first rep = (first', rep') \<Longrightarrow>
   r_card ` set first' \<union> r_card ` set rep' \<subseteq> r_card ` set first \<union> r_card ` set rep \<union> set cs"
proof (induction cs arbitrary: first rep)
  case Nil
  then show ?case by simp
next
  case (Cons c cs)
  consider (joker) "is_joker jp c" | (last) "\<not> is_joker jp c" "cs = []"
    | (rep) d ds where "\<not> is_joker jp c" "cs = d # ds" "d = c"
    | (first) d ds where "\<not> is_joker jp c" "cs = d # ds" "d \<noteq> c"
    by (cases cs) auto
  then show ?case
  proof cases
    case joker
    with Cons.prems Cons.IH [of first rep] show ?thesis by auto
  next
    case last
    with Cons.prems show ?thesis by auto
  next
    case rep
    with Cons.prems Cons.IH [of first "rep @ [\<lparr>r_card = c, m_relate_degree = - 1\<rparr>]"]
    show ?thesis by auto
  next
    case first
    with Cons.prems Cons.IH [of "first @ [\<lparr>r_card = c, m_relate_degree = 0\<rparr>]" rep]
    show ?thesis by auto
  qed
qed

lemma split_relations_first:
  "split_relations jp cs first rep = (first', rep') \<Longrightarrow>
   first' = [] \<longleftrightarrow> first = [] \<and> (\<forall>c\<in>set cs. is_joker jp c)"
proof (induction cs arbitrary: first rep)
  case (Cons c cs)
  show ?case
  proof (cases "is_joker jp c")
    case True
    with Cons show ?thesis by simp
  next
    case False
    show ?thesis
    proof (cases cs)
      case Nil
      with Cons.prems False show ?thesis by auto
    next
      case (Cons d ds)
      with False Cons.prems Cons.IH [of first "rep @ [\<lparr>r_card = c, m_relate_degree = - 1\<rparr>]"]
        Cons.IH [of "first @ [\<lparr>r_card = c, m_relate_degree = 0\<rparr>]" rep]
      show ?thesis by (cases "d = c") auto
    qed
  qed
qed simp

lemma post_less_relation_card_in:
  assumes "cs \<noteq> []"
  shows "\<exists>c. post_less_relation_card cs jp = Some c \<and> c \<in> set cs"
proof -
  obtain first rep where s: "split_relations jp (sort cs) [] [] = (first, rep)" by fastforce
  show ?thesis
  proof (cases "first = []")
    case True
    have "last (sort cs) \<in> set cs" using assms by (metis last_in_set length_0_conv length_sort set_sort)
    with True s assms show ?thesis by (simp add: post_less_relation_card_def Let_def)
  next
    case False
    let ?all = "caculate_cards_relation first @ caculate_cards_relation rep"
    have cards: "r_card ` set ?all = r_card ` set first \<union> r_card ` set rep"
      unfolding caculate_cards_relation_def set_append image_Un set_map [symmetric] relation_loop_cards by simp
    have "?all \<noteq> []" using False relation_loop_cards [of "[]" first] by (auto simp: caculate_cards_relation_def)
    then have "least_related jp (hd ?all) (tl ?all) \<in> set ?all"
      using least_related_in [of jp "hd ?all" "tl ?all"] by (metis list.set(2) list.collapse)
    then have "r_card (least_related jp (hd ?all) (tl ?all)) \<in> r_card ` set ?all" by (rule imageI)
    also have "\<dots> \<subseteq> set cs" unfolding cards using split_relations_cards [OF s] by simp
    finally have "r_card (least_related jp (hd ?all) (tl ?all)) \<in> set cs" .
    with False s assms show ?thesis by (simp add: post_less_relation_card_def Let_def)
  qed
qed

text \<open>\<^verbatim>\<open>std::sort\<close> permutes its range and leaves no element behind a greater one.\<close>

definition sorts_by :: "(('a \<Rightarrow> 'a \<Rightarrow> bool) \<Rightarrow> 'a list \<Rightarrow> 'a list) \<Rightarrow> ('a \<Rightarrow> 'a \<Rightarrow> bool) \<Rightarrow> bool" where
  "sorts_by std_sort lt \<longleftrightarrow>
     (\<forall>xs. mset (std_sort lt xs) = mset xs \<and> sorted_wrt (\<lambda>a b. \<not> lt b a) (std_sort lt xs))"

definition same_class :: "CombinationInfo \<Rightarrow> CombinationInfo \<Rightarrow> bool" where
  "same_class a b \<longleftrightarrow> m_is_has_firtlife a = m_is_has_firtlife b \<and> m_is_has_secondelife a = m_is_has_secondelife b \<and>
     length (m_valid_cards a) = length (m_valid_cards b)"

lemma same_class_func: "same_class a b \<Longrightarrow> sort_combine_func c a = sort_combine_func c b"
  by (simp add: same_class_def sort_combine_func_def)

lemma sort_combine_irrefl: "\<not> sort_combine_func a a"
  by (simp add: sort_combine_func_def)

text \<open>What the loop over the best class returns.\<close>

definition post_choice :: "int \<Rightarrow> CombinationInfo \<Rightarrow> PokerCard \<Rightarrow> int \<Rightarrow> bool" where
  "post_choice jp ci c score \<longleftrightarrow>
     c \<in> set (m_valid_cards ci) \<and> post_less_relation_card (m_valid_cards ci) jp = Some c \<and>
     score = m_score ci - get_score jp c"

lemma best_post_loop_ok:
  assumes "post_choice jp itmin card1 score"
  shows "\<exists>c s ci. best_post_loop jp itmin score card1 combs = Some (c, s) \<and> ci \<in> insert itmin (set combs) \<and>
    same_class ci itmin \<and> post_choice jp ci c s \<and> s \<le> score"
  using assms
proof (induction combs arbitrary: itmin card1 score)
  case Nil
  then show ?case by (auto simp: same_class_def)
next
  case (Cons it combs)
  show ?case
  proof (cases "same_class itmin it")
    case False
    then have "best_post_loop jp itmin score card1 (it # combs) = Some (card1, score)"
      by (auto simp: same_class_def)
    with Cons.prems show ?thesis by (auto simp: same_class_def)
  next
    case True
    have "m_valid_cards itmin \<noteq> []" using Cons.prems by (auto simp: post_choice_def)
    with True have ne: "m_valid_cards it \<noteq> []" by (auto simp: same_class_def)
    then obtain c where c: "post_less_relation_card (m_valid_cards it) jp = Some c" "c \<in> set (m_valid_cards it)"
      using post_less_relation_card_in by blast
    let ?s = "m_score it - get_score jp c"
    have eq: "best_post_loop jp itmin score card1 (it # combs) =
        (if ?s < score then best_post_loop jp it ?s c combs else best_post_loop jp itmin score card1 combs)"
      using True ne c(1) by (simp add: same_class_def Let_def)
    show ?thesis
    proof (cases "?s < score")
      case better: True
      from c have "post_choice jp it c ?s" by (simp add: post_choice_def)
      from Cons.IH [OF this] obtain c' s ci where
        "best_post_loop jp it ?s c combs = Some (c', s)" "ci \<in> insert it (set combs)" "same_class ci it"
        "post_choice jp ci c' s" "s \<le> ?s" by blast
      with eq better True show ?thesis
        by (intro exI [of _ c'] exI [of _ s] exI [of _ ci]) (auto simp: same_class_def)
    next
      case worse: False
      from Cons.IH [OF Cons.prems] eq worse show ?thesis by auto
    qed
  qed
qed

lemma cards_of_length: "size (cards_of gs) = (\<Sum>g\<leftarrow>gs. length (m_cards g))"
  by (induction gs) simp_all

lemma small_groups_size: "\<forall>g\<in>set gs. \<not> 4 \<le> length (m_cards g) \<Longrightarrow> (\<Sum>g\<leftarrow>gs. length (m_cards g)) \<le> 3 * length gs"
  by (induction gs) (auto simp: not_le)

lemma cards_of_member: "g \<in> set gs \<Longrightarrow> mset (m_cards g) \<subseteq># cards_of gs"
  by (induction gs) (auto intro: subset_mset.add_increasing subset_mset.add_increasing2)

lemma sorts_by_head:
  assumes "sorts_by std_sort lt" and "\<And>a. \<not> lt a a" and "xs \<noteq> []"
  shows "std_sort lt xs \<noteq> []" and "set (std_sort lt xs) = set xs"
    and "\<forall>x\<in>set xs. \<not> lt x (hd (std_sort lt xs))"
proof -
  have m: "mset (std_sort lt xs) = mset xs" and w: "sorted_wrt (\<lambda>a b. \<not> lt b a) (std_sort lt xs)"
    using assms(1) by (auto simp: sorts_by_def)
  show ne: "std_sort lt xs \<noteq> []" using m assms(3) by auto
  show st: "set (std_sort lt xs) = set xs" using m by (rule mset_eq_setD)
  show "\<forall>x\<in>set xs. \<not> lt x (hd (std_sort lt xs))"
    unfolding st [symmetric] using w assms(2) ne by (cases "std_sort lt xs") auto
qed

lemma post_best_card_ok:
  assumes legal: "legal_hand H" and len: "4 \<le> length H" and srt: "sorts_by std_sort sort_combine_func"
  shows "\<exists>self' combs c score ci.
    search_all_group 1 H (self\<lparr>m_joker_point := jp\<rparr>, []) = Some (self', combs) \<and>
    post_best_card std_sort self H jp card0 = Some (self', c, score) \<and>
    ci \<in> set combs \<and> comb_ok jp H ci \<and> (\<forall>d\<in>set combs. \<not> sort_combine_func d ci) \<and>
    (m_valid_cards ci \<noteq> [] \<longrightarrow> post_choice jp ci c score) \<and>
    (m_valid_cards ci = [] \<longrightarrow> score = 0 \<and> c = post_valid_group_bigest_card (m_card_group ci) jp card0)"
proof -
  from len have ne: "H \<noteq> []" by auto
  obtain self' combs where s: "search_all_group 1 H (self\<lparr>m_joker_point := jp\<rparr>, []) = Some (self', combs)"
    "\<forall>ci\<in>set combs. comb_ok jp H ci"
    using search_all_group_ok [OF legal ne, of "self\<lparr>m_joker_point := jp\<rparr>" jp 1] by auto
  have nonempty: "combs \<noteq> []" using search_all_group_nonempty [OF legal len s(1)] .
  let ?sorted = "std_sort sort_combine_func combs"
  let ?best = "hd ?sorted"
  note head = sorts_by_head [OF srt sort_combine_irrefl nonempty]
  have best: "?best \<in> set combs" using head(1,2) by (metis hd_in_set)
  show ?thesis
  proof (cases "m_valid_cards ?best = []")
    case True
    with s nonempty best head(3) show ?thesis
      by (intro exI [of _ self'] exI [of _ combs] exI [of _ "post_valid_group_bigest_card (m_card_group ?best) jp card0"]
          exI [of _ 0] exI [of _ ?best]) (simp add: post_best_card_def Let_def)
  next
    case False
    then obtain c1 where c1: "post_less_relation_card (m_valid_cards ?best) jp = Some c1" "c1 \<in> set (m_valid_cards ?best)"
      using post_less_relation_card_in by blast
    then have "post_choice jp ?best c1 (m_score ?best - get_score jp c1)" by (simp add: post_choice_def)
    from best_post_loop_ok [OF this, of "tl ?sorted"] obtain c sc ci where
      b: "best_post_loop jp ?best (m_score ?best - get_score jp c1) c1 (tl ?sorted) = Some (c, sc)"
        "ci \<in> insert ?best (set (tl ?sorted))" "same_class ci ?best" "post_choice jp ci c sc" by blast
    have ci: "ci \<in> set combs" using b(2) head(1,2) by (metis list.collapse list.set(2))
    have "\<forall>d\<in>set combs. \<not> sort_combine_func d ci" using head(3) same_class_func [OF b(3)] by simp
    moreover have "m_valid_cards ci \<noteq> []" using b(4) by (auto simp: post_choice_def)
    ultimately show ?thesis using s nonempty False c1(1) b(1,4) ci
      by (intro exI [of _ self'] exI [of _ combs] exI [of _ c] exI [of _ sc] exI [of _ ci])
        (simp add: post_best_card_def Let_def)
  qed
qed

text \<open>The ranking \<^verbatim>\<open>sort_combine_func\<close> decides: by the lives, then by the number of loose cards.\<close>

definition comb_rank :: "CombinationInfo \<Rightarrow> nat \<times> nat" where
  "comb_rank ci = (if m_is_has_firtlife ci then if m_is_has_secondelife ci then 0 else 1 else 2,
     length (m_valid_cards ci))"

lemma sort_combine_rank: "sort_combine_func a b \<longleftrightarrow> comb_rank a < comb_rank b"
  by (auto simp: sort_combine_func_def comb_rank_def)

lemma sorts_by_rank: "sorts_by (\<lambda>lt. sort_key comb_rank) sort_combine_func"
proof -
  have "sorted_wrt (\<lambda>a b. \<not> sort_combine_func b a) (sort_key comb_rank xs)" for xs
    using sorted_sort_key [of comb_rank xs] unfolding sorted_map
    by (rule sorted_wrt_mono_rel [rotated]) (simp add: sort_combine_rank not_less)
  then show ?thesis by (simp add: sorts_by_def)
qed

section \<open>Properties\<close>

text \<open>
  C17. The comparison handed to \<^verbatim>\<open>std::sort\<close> is a strict weak ordering, as the library requires:
  it is the order of a rank, first the lives (both, the first only, none) and then the number of
  loose cards.
\<close>

theorem sort_combine_func_ranks:
  "sort_combine_func a b \<longleftrightarrow>
     (if m_is_has_firtlife a then if m_is_has_secondelife a then 0 else 1 else 2 :: nat,
       length (m_valid_cards a)) <
     (if m_is_has_firtlife b then if m_is_has_secondelife b then 0 else 1 else 2 :: nat,
       length (m_valid_cards b))"
  using sort_combine_rank [of a b] by (simp add: comb_rank_def)

text \<open>
  C3. The search over a hand conserves it. On a hand that can be dealt \<^verbatim>\<open>search_all_group\<close> never
  fails an assertion or leaves its array of 14 cards, and in every combination it lists the groups,
  with the loose cards, partition the hand as a multiset; the score is that of the loose cards.
\<close>

theorem hand_search_conserves:
  assumes "legal_hand H" and "H \<noteq> []"
  shows "\<exists>self' combs. search_all_group stop H (self, []) = Some (self', combs) \<and>
    (\<forall>ci\<in>set combs. cards_of (m_card_group ci) = mset H \<and>
       m_score ci = caculate_card_score (m_joker_point self) (m_valid_cards ci) \<and>
       (m_valid_cards ci \<noteq> [] \<longrightarrow>
          last (m_card_group ci) = \<lparr>m_type = GROUP_INVALID, m_cards = m_valid_cards ci\<rparr>))"
proof -
  obtain self' combs where s: "search_all_group stop H (self, []) = Some (self', combs)"
    "\<forall>ci\<in>set combs. comb_ok (m_joker_point self) H ci"
    using search_all_group_ok [OF assms refl] by blast
  then have "\<forall>ci\<in>set combs. cards_of (m_card_group ci) = mset H \<and>
       m_score ci = caculate_card_score (m_joker_point self) (m_valid_cards ci) \<and>
       (m_valid_cards ci \<noteq> [] \<longrightarrow> last (m_card_group ci) = \<lparr>m_type = GROUP_INVALID, m_cards = m_valid_cards ci\<rparr>)"
    by (auto simp: comb_ok_def)
  with s(1) show ?thesis by blast
qed

theorem hand_search_conserves_witness:
  "\<exists>self' combs. search_all_group 1 sample_hand (new_Combination, []) = Some (self', combs) \<and>
     (\<forall>ci\<in>set combs. cards_of (m_card_group ci) = mset [mk_card 2 5, mk_card 1 9, mk_card 1 5, mk_card 1 6])"
proof -
  have "mset sample_hand = mset [mk_card 2 5, mk_card 1 9, mk_card 1 5, mk_card 1 6]" "sample_hand \<noteq> []"
    by (simp_all add: sample_hand_def)
  then show ?thesis
    using hand_search_conserves [OF sample_hand_legal, where stop = 1 and self = new_Combination] by fastforce
qed

text \<open>
  C1. The automatic declaration is sound and of least score. On a hand of 4 to 14 cards that can
  be dealt, \<^verbatim>\<open>default_declare\<close> returns a combination of the search with the least score of all of
  them, whose groups partition the hand; and unless it holds a set of more than four cards the
  server's own test \<^verbatim>\<open>check_lose_declare\<close> accepts these groups and computes the same score.
\<close>

theorem default_declare_correct:
  assumes "legal_hand H" and "4 \<le> length H"
  shows "\<exists>self' combs score groups.
    search_all_group 0 H (self\<lparr>m_joker_point := jp\<rparr>, []) = Some (self', combs) \<and>
    default_declare self H jp = Some (self', score, groups) \<and>
    (\<exists>ci\<in>set combs. groups = m_card_group ci \<and> score = m_score ci) \<and> (\<forall>c\<in>set combs. score \<le> m_score c) \<and>
    cards_of groups = mset H \<and>
    ((\<forall>g\<in>set groups. \<not> big_set g) \<longrightarrow> check_lose_declare groups jp = (True, score))"
proof -
  obtain self' combs score groups ci where d:
    "search_all_group 0 H (self\<lparr>m_joker_point := jp\<rparr>, []) = Some (self', combs)"
    "default_declare self H jp = Some (self', score, groups)"
    "ci \<in> set combs" "groups = m_card_group ci" "score = m_score ci" "comb_ok jp H ci"
    "\<forall>c\<in>set combs. score \<le> m_score c"
    using default_declare_ok [OF assms] by blast
  moreover have "cards_of groups = mset H" using d(4,6) by (simp add: comb_ok_def)
  moreover have "(\<forall>g\<in>set groups. \<not> big_set g) \<longrightarrow> check_lose_declare groups jp = (True, score)"
    using comb_lose_declare [OF d(6)] d(4,5) by simp
  ultimately show ?thesis by blast
qed

theorem default_declare_correct_witness:
  "\<exists>self' score groups. default_declare new_Combination sample_hand 9 = Some (self', score, groups) \<and>
     cards_of groups = mset sample_hand"
proof -
  have "4 \<le> length sample_hand" by (simp add: sample_hand_def)
  from default_declare_correct [OF sample_hand_legal this, where self = new_Combination and jp = 9] show ?thesis by blast
qed

text \<open>
  C9. A hand with nothing loose wins: of the combinations the search finds, \<^verbatim>\<open>is_groups_declare\<close>
  takes exactly those without loose cards and without a set of more than four cards as a winning
  declaration.
\<close>

theorem found_combination_wins:
  assumes "legal_hand H" and "H \<noteq> []" and "search_all_group stop H (self, []) = Some (self', combs)"
    and "ci \<in> set combs"
  shows "is_groups_declare (m_card_group ci) (m_joker_point self) \<longleftrightarrow>
    m_valid_cards ci = [] \<and> (\<forall>g\<in>set (m_card_group ci). \<not> big_set g)"
proof -
  have "comb_ok (m_joker_point self) H ci"
    using search_all_group_ok [OF assms(1,2) refl, where self = self and stop = stop] assms(3,4) by auto
  then show ?thesis by (rule comb_win_declare)
qed

theorem found_combination_wins_witness:
  "\<exists>self' combs. search_all_group 1 sample_hand (new_Combination, []) = Some (self', combs) \<and>
     (\<forall>ci\<in>set combs. is_groups_declare (m_card_group ci) 0 \<longrightarrow> m_valid_cards ci = [])"
proof -
  have ne: "sample_hand \<noteq> []" by (simp add: sample_hand_def)
  obtain self' combs where s: "search_all_group 1 sample_hand (new_Combination, []) = Some (self', combs)"
    using search_all_group_ok [OF sample_hand_legal ne refl, where stop = 1 and self = new_Combination] by blast
  with found_combination_wins [OF sample_hand_legal ne s] show ?thesis by (auto simp: new_Combination_def)
qed



text \<open>
  C8. The card proposed for discarding. On a hand of 4 to 14 cards that can be dealt,
  \<^verbatim>\<open>post_best_card\<close> returns whatever correct sorting routine the library has; it works on a
  combination that no other one precedes in the ranking, the score is that of its loose cards
  without the discarded one (0 if nothing is loose), and a hand of 13 or 14 cards holds the card.
\<close>

theorem post_best_card_correct:
  assumes "legal_hand H" and "4 \<le> length H" and "sorts_by std_sort sort_combine_func"
  shows "\<exists>self' combs c score ci.
    search_all_group 1 H (self\<lparr>m_joker_point := jp\<rparr>, []) = Some (self', combs) \<and>
    post_best_card std_sort self H jp card0 = Some (self', c, score) \<and>
    ci \<in> set combs \<and> (\<forall>d\<in>set combs. \<not> sort_combine_func d ci) \<and>
    score = (if m_valid_cards ci = [] then 0 else m_score ci - get_score jp c) \<and>
    (13 \<le> length H \<or> m_valid_cards ci \<noteq> [] \<longrightarrow> c \<in> set H)"
proof -
  obtain self' combs c score ci where p:
    "search_all_group 1 H (self\<lparr>m_joker_point := jp\<rparr>, []) = Some (self', combs)"
    "post_best_card std_sort self H jp card0 = Some (self', c, score)"
    "ci \<in> set combs" "comb_ok jp H ci" "\<forall>d\<in>set combs. \<not> sort_combine_func d ci"
    "m_valid_cards ci \<noteq> [] \<longrightarrow> post_choice jp ci c score"
    "m_valid_cards ci = [] \<longrightarrow> score = 0 \<and> c = post_valid_group_bigest_card (m_card_group ci) jp card0"
    using post_best_card_ok [OF assms] by blast
  have sum: "cards_of (m_card_group ci) = mset H" using p(4) by (simp add: comb_ok_def)
  have in_hand: "c \<in> set H" if "g \<in> set (m_card_group ci)" "c \<in> set (m_cards g)" for g
    using mset_subset_eqD [OF cards_of_member [OF that(1)], of c] that(2) sum by simp
  have "c \<in> set H" if "m_valid_cards ci \<noteq> []"
  proof -
    from that p(4) have "\<lparr>m_type = GROUP_INVALID, m_cards = m_valid_cards ci\<rparr> \<in> set (m_card_group ci)"
      by (auto simp: comb_ok_def)
    from in_hand [OF this] that p(6) show ?thesis by (simp add: post_choice_def)
  qed
  moreover have "c \<in> set H" if "m_valid_cards ci = []" "13 \<le> length H"
  proof -
    have "length (m_card_group ci) \<le> 4" using p(4) that(1) by (auto simp: comb_ok_def)
    moreover have "(\<Sum>g\<leftarrow>m_card_group ci. length (m_cards g)) = length H"
      using sum cards_of_length [of "m_card_group ci"] by simp
    ultimately have "\<exists>g\<in>set (m_card_group ci). 4 \<le> length (m_cards g)"
      using small_groups_size [of "m_card_group ci"] that(2) by fastforce
    from bigest_card_in [OF this] p(7) that(1) in_hand show ?thesis
      by (auto simp: post_valid_group_bigest_card_def)
  qed
  moreover have "score = (if m_valid_cards ci = [] then 0 else m_score ci - get_score jp c)"
    using p(6,7) by (simp add: post_choice_def)
  ultimately show ?thesis using p by blast
qed

theorem post_best_card_correct_witness:
  "\<exists>self' c score. post_best_card (\<lambda>lt. sort_key comb_rank) new_Combination sample_hand 9 default_card =
     Some (self', c, score) \<and> (score = 0 \<or> c \<in> set sample_hand)"
proof -
  have "4 \<le> length sample_hand" by (simp add: sample_hand_def)
  from post_best_card_correct [OF sample_hand_legal this sorts_by_rank, where self = new_Combination and jp = 9
      and ?card0.0 = default_card]
  obtain self' c score and ci :: CombinationInfo where
    "post_best_card (\<lambda>lt. sort_key comb_rank) new_Combination sample_hand 9 default_card = Some (self', c, score)"
    "score = (if m_valid_cards ci = [] then 0 else m_score ci - get_score 9 c)"
    "13 \<le> length sample_hand \<or> m_valid_cards ci \<noteq> [] \<longrightarrow> c \<in> set sample_hand"
    by blast
  then show ?thesis by (cases "m_valid_cards ci = []") auto
qed

end
