(* ===== verification/Aes_Field.thy ===== *)
theory Aes_Field
  imports SF_Prelude
begin

text \<open>
  The arithmetic of the byte field of FIPS-197 (multiplication modulo
  \<open>x^8 + x^4 + x^3 + x + 1\<close>) and the S-box of the standard: the field inverse followed by an
  affine map. \<open>sbox_table\<close> lists its 256 values; \<open>sbox_table_fips\<close> proves each of them from
  the definition. This is the specification the lookup tables of
  \<^verbatim>\<open>common/libtools/AesCore.cpp\<close> are checked against.
\<close>

section \<open>The byte field and the S-box of the standard\<close>

definition xtime :: "u8 \<Rightarrow> u8" where
  "xtime b = push_bit 1 b XOR (if bit b 7 then 0x1b else 0)"

primrec gf_mul_n :: "nat \<Rightarrow> u8 \<Rightarrow> u8 \<Rightarrow> u8" where
  "gf_mul_n 0 a b = 0"
| "gf_mul_n (Suc n) a b = (if bit b 0 then a else 0) XOR gf_mul_n n (xtime a) (drop_bit 1 b)"

definition gf_mul :: "u8 \<Rightarrow> u8 \<Rightarrow> u8" where
  "gf_mul a b = gf_mul_n 8 a b"

definition rotl8 :: "nat \<Rightarrow> u8 \<Rightarrow> u8" where
  "rotl8 n b = push_bit n b OR drop_bit (8 - n) b"

definition affine :: "u8 \<Rightarrow> u8" where
  "affine b = b XOR rotl8 1 b XOR rotl8 2 b XOR rotl8 3 b XOR rotl8 4 b XOR 0x63"

text \<open>
  The S-box of the standard maps a byte to the affine image of its inverse in the field
  (\<open>0\<close> counts as its own inverse).
\<close>

definition fips_sbox :: "u8 \<Rightarrow> u8 \<Rightarrow> bool" where
  "fips_sbox b s \<longleftrightarrow> (\<exists>c. (if b = 0 then c = 0 else gf_mul b c = 1) \<and> s = affine c)"

definition sbox_table :: "u8 list" where
  "sbox_table = [
    0x63, 0x7c, 0x77, 0x7b, 0xf2, 0x6b, 0x6f, 0xc5, 0x30, 0x01, 0x67, 0x2b,
    0xfe, 0xd7, 0xab, 0x76, 0xca, 0x82, 0xc9, 0x7d, 0xfa, 0x59, 0x47, 0xf0,
    0xad, 0xd4, 0xa2, 0xaf, 0x9c, 0xa4, 0x72, 0xc0, 0xb7, 0xfd, 0x93, 0x26,
    0x36, 0x3f, 0xf7, 0xcc, 0x34, 0xa5, 0xe5, 0xf1, 0x71, 0xd8, 0x31, 0x15,
    0x04, 0xc7, 0x23, 0xc3, 0x18, 0x96, 0x05, 0x9a, 0x07, 0x12, 0x80, 0xe2,
    0xeb, 0x27, 0xb2, 0x75, 0x09, 0x83, 0x2c, 0x1a, 0x1b, 0x6e, 0x5a, 0xa0,
    0x52, 0x3b, 0xd6, 0xb3, 0x29, 0xe3, 0x2f, 0x84, 0x53, 0xd1, 0x00, 0xed,
    0x20, 0xfc, 0xb1, 0x5b, 0x6a, 0xcb, 0xbe, 0x39, 0x4a, 0x4c, 0x58, 0xcf,
    0xd0, 0xef, 0xaa, 0xfb, 0x43, 0x4d, 0x33, 0x85, 0x45, 0xf9, 0x02, 0x7f,
    0x50, 0x3c, 0x9f, 0xa8, 0x51, 0xa3, 0x40, 0x8f, 0x92, 0x9d, 0x38, 0xf5,
    0xbc, 0xb6, 0xda, 0x21, 0x10, 0xff, 0xf3, 0xd2, 0xcd, 0x0c, 0x13, 0xec,
    0x5f, 0x97, 0x44, 0x17, 0xc4, 0xa7, 0x7e, 0x3d, 0x64, 0x5d, 0x19, 0x73,
    0x60, 0x81, 0x4f, 0xdc, 0x22, 0x2a, 0x90, 0x88, 0x46, 0xee, 0xb8, 0x14,
    0xde, 0x5e, 0x0b, 0xdb, 0xe0, 0x32, 0x3a, 0x0a, 0x49, 0x06, 0x24, 0x5c,
    0xc2, 0xd3, 0xac, 0x62, 0x91, 0x95, 0xe4, 0x79, 0xe7, 0xc8, 0x37, 0x6d,
    0x8d, 0xd5, 0x4e, 0xa9, 0x6c, 0x56, 0xf4, 0xea, 0x65, 0x7a, 0xae, 0x08,
    0xba, 0x78, 0x25, 0x2e, 0x1c, 0xa6, 0xb4, 0xc6, 0xe8, 0xdd, 0x74, 0x1f,
    0x4b, 0xbd, 0x8b, 0x8a, 0x70, 0x3e, 0xb5, 0x66, 0x48, 0x03, 0xf6, 0x0e,
    0x61, 0x35, 0x57, 0xb9, 0x86, 0xc1, 0x1d, 0x9e, 0xe1, 0xf8, 0x98, 0x11,
    0x69, 0xd9, 0x8e, 0x94, 0x9b, 0x1e, 0x87, 0xe9, 0xce, 0x55, 0x28, 0xdf,
    0x8c, 0xa1, 0x89, 0x0d, 0xbf, 0xe6, 0x42, 0x68, 0x41, 0x99, 0x2d, 0x0f,
    0xb0, 0x54, 0xbb, 0x16]"

definition inv_table :: "int list" where
  "inv_table = [
    0x00, 0x01, 0x8d, 0xf6, 0xcb, 0x52, 0x7b, 0xd1, 0xe8, 0x4f, 0x29, 0xc0,
    0xb0, 0xe1, 0xe5, 0xc7, 0x74, 0xb4, 0xaa, 0x4b, 0x99, 0x2b, 0x60, 0x5f,
    0x58, 0x3f, 0xfd, 0xcc, 0xff, 0x40, 0xee, 0xb2, 0x3a, 0x6e, 0x5a, 0xf1,
    0x55, 0x4d, 0xa8, 0xc9, 0xc1, 0x0a, 0x98, 0x15, 0x30, 0x44, 0xa2, 0xc2,
    0x2c, 0x45, 0x92, 0x6c, 0xf3, 0x39, 0x66, 0x42, 0xf2, 0x35, 0x20, 0x6f,
    0x77, 0xbb, 0x59, 0x19, 0x1d, 0xfe, 0x37, 0x67, 0x2d, 0x31, 0xf5, 0x69,
    0xa7, 0x64, 0xab, 0x13, 0x54, 0x25, 0xe9, 0x09, 0xed, 0x5c, 0x05, 0xca,
    0x4c, 0x24, 0x87, 0xbf, 0x18, 0x3e, 0x22, 0xf0, 0x51, 0xec, 0x61, 0x17,
    0x16, 0x5e, 0xaf, 0xd3, 0x49, 0xa6, 0x36, 0x43, 0xf4, 0x47, 0x91, 0xdf,
    0x33, 0x93, 0x21, 0x3b, 0x79, 0xb7, 0x97, 0x85, 0x10, 0xb5, 0xba, 0x3c,
    0xb6, 0x70, 0xd0, 0x06, 0xa1, 0xfa, 0x81, 0x82, 0x83, 0x7e, 0x7f, 0x80,
    0x96, 0x73, 0xbe, 0x56, 0x9b, 0x9e, 0x95, 0xd9, 0xf7, 0x02, 0xb9, 0xa4,
    0xde, 0x6a, 0x32, 0x6d, 0xd8, 0x8a, 0x84, 0x72, 0x2a, 0x14, 0x9f, 0x88,
    0xf9, 0xdc, 0x89, 0x9a, 0xfb, 0x7c, 0x2e, 0xc3, 0x8f, 0xb8, 0x65, 0x48,
    0x26, 0xc8, 0x12, 0x4a, 0xce, 0xe7, 0xd2, 0x62, 0x0c, 0xe0, 0x1f, 0xef,
    0x11, 0x75, 0x78, 0x71, 0xa5, 0x8e, 0x76, 0x3d, 0xbd, 0xbc, 0x86, 0x57,
    0x0b, 0x28, 0x2f, 0xa3, 0xda, 0xd4, 0xe4, 0x0f, 0xa9, 0x27, 0x53, 0x04,
    0x1b, 0xfc, 0xac, 0xe6, 0x7a, 0x07, 0xae, 0x63, 0xc5, 0xdb, 0xe2, 0xea,
    0x94, 0x8b, 0xc4, 0xd5, 0x9d, 0xf8, 0x90, 0x6b, 0xb1, 0x0d, 0xd6, 0xeb,
    0xc6, 0x0e, 0xcf, 0xad, 0x08, 0x4e, 0xd7, 0xe3, 0x5d, 0x50, 0x1e, 0xb3,
    0x5b, 0x23, 0x38, 0x34, 0x68, 0x46, 0x03, 0x8c, 0xdd, 0x9c, 0x7d, 0xa0,
    0xcd, 0x1a, 0x41, 0x1c]"


section \<open>The same arithmetic on integers, for evaluation\<close>

definition xtime_int :: "int \<Rightarrow> int" where
  "xtime_int n = (if n < 128 then 2 * n else (2 * n - 256) XOR 27)"

primrec gf_mul_int :: "nat \<Rightarrow> int \<Rightarrow> int \<Rightarrow> int" where
  "gf_mul_int 0 a b = 0"
| "gf_mul_int (Suc n) a b =
     (if even b then gf_mul_int n (xtime_int a) (b div 2)
      else a XOR gf_mul_int n (xtime_int a) (b div 2))"

lemma uint_lt_256 [simp]: "uint (b :: u8) < 256"
  using uint_lt2p [of b] by simp

lemma bit_7_iff: "bit (b :: u8) 7 \<longleftrightarrow> 128 \<le> uint b"
proof -
  have "bit b 7 \<longleftrightarrow> bit (uint b) 7" by (simp add: bit_uint_iff)
  also have "\<dots> \<longleftrightarrow> odd (uint b div 128)" by (simp add: bit_iff_odd)
  also have "uint b div 128 = (if 128 \<le> uint b then 1 else 0)"
    using uint_lt_256 [of b] by (simp add: div_pos_pos_trivial int_div_pos_eq [where q = 1 and r = "uint b - 128"])
  finally show ?thesis by (simp split: if_splits)
qed

lemma uint_times: "uint (b * c :: u8) = uint b * uint c mod 256"
  by (simp add: uint_word_ariths)

lemma uint_push_bit: "uint (push_bit n (b :: u8)) = uint b * 2 ^ n mod 256"
  by (subst unsigned_push_bit_eq) (simp add: take_bit_eq_mod push_bit_eq_mult)

lemma uint_drop_bit: "uint (drop_bit n (b :: u8)) = uint b div 2 ^ n"
  by (subst unsigned_drop_bit_eq) (simp add: drop_bit_eq_div take_bit_eq_mod)

lemma uint_push_bit_1: "uint (push_bit 1 (b :: u8)) = (if uint b < 128 then 2 * uint b else 2 * uint b - 256)"
proof -
  have "uint b * 2 mod 256 = (if uint b < 128 then 2 * uint b else 2 * uint b - 256)"
    using uint_lt_256 [of b] by (simp add: int_mod_pos_eq [where q = 1])
  then show ?thesis unfolding uint_push_bit by simp
qed

lemma uint_xtime: "uint (xtime b) = xtime_int (uint b)"
  unfolding xtime_def xtime_int_def unsigned_xor_eq uint_push_bit_1 bit_7_iff by simp

lemma uint_gf_mul_n: "uint (gf_mul_n n a b) = gf_mul_int n (uint a) (uint b)"
proof (induction n arbitrary: a b)
  case (Suc n)
  have "bit b 0 \<longleftrightarrow> odd (uint b)"
    by (simp add: bit_uint_iff flip: bit_0)
  then show ?case
    using Suc [of "xtime a" "drop_bit 1 b"]
    unfolding gf_mul_n.simps gf_mul_int.simps unsigned_xor_eq uint_xtime uint_drop_bit
    by simp
qed simp

lemma gf_mul_int_numeral:
  "gf_mul_int (numeral n) a b =
     (if even b then gf_mul_int (pred_numeral n) (xtime_int a) (b div 2)
      else a XOR gf_mul_int (pred_numeral n) (xtime_int a) (b div 2))"
  by (simp add: numeral_eq_Suc)

definition rotl8_int :: "nat \<Rightarrow> int \<Rightarrow> int" where
  "rotl8_int n b = ((2 ^ n * b) mod 256) OR (b div 2 ^ (8 - n))"

lemma uint_rotl8: "uint (rotl8 n b) = rotl8_int n (uint b)"
  unfolding rotl8_def rotl8_int_def unsigned_or_eq uint_push_bit uint_drop_bit
  by (simp add: ac_simps)

definition affine_int :: "int \<Rightarrow> int" where
  "affine_int b = b XOR rotl8_int 1 b XOR rotl8_int 2 b XOR rotl8_int 3 b XOR rotl8_int 4 b XOR 0x63"

lemma inv_table_inverse:
  "list_all2 (\<lambda>b c. gf_mul_int 8 b c = 1) [1..255] (tl inv_table)"
  by code_simp

lemma inv_table_affine: "map affine_int inv_table = map uint sbox_table"
  by (simp add: inv_table_def sbox_table_def affine_int_def rotl8_int_def)

lemma length_sbox_table [simp]: "length sbox_table = 256"
  by (simp add: sbox_table_def)

lemma length_inv_table [simp]: "length inv_table = 256"
  by (simp add: inv_table_def)

lemma uint_affine: "uint (affine b) = affine_int (uint b)"
  by (simp only: affine_def affine_int_def unsigned_xor_eq uint_rotl8) simp

lemma unat_lt_256 [simp]: "unat (b :: u8) < 256"
  using unsigned_less [of b, where ?'a = nat] by simp

lemma inv_table_range: "list_all (\<lambda>c. 0 \<le> c \<and> c < 256) inv_table"
  by (simp add: inv_table_def)

lemma inv_table_0: "inv_table ! 0 = 0"
  by (simp add: inv_table_def)

lemma sbox_table_fips: "fips_sbox b (sbox_table ! unat b)"
proof -
  define c :: u8 where "c = of_int (inv_table ! unat b)"
  have range: "0 \<le> inv_table ! unat b" "inv_table ! unat b < 256"
    using inv_table_range by (auto simp: list_all_length)
  then have c: "uint c = inv_table ! unat b"
    by (simp add: c_def uint_word_of_int)
  have "uint (sbox_table ! unat b) = uint (affine c)"
    using arg_cong [OF inv_table_affine, of "\<lambda>xs. xs ! unat b"] by (simp add: uint_affine c)
  then have aff: "sbox_table ! unat b = affine c" by (simp only: word_uint_eq_iff)
  have "gf_mul b c = 1" if "b \<noteq> 0"
  proof -
    have pos: "0 < unat b" using that by (simp add: unat_gt_0)
    then have "unat b - 1 < 255" using unat_lt_256 [of b] by linarith
    then have "gf_mul_int 8 ([1..255] ! (unat b - 1)) (tl inv_table ! (unat b - 1)) = 1"
      using inv_table_inverse by (simp add: list_all2_conv_all_nth)
    moreover have "[1..255] ! (unat b - 1) = uint b"
    proof -
      have "1 + int (unat b - 1) = uint b" using pos by (simp add: of_nat_diff)
      then show ?thesis using uint_lt_256 [of b] by (subst nth_upto) linarith+
    qed
    moreover have "tl inv_table ! (unat b - 1) = uint c"
      using pos \<open>unat b - 1 < 255\<close> by (subst nth_tl) (simp_all add: c)
    ultimately have "uint (gf_mul b c) = 1"
      by (simp add: gf_mul_def uint_gf_mul_n)
    then show ?thesis by (simp add: word_uint_eq_iff)
  qed
  moreover have "c = 0" if "b = 0"
    using that by (simp add: c_def inv_table_0)
  ultimately show ?thesis
    unfolding fips_sbox_def using aff by (intro exI [of _ c]) auto
qed

lemma xtime_xor: "xtime (a XOR b) = xtime a XOR xtime b"
  by (auto simp: xtime_def bit_xor_iff push_bit_xor intro!: bit_word_eqI)

end
