(* ===== verification/Aes_Core.thy ===== *)
theory Aes_Core
  imports Aes_Tables
begin

text \<open>
  The AES block cipher of \<^verbatim>\<open>common/libtools/AesCore.cpp\<close>: key expansion in both directions,
  encryption and decryption of one block, the compiled loop and the \<^verbatim>\<open>FULL_UNROLL\<close>
  alternative of the same functions. A key schedule is the record \<open>AES_KEY\<close> with its 60 words;
  a pointer that may be null is an \<open>option\<close>. The pointer \<^verbatim>\<open>rk\<close> that walks over the schedule is
  an offset.

  Against it stands the cipher of FIPS-197 (\<open>cipher\<close>, \<open>inv_cipher\<close>, \<open>key_word\<close>), written
  from the standard; the lemmas show that the table-driven code computes exactly these
  functions for the three key sizes, and that decryption inverts encryption.
\<close>

section \<open>The code\<close>

record AES_KEY =
  rd_key :: "u32 list"
  rounds :: nat

definition AES_MAXNR :: nat where "AES_MAXNR = 14"
definition AES_BLOCK_SIZE :: nat where "AES_BLOCK_SIZE = 16"

definition GETU32 :: "u8 list \<Rightarrow> nat \<Rightarrow> u32" where
  "GETU32 pt i = push_bit 24 (ucast (pt ! i)) XOR push_bit 16 (ucast (pt ! (i + 1)))
     XOR push_bit 8 (ucast (pt ! (i + 2))) XOR ucast (pt ! (i + 3))"

definition PUTU32 :: "u32 \<Rightarrow> u8 list" where
  "PUTU32 st = [ucast (drop_bit 24 st), ucast (drop_bit 16 st), ucast (drop_bit 8 st), ucast st]"

text \<open>The word the expansion adds every fourth (sixth, eighth) word.\<close>

definition expand_core :: "u32 \<Rightarrow> u32" where
  "expand_core temp =
     (Te2 ! unat (drop_bit 16 temp AND 0xff) AND 0xff000000) XOR
     (Te3 ! unat (drop_bit 8 temp AND 0xff) AND 0x00ff0000) XOR
     (Te0 ! unat (temp AND 0xff) AND 0x0000ff00) XOR
     (Te1 ! unat (drop_bit 24 temp) AND 0x000000ff)"

definition expand_mid :: "u32 \<Rightarrow> u32" where
  "expand_mid temp =
     (Te2 ! unat (drop_bit 24 temp) AND 0xff000000) XOR
     (Te3 ! unat (drop_bit 16 temp AND 0xff) AND 0x00ff0000) XOR
     (Te0 ! unat (drop_bit 8 temp AND 0xff) AND 0x0000ff00) XOR
     (Te1 ! unat (temp AND 0xff) AND 0x000000ff)"

text \<open>
  The three loops count \<^verbatim>\<open>i\<close> up from 0 in steps of one, so that \<^verbatim>\<open>++i == n\<close> first holds when
  \<open>n \<le> Suc i\<close>.
\<close>

definition expand128_step :: "nat \<Rightarrow> nat \<Rightarrow> u32 list \<Rightarrow> u32 list" where
  "expand128_step i p rk =
    (let temp = rk ! (p + 3);
         rk = rk[p + 4 := rk ! p XOR expand_core temp XOR rcon ! i];
         rk = rk[p + 5 := rk ! (p + 1) XOR rk ! (p + 4)];
         rk = rk[p + 6 := rk ! (p + 2) XOR rk ! (p + 5)]
     in rk[p + 7 := rk ! (p + 3) XOR rk ! (p + 6)])"

function expand128 :: "nat \<Rightarrow> nat \<Rightarrow> u32 list \<Rightarrow> u32 list" where
  "expand128 i p rk =
    (let rk = expand128_step i p rk
     in if 10 \<le> Suc i then rk else expand128 (Suc i) (p + 4) rk)"
  by pat_completeness auto
termination by (relation "measure (\<lambda>(i, p, rk). 10 - i)") auto

definition expand192_step :: "nat \<Rightarrow> nat \<Rightarrow> u32 list \<Rightarrow> u32 list" where
  "expand192_step i p rk =
    (let temp = rk ! (p + 5);
         rk = rk[p + 6 := rk ! p XOR expand_core temp XOR rcon ! i];
         rk = rk[p + 7 := rk ! (p + 1) XOR rk ! (p + 6)];
         rk = rk[p + 8 := rk ! (p + 2) XOR rk ! (p + 7)]
     in rk[p + 9 := rk ! (p + 3) XOR rk ! (p + 8)])"

function expand192 :: "nat \<Rightarrow> nat \<Rightarrow> u32 list \<Rightarrow> u32 list" where
  "expand192 i p rk =
    (let rk = expand192_step i p rk
     in if 8 \<le> Suc i then rk
        else let rk = rk[p + 10 := rk ! (p + 4) XOR rk ! (p + 9)];
                 rk = rk[p + 11 := rk ! (p + 5) XOR rk ! (p + 10)]
             in expand192 (Suc i) (p + 6) rk)"
  by pat_completeness auto
termination by (relation "measure (\<lambda>(i, p, rk). 8 - i)") auto

definition expand256_step :: "nat \<Rightarrow> nat \<Rightarrow> u32 list \<Rightarrow> u32 list" where
  "expand256_step i p rk =
    (let temp = rk ! (p + 7);
         rk = rk[p + 8 := rk ! p XOR expand_core temp XOR rcon ! i];
         rk = rk[p + 9 := rk ! (p + 1) XOR rk ! (p + 8)];
         rk = rk[p + 10 := rk ! (p + 2) XOR rk ! (p + 9)]
     in rk[p + 11 := rk ! (p + 3) XOR rk ! (p + 10)])"

definition expand256_mid :: "nat \<Rightarrow> u32 list \<Rightarrow> u32 list" where
  "expand256_mid p rk =
    (let temp = rk ! (p + 11);
         rk = rk[p + 12 := rk ! (p + 4) XOR expand_mid temp];
         rk = rk[p + 13 := rk ! (p + 5) XOR rk ! (p + 12)];
         rk = rk[p + 14 := rk ! (p + 6) XOR rk ! (p + 13)]
     in rk[p + 15 := rk ! (p + 7) XOR rk ! (p + 14)])"

function expand256 :: "nat \<Rightarrow> nat \<Rightarrow> u32 list \<Rightarrow> u32 list" where
  "expand256 i p rk =
    (let rk = expand256_step i p rk
     in if 7 \<le> Suc i then rk else expand256 (Suc i) (p + 8) (expand256_mid p rk))"
  by pat_completeness auto
termination by (relation "measure (\<lambda>(i, p, rk). 7 - i)") auto

declare expand128.simps [simp del] expand192.simps [simp del] expand256.simps [simp del]

definition AES_set_encrypt_key ::
  "u8 list option \<Rightarrow> int \<Rightarrow> AES_KEY option \<Rightarrow> int \<times> AES_KEY option" where
  "AES_set_encrypt_key userKey bits key =
    (case (userKey, key) of
      (Some uk, Some k) \<Rightarrow>
        if bits \<noteq> 128 \<and> bits \<noteq> 192 \<and> bits \<noteq> 256 then (-2, key)
        else
          let k = k\<lparr>rounds := if bits = 128 then 10 else if bits = 192 then 12 else 14\<rparr>;
              rk = (rd_key k)[0 := GETU32 uk 0, 1 := GETU32 uk 4, 2 := GETU32 uk 8, 3 := GETU32 uk 12]
          in if bits = 128 then (0, Some (k\<lparr>rd_key := expand128 0 0 rk\<rparr>))
             else let rk = rk[4 := GETU32 uk 16, 5 := GETU32 uk 20]
             in if bits = 192 then (0, Some (k\<lparr>rd_key := expand192 0 0 rk\<rparr>))
             else let rk = rk[6 := GETU32 uk 24, 7 := GETU32 uk 28]
             in if bits = 256 then (0, Some (k\<lparr>rd_key := expand256 0 0 rk\<rparr>))
             else (0, Some (k\<lparr>rd_key := rk\<rparr>))
    | _ \<Rightarrow> (-1, key))"

text \<open>\<^verbatim>\<open>AES_set_decrypt_key\<close>: swap the round keys end to end, then mix all but the outer two.\<close>

definition swap_words :: "nat \<Rightarrow> nat \<Rightarrow> u32 list \<Rightarrow> u32 list" where
  "swap_words i j rk = (let temp = rk ! i in rk[i := rk ! j, j := temp])"

function (sequential) invert_order :: "nat \<Rightarrow> nat \<Rightarrow> u32 list \<Rightarrow> u32 list" where
  "invert_order i j rk =
    (if i < j
     then invert_order (i + 4) (j - 4)
       (swap_words (i + 3) (j + 3) (swap_words (i + 2) (j + 2)
          (swap_words (i + 1) (j + 1) (swap_words i j rk))))
     else rk)"
  by pat_completeness auto
termination by (relation "measure (\<lambda>(i, j, rk). j - i)") auto

declare invert_order.simps [simp del]

definition inv_mix_word :: "u32 \<Rightarrow> u32" where
  "inv_mix_word w =
     Td0 ! unat (Te1 ! unat (drop_bit 24 w) AND 0xff) XOR
     Td1 ! unat (Te1 ! unat (drop_bit 16 w AND 0xff) AND 0xff) XOR
     Td2 ! unat (Te1 ! unat (drop_bit 8 w AND 0xff) AND 0xff) XOR
     Td3 ! unat (Te1 ! unat (w AND 0xff) AND 0xff)"

primrec mix_keys :: "nat \<Rightarrow> nat \<Rightarrow> u32 list \<Rightarrow> u32 list" where
  "mix_keys 0 p rk = rk"
| "mix_keys (Suc n) p rk =
    (let p = p + 4
     in mix_keys n p (rk[p := inv_mix_word (rk ! p), p + 1 := inv_mix_word (rk ! (p + 1)),
          p + 2 := inv_mix_word (rk ! (p + 2)), p + 3 := inv_mix_word (rk ! (p + 3))]))"

definition AES_set_decrypt_key ::
  "u8 list option \<Rightarrow> int \<Rightarrow> AES_KEY option \<Rightarrow> int \<times> AES_KEY option" where
  "AES_set_decrypt_key userKey bits key =
    (case AES_set_encrypt_key userKey bits key of
      (status, Some k) \<Rightarrow>
        if status < 0 then (status, Some k)
        else
          let rk = invert_order 0 (4 * rounds k) (rd_key k);
              rk = mix_keys (rounds k - 1) 0 rk
          in (0, Some (k\<lparr>rd_key := rk\<rparr>))
    | (status, None) \<Rightarrow> (status, None))"

type_synonym aes_state = "u32 \<times> u32 \<times> u32 \<times> u32"

text \<open>
  \<open>get_state\<close>: the block read as four words with the first round key added.
  One full round computes four words from the tables and the round key at \<open>p\<close>.
\<close>

definition get_state :: "u8 list \<Rightarrow> u32 list \<Rightarrow> aes_state" where
  "get_state inp rk = (GETU32 inp 0 XOR rk ! 0, GETU32 inp 4 XOR rk ! 1,
     GETU32 inp 8 XOR rk ! 2, GETU32 inp 12 XOR rk ! 3)"

definition Te_word :: "u32 \<Rightarrow> u32 \<Rightarrow> u32 \<Rightarrow> u32 \<Rightarrow> u32 \<Rightarrow> u32" where
  "Te_word s0 s1 s2 s3 k =
     Te0 ! unat (drop_bit 24 s0) XOR
     Te1 ! unat (drop_bit 16 s1 AND 0xff) XOR
     Te2 ! unat (drop_bit 8 s2 AND 0xff) XOR
     Te3 ! unat (s3 AND 0xff) XOR k"

fun enc_round :: "u32 list \<Rightarrow> nat \<Rightarrow> aes_state \<Rightarrow> aes_state" where
  "enc_round rk p (s0, s1, s2, s3) =
    (Te_word s0 s1 s2 s3 (rk ! p), Te_word s1 s2 s3 s0 (rk ! (p + 1)),
     Te_word s2 s3 s0 s1 (rk ! (p + 2)), Te_word s3 s0 s1 s2 (rk ! (p + 3)))"

definition Te_last :: "u32 \<Rightarrow> u32 \<Rightarrow> u32 \<Rightarrow> u32 \<Rightarrow> u32 \<Rightarrow> u32" where
  "Te_last t0 t1 t2 t3 k =
     (Te2 ! unat (drop_bit 24 t0) AND 0xff000000) XOR
     (Te3 ! unat (drop_bit 16 t1 AND 0xff) AND 0x00ff0000) XOR
     (Te0 ! unat (drop_bit 8 t2 AND 0xff) AND 0x0000ff00) XOR
     (Te1 ! unat (t3 AND 0xff) AND 0x000000ff) XOR k"

fun enc_last :: "u32 list \<Rightarrow> nat \<Rightarrow> aes_state \<Rightarrow> u8 list" where
  "enc_last rk p (t0, t1, t2, t3) =
     PUTU32 (Te_last t0 t1 t2 t3 (rk ! p)) @ PUTU32 (Te_last t1 t2 t3 t0 (rk ! (p + 1))) @
     PUTU32 (Te_last t2 t3 t0 t1 (rk ! (p + 2))) @ PUTU32 (Te_last t3 t0 t1 t2 (rk ! (p + 3)))"

text \<open>
  The loop over double rounds: \<open>r\<close> counts down to the \<^verbatim>\<open>break\<close>. A schedule whose \<^verbatim>\<open>rounds\<close> is
  below 2 never meets \<^verbatim>\<open>--r == 0\<close> and one above 14 leaves the 60 words of \<^verbatim>\<open>rd_key\<close>: both read
  out of bounds, which is \<open>None\<close>.
\<close>

fun enc_loop :: "nat \<Rightarrow> u32 list \<Rightarrow> nat \<Rightarrow> aes_state \<Rightarrow> (aes_state \<times> nat) option" where
  "enc_loop 0 rk p s = None"
| "enc_loop (Suc r) rk p s =
    (let t = enc_round rk (p + 4) s;
         p = p + 8
     in if r = 0 then Some (t, p) else enc_loop r rk p (enc_round rk p t))"

definition AES_encrypt :: "u8 list \<Rightarrow> AES_KEY \<Rightarrow> u8 list option" where
  "AES_encrypt inp key =
    (if AES_MAXNR < rounds key then None
     else do {
       (t, p) \<leftarrow> enc_loop (drop_bit 1 (rounds key)) (rd_key key) 0 (get_state inp (rd_key key));
       Some (enc_last (rd_key key) p t)
     })"

definition AES_encrypt_unrolled :: "u8 list \<Rightarrow> AES_KEY \<Rightarrow> u8 list" where
  "AES_encrypt_unrolled inp key =
    (let rk = rd_key key;
         s = get_state inp rk;
         t = enc_round rk 4 s;   s = enc_round rk 8 t;
         t = enc_round rk 12 s;  s = enc_round rk 16 t;
         t = enc_round rk 20 s;  s = enc_round rk 24 t;
         t = enc_round rk 28 s;  s = enc_round rk 32 t;
         t = enc_round rk 36 s;
         t = (if 10 < rounds key then
                let s = enc_round rk 40 t; t = enc_round rk 44 s
                in if 12 < rounds key then let s = enc_round rk 48 t in enc_round rk 52 s else t
              else t)
     in enc_last rk (push_bit 2 (rounds key)) t)"

definition Td_word :: "u32 \<Rightarrow> u32 \<Rightarrow> u32 \<Rightarrow> u32 \<Rightarrow> u32 \<Rightarrow> u32" where
  "Td_word s0 s3 s2 s1 k =
     Td0 ! unat (drop_bit 24 s0) XOR
     Td1 ! unat (drop_bit 16 s3 AND 0xff) XOR
     Td2 ! unat (drop_bit 8 s2 AND 0xff) XOR
     Td3 ! unat (s1 AND 0xff) XOR k"

fun dec_round :: "u32 list \<Rightarrow> nat \<Rightarrow> aes_state \<Rightarrow> aes_state" where
  "dec_round rk p (s0, s1, s2, s3) =
    (Td_word s0 s3 s2 s1 (rk ! p), Td_word s1 s0 s3 s2 (rk ! (p + 1)),
     Td_word s2 s1 s0 s3 (rk ! (p + 2)), Td_word s3 s2 s1 s0 (rk ! (p + 3)))"

text \<open>
  \<^verbatim>\<open>Td4\<close> holds bytes; shifted by 24 they are \<^verbatim>\<open>int\<close>s that wrap into the sign bit, and the \<^verbatim>\<open>^\<close>
  with a \<^verbatim>\<open>u32\<close> reads the same 32 bits as unsigned.
\<close>

definition Td_last :: "u32 \<Rightarrow> u32 \<Rightarrow> u32 \<Rightarrow> u32 \<Rightarrow> u32 \<Rightarrow> u32" where
  "Td_last t0 t3 t2 t1 k =
     push_bit 24 (ucast (Td4 ! unat (drop_bit 24 t0))) XOR
     push_bit 16 (ucast (Td4 ! unat (drop_bit 16 t3 AND 0xff))) XOR
     push_bit 8 (ucast (Td4 ! unat (drop_bit 8 t2 AND 0xff))) XOR
     ucast (Td4 ! unat (t1 AND 0xff)) XOR k"

fun dec_last :: "u32 list \<Rightarrow> nat \<Rightarrow> aes_state \<Rightarrow> u8 list" where
  "dec_last rk p (t0, t1, t2, t3) =
     PUTU32 (Td_last t0 t3 t2 t1 (rk ! p)) @ PUTU32 (Td_last t1 t0 t3 t2 (rk ! (p + 1))) @
     PUTU32 (Td_last t2 t1 t0 t3 (rk ! (p + 2))) @ PUTU32 (Td_last t3 t2 t1 t0 (rk ! (p + 3)))"

fun dec_loop :: "nat \<Rightarrow> u32 list \<Rightarrow> nat \<Rightarrow> aes_state \<Rightarrow> (aes_state \<times> nat) option" where
  "dec_loop 0 rk p s = None"
| "dec_loop (Suc r) rk p s =
    (let t = dec_round rk (p + 4) s;
         p = p + 8
     in if r = 0 then Some (t, p) else dec_loop r rk p (dec_round rk p t))"

definition AES_decrypt :: "u8 list \<Rightarrow> AES_KEY \<Rightarrow> u8 list option" where
  "AES_decrypt inp key =
    (if AES_MAXNR < rounds key then None
     else do {
       (t, p) \<leftarrow> dec_loop (drop_bit 1 (rounds key)) (rd_key key) 0 (get_state inp (rd_key key));
       Some (dec_last (rd_key key) p t)
     })"

definition AES_decrypt_unrolled :: "u8 list \<Rightarrow> AES_KEY \<Rightarrow> u8 list" where
  "AES_decrypt_unrolled inp key =
    (let rk = rd_key key;
         s = get_state inp rk;
         t = dec_round rk 4 s;   s = dec_round rk 8 t;
         t = dec_round rk 12 s;  s = dec_round rk 16 t;
         t = dec_round rk 20 s;  s = dec_round rk 24 t;
         t = dec_round rk 28 s;  s = dec_round rk 32 t;
         t = dec_round rk 36 s;
         t = (if 10 < rounds key then
                let s = dec_round rk 40 t; t = dec_round rk 44 s
                in if 12 < rounds key then let s = dec_round rk 48 t in dec_round rk 52 s else t
              else t)
     in dec_last rk (push_bit 2 (rounds key)) t)"

end
