(* ===== verification/Aes_Cipher.thy ===== *)
theory Aes_Cipher
  imports Aes_Core
begin

text \<open>
  The cipher of FIPS-197 and the proof that the code of \<open>Aes_Core\<close> computes it. The state is
  four column words; \<open>w\<close> is the sequence of key words. \<open>cipher\<close> and \<open>inv_cipher\<close> follow
  figures 5 and 12 of the standard, \<open>key_word\<close> the key expansion of figure 11.
\<close>

section \<open>The standard\<close>

definition b3 :: "u32 \<Rightarrow> u8" where "b3 w = ucast (drop_bit 24 w)"
definition b2 :: "u32 \<Rightarrow> u8" where "b2 w = ucast (drop_bit 16 w)"
definition b1 :: "u32 \<Rightarrow> u8" where "b1 w = ucast (drop_bit 8 w)"
definition b0 :: "u32 \<Rightarrow> u8" where "b0 w = ucast w"

definition sub_word :: "u32 \<Rightarrow> u32" where
  "sub_word w = pack32 (sub_byte (b3 w)) (sub_byte (b2 w)) (sub_byte (b1 w)) (sub_byte (b0 w))"

definition rot_word :: "u32 \<Rightarrow> u32" where
  "rot_word w = pack32 (b2 w) (b1 w) (b0 w) (b3 w)"

fun sub_bytes :: "aes_state \<Rightarrow> aes_state" where
  "sub_bytes (c0, c1, c2, c3) = (sub_word c0, sub_word c1, sub_word c2, sub_word c3)"

fun shift_rows :: "aes_state \<Rightarrow> aes_state" where
  "shift_rows (c0, c1, c2, c3) =
    (pack32 (b3 c0) (b2 c1) (b1 c2) (b0 c3), pack32 (b3 c1) (b2 c2) (b1 c3) (b0 c0),
     pack32 (b3 c2) (b2 c3) (b1 c0) (b0 c1), pack32 (b3 c3) (b2 c0) (b1 c1) (b0 c2))"

definition mix_column :: "u32 \<Rightarrow> u32" where
  "mix_column w = (let a = b3 w; b = b2 w; c = b1 w; d = b0 w in
     pack32 (xtime a XOR mul3 b XOR c XOR d) (a XOR xtime b XOR mul3 c XOR d)
       (a XOR b XOR xtime c XOR mul3 d) (mul3 a XOR b XOR c XOR xtime d))"

fun mix_columns :: "aes_state \<Rightarrow> aes_state" where
  "mix_columns (c0, c1, c2, c3) = (mix_column c0, mix_column c1, mix_column c2, mix_column c3)"

definition inv_sub_word :: "u32 \<Rightarrow> u32" where
  "inv_sub_word w = pack32 (inv_sub_byte (b3 w)) (inv_sub_byte (b2 w))
     (inv_sub_byte (b1 w)) (inv_sub_byte (b0 w))"

fun inv_sub_bytes :: "aes_state \<Rightarrow> aes_state" where
  "inv_sub_bytes (c0, c1, c2, c3) =
     (inv_sub_word c0, inv_sub_word c1, inv_sub_word c2, inv_sub_word c3)"

fun inv_shift_rows :: "aes_state \<Rightarrow> aes_state" where
  "inv_shift_rows (c0, c1, c2, c3) =
    (pack32 (b3 c0) (b2 c3) (b1 c2) (b0 c1), pack32 (b3 c1) (b2 c0) (b1 c3) (b0 c2),
     pack32 (b3 c2) (b2 c1) (b1 c0) (b0 c3), pack32 (b3 c3) (b2 c2) (b1 c1) (b0 c0))"

definition inv_mix_column :: "u32 \<Rightarrow> u32" where
  "inv_mix_column w = (let a = b3 w; b = b2 w; c = b1 w; d = b0 w in
     pack32 (mul14 a XOR mul11 b XOR mul13 c XOR mul9 d) (mul9 a XOR mul14 b XOR mul11 c XOR mul13 d)
       (mul13 a XOR mul9 b XOR mul14 c XOR mul11 d) (mul11 a XOR mul13 b XOR mul9 c XOR mul14 d))"

fun inv_mix_columns :: "aes_state \<Rightarrow> aes_state" where
  "inv_mix_columns (c0, c1, c2, c3) =
     (inv_mix_column c0, inv_mix_column c1, inv_mix_column c2, inv_mix_column c3)"

fun add_round_key :: "(nat \<Rightarrow> u32) \<Rightarrow> nat \<Rightarrow> aes_state \<Rightarrow> aes_state" where
  "add_round_key w r (c0, c1, c2, c3) =
     (c0 XOR w (4 * r), c1 XOR w (4 * r + 1), c2 XOR w (4 * r + 2), c3 XOR w (4 * r + 3))"

primrec cipher_rounds :: "(nat \<Rightarrow> u32) \<Rightarrow> nat \<Rightarrow> aes_state \<Rightarrow> aes_state" where
  "cipher_rounds w 0 s = add_round_key w 0 s"
| "cipher_rounds w (Suc n) s =
     add_round_key w (Suc n) (mix_columns (shift_rows (sub_bytes (cipher_rounds w n s))))"

definition cipher :: "(nat \<Rightarrow> u32) \<Rightarrow> nat \<Rightarrow> aes_state \<Rightarrow> aes_state" where
  "cipher w nr s = add_round_key w nr (shift_rows (sub_bytes (cipher_rounds w (nr - 1) s)))"

primrec inv_cipher_rounds :: "(nat \<Rightarrow> u32) \<Rightarrow> nat \<Rightarrow> nat \<Rightarrow> aes_state \<Rightarrow> aes_state" where
  "inv_cipher_rounds w nr 0 s = add_round_key w nr s"
| "inv_cipher_rounds w nr (Suc n) s =
     inv_mix_columns (add_round_key w (nr - Suc n)
       (inv_sub_bytes (inv_shift_rows (inv_cipher_rounds w nr n s))))"

definition inv_cipher :: "(nat \<Rightarrow> u32) \<Rightarrow> nat \<Rightarrow> aes_state \<Rightarrow> aes_state" where
  "inv_cipher w nr s =
     add_round_key w 0 (inv_sub_bytes (inv_shift_rows (inv_cipher_rounds w nr (nr - 1) s)))"

definition rcon_word :: "nat \<Rightarrow> u32" where
  "rcon_word i = pack32 ((xtime ^^ (i - 1)) 1) 0 0 0"

function key_word :: "u8 list \<Rightarrow> nat \<Rightarrow> nat \<Rightarrow> u32" where
  "key_word key nk i =
    (if i < nk \<or> nk = 0 then GETU32 key (4 * i)
     else let temp = key_word key nk (i - 1);
              temp = (if i mod nk = 0 then sub_word (rot_word temp) XOR rcon_word (i div nk)
                      else if 6 < nk \<and> i mod nk = 4 then sub_word temp else temp)
          in key_word key nk (i - nk) XOR temp)"
  by pat_completeness auto
termination by (relation "measure (\<lambda>(key, nk, i). i)") auto

declare key_word.simps [simp del]

definition state_of :: "u8 list \<Rightarrow> aes_state" where
  "state_of inp = (GETU32 inp 0, GETU32 inp 4, GETU32 inp 8, GETU32 inp 12)"

fun bytes_of :: "aes_state \<Rightarrow> u8 list" where
  "bytes_of (c0, c1, c2, c3) = PUTU32 c0 @ PUTU32 c1 @ PUTU32 c2 @ PUTU32 c3"

section \<open>Bytes and words\<close>

lemma bit_b [simp]:
  "bit (b3 w) n \<longleftrightarrow> n < 8 \<and> bit w (n + 24)" "bit (b2 w) n \<longleftrightarrow> n < 8 \<and> bit w (n + 16)"
  "bit (b1 w) n \<longleftrightarrow> n < 8 \<and> bit w (n + 8)" "bit (b0 w) n \<longleftrightarrow> n < 8 \<and> bit w n"
  by (auto simp: b3_def b2_def b1_def b0_def bit_ucast_iff bit_drop_bit_eq ac_simps)

lemma bit_pack32:
  "bit (pack32 a b c d) n \<longleftrightarrow>
     (if n < 8 then bit d n else if n < 16 then bit c (n - 8)
      else if n < 24 then bit b (n - 16) else n < 32 \<and> bit a (n - 24))"
  by (auto simp: pack32_def bit_xor_iff bit_push_bit_iff bit_ucast_iff dest: bit_imp_le_length)

lemma pack32_bytes [simp]: "pack32 (b3 w) (b2 w) (b1 w) (b0 w) = w"
  by (rule bit_word_eqI) (auto simp: bit_pack32)

lemma bytes_pack32 [simp]:
  "b3 (pack32 a b c d) = a" "b2 (pack32 a b c d) = b" "b1 (pack32 a b c d) = c"
  "b0 (pack32 a b c d) = d"
  by (rule bit_word_eqI, auto simp: bit_pack32)+

lemma pack32_xor: "pack32 a b c d XOR pack32 a' b' c' d' =
    pack32 (a XOR a') (b XOR b') (c XOR c') (d XOR d')"
  by (rule bit_word_eqI) (simp add: bit_pack32 bit_xor_iff)

lemma bytes_xor [simp]:
  "b3 (v XOR w) = b3 v XOR b3 w" "b2 (v XOR w) = b2 v XOR b2 w" "b1 (v XOR w) = b1 v XOR b1 w"
  "b0 (v XOR w) = b0 v XOR b0 w"
  by (rule bit_word_eqI, auto simp: bit_xor_iff)+

lemma mask_words:
  "0xff000000 = (push_bit 24 (mask 8) :: u32)" "0x00ff0000 = (push_bit 16 (mask 8) :: u32)"
  "0x0000ff00 = (push_bit 8 (mask 8) :: u32)" "0x000000ff = (mask 8 :: u32)"
  by (simp_all add: mask_eq_exp_minus_1)

lemma pack32_masks [simp]:
  "pack32 a b c d AND 0xff000000 = pack32 a 0 0 0" "pack32 a b c d AND 0x00ff0000 = pack32 0 b 0 0"
  "pack32 a b c d AND 0x0000ff00 = pack32 0 0 c 0" "pack32 a b c d AND 0x000000ff = pack32 0 0 0 d"
  by (rule bit_word_eqI, simp only: mask_words,
      auto simp: bit_pack32 bit_and_iff bit_push_bit_iff bit_mask_iff)+

lemma unat_byte: "unat (ucast (b :: u8) :: u32) = unat b"
proof -
  have "unat b < 4294967296" using unat_lt_256 [of b] by linarith
  then show ?thesis by (simp add: unsigned_ucast_eq take_bit_nat_eq_self_iff)
qed

lemma byte_index:
  "unat (drop_bit 24 w) = unat (b3 w)" "unat (w AND 0xff) = unat (b0 w)"
  "b0 (drop_bit 16 w) = b2 w" "b0 (drop_bit 8 w) = b1 w" for w :: u32
proof -
  have "drop_bit 24 w = ucast (b3 w)"
    by (rule bit_word_eqI) (auto simp: bit_drop_bit_eq bit_ucast_iff ac_simps dest: bit_imp_le_length)
  then show "unat (drop_bit 24 w) = unat (b3 w)" by (simp only: unat_byte)
  have "w AND 0xff = ucast (b0 w)"
    by (rule bit_word_eqI, simp only: mask_words)
      (auto simp: bit_and_iff bit_mask_iff bit_ucast_iff)
  then show "unat (w AND 0xff) = unat (b0 w)" by (simp only: unat_byte)
  show "b0 (drop_bit 16 w) = b2 w" "b0 (drop_bit 8 w) = b1 w"
    by (simp_all add: b0_def b1_def b2_def)
qed

text \<open>Reading a table at a byte of a word.\<close>

lemmas table_index = byte_index Te0_nth Te1_nth Te2_nth Te3_nth
  Td0_nth Td1_nth Td2_nth Td3_nth Td4_nth

lemma expand_core_eq: "expand_core w = sub_word (rot_word w)"
  by (simp add: expand_core_def table_index pack32_xor sub_word_def rot_word_def)

lemma expand_mid_eq: "expand_mid w = sub_word w"
  by (simp add: expand_mid_def table_index pack32_xor sub_word_def)

lemma Te_word_eq:
  "Te_word s0 s1 s2 s3 k =
    mix_column (pack32 (sub_byte (b3 s0)) (sub_byte (b2 s1)) (sub_byte (b1 s2)) (sub_byte (b0 s3))) XOR k"
  by (simp add: Te_word_def table_index pack32_xor mix_column_def Let_def
      flip: xor.assoc)

lemma Te_last_eq:
  "Te_last s0 s1 s2 s3 k =
    pack32 (sub_byte (b3 s0)) (sub_byte (b2 s1)) (sub_byte (b1 s2)) (sub_byte (b0 s3)) XOR k"
  by (simp add: Te_last_def table_index pack32_xor flip: xor.assoc)

lemma Td_word_eq:
  "Td_word s0 s3 s2 s1 k =
    inv_mix_column (pack32 (inv_sub_byte (b3 s0)) (inv_sub_byte (b2 s3)) (inv_sub_byte (b1 s2))
      (inv_sub_byte (b0 s1))) XOR k"
  by (simp add: Td_word_def table_index pack32_xor inv_mix_column_def Let_def flip: xor.assoc)

lemma Td_last_eq:
  "Td_last s0 s3 s2 s1 k =
    pack32 (inv_sub_byte (b3 s0)) (inv_sub_byte (b2 s3)) (inv_sub_byte (b1 s2)) (inv_sub_byte (b0 s1)) XOR k"
  by (simp add: Td_last_def table_index pack32_def flip: xor.assoc)

lemma sub_unpack: "unat (pack32 a b c d AND 0xff) = unat d"
  by (simp only: byte_index bytes_pack32)

lemma inv_mix_word_eq: "inv_mix_word w = inv_mix_column w"
  by (simp add: inv_mix_word_def table_index sub_unpack pack32_xor inv_mix_column_def Let_def
       flip: xor.assoc del: pack32_masks)

section \<open>Columns\<close>

lemma muls_xor:
  "mul3 (a XOR b) = mul3 a XOR mul3 b" "mul9 (a XOR b) = mul9 a XOR mul9 b"
  "mul11 (a XOR b) = mul11 a XOR mul11 b" "mul13 (a XOR b) = mul13 a XOR mul13 b"
  "mul14 (a XOR b) = mul14 a XOR mul14 b"
  by (simp_all add: mul3_def mul9_def mul11_def mul13_def mul14_def xtime_xor ac_simps)

lemma inv_mix_column_xor: "inv_mix_column (v XOR w) = inv_mix_column v XOR inv_mix_column w"
  by (simp add: inv_mix_column_def Let_def muls_xor pack32_xor ac_simps)

lemma xor_cancel_left: "a XOR (a XOR b) = (b :: u8)"
  by (simp flip: xor.assoc)

lemma inv_mix_mix [simp]: "inv_mix_column (mix_column w) = w"
  by (simp add: inv_mix_column_def mix_column_def Let_def mul3_def mul9_def mul11_def mul13_def
     mul14_def xtime_xor ac_simps xor_cancel_left)

section \<open>The block functions compute the cipher\<close>

lemma GETU32_pack: "GETU32 pt i = pack32 (pt ! i) (pt ! (i + 1)) (pt ! (i + 2)) (pt ! (i + 3))"
  by (simp add: GETU32_def pack32_def)

lemma PUTU32_bytes: "PUTU32 w = [b3 w, b2 w, b1 w, b0 w]"
  by (simp add: PUTU32_def b3_def b2_def b1_def b0_def)

lemma state_of_bytes_of [simp]: "state_of (bytes_of s) = s"
  by (cases s) (simp add: state_of_def PUTU32_bytes GETU32_pack)

lemma length_bytes_of [simp]: "length (bytes_of s) = 16"
  by (cases s) (simp add: PUTU32_bytes)

lemma bytes_of_state_of: "length b = 16 \<Longrightarrow> bytes_of (state_of b) = b"
  by (auto simp: state_of_def PUTU32_bytes GETU32_pack numeral_eq_Suc length_Suc_conv)

lemma add_round_key_twice [simp]: "add_round_key w r (add_round_key w r s) = s"
  by (cases s) (simp add: xor.assoc)

lemma inv_sub_bytes_shift [simp]:
  "inv_sub_bytes (inv_shift_rows (shift_rows (sub_bytes s))) = s"
  by (cases s) (simp add: sub_word_def inv_sub_word_def)

lemma inv_mix_columns_mix [simp]: "inv_mix_columns (mix_columns s) = s"
  by (cases s) simp

lemma inv_cipher_rounds_cipher:
  assumes "n < nr"
  shows "inv_cipher_rounds w nr n (cipher w nr s) = shift_rows (sub_bytes (cipher_rounds w (nr - 1 - n) s))"
  using assms
proof (induction n)
  case 0
  then show ?case by (simp add: cipher_def)
next
  case (Suc n)
  then obtain k where k: "nr - 1 - n = Suc k" "nr - Suc n = Suc k" "nr - Suc (Suc n) = k"
    by (metis Suc_diff_Suc diff_Suc_eq_diff_pred diff_commute)
  show ?case
    using Suc by (simp add: k)
qed

lemma inv_cipher_cipher: "0 < nr \<Longrightarrow> inv_cipher w nr (cipher w nr s) = s"
  by (simp add: inv_cipher_def inv_cipher_rounds_cipher)

lemma get_state_eq: "get_state inp rk = add_round_key ((!) rk) 0 (state_of inp)"
  by (simp add: get_state_def state_of_def numeral_2_eq_2)

lemma enc_round_eq:
  "enc_round rk (4 * r) s = add_round_key ((!) rk) r (mix_columns (shift_rows (sub_bytes s)))"
  by (cases s) (simp add: Te_word_eq sub_word_def)

lemma enc_last_eq:
  "enc_last rk (4 * r) s = bytes_of (add_round_key ((!) rk) r (shift_rows (sub_bytes s)))"
  by (cases s) (simp add: Te_last_eq sub_word_def)

lemma enc_round_step:
  "enc_round rk (4 * n + 4) (cipher_rounds ((!) rk) n s) = cipher_rounds ((!) rk) (Suc n) s"
  "enc_round rk (4 * n + 8) (cipher_rounds ((!) rk) (Suc n) s) = cipher_rounds ((!) rk) (Suc (Suc n)) s"
  using enc_round_eq [of rk "Suc n"] enc_round_eq [of rk "Suc (Suc n)"] by (simp_all add: add.commute)

lemma enc_loop_eq:
  "enc_loop (Suc r) rk (4 * n) (cipher_rounds ((!) rk) n s) =
     Some (cipher_rounds ((!) rk) (n + 2 * r + 1) s, 4 * (n + 2 * r + 2))"
proof (induction r arbitrary: n)
  case 0
  show ?case by (simp add: enc_round_step del: cipher_rounds.simps)
next
  case (Suc r)
  have "enc_loop (Suc (Suc r)) rk (4 * n) (cipher_rounds ((!) rk) n s) =
      enc_loop (Suc r) rk (4 * (n + 2)) (cipher_rounds ((!) rk) (n + 2) s)"
    by (subst enc_loop.simps(2))
      (simp add: Let_def enc_round_step add.commute [of 8] del: enc_loop.simps cipher_rounds.simps)
  then show ?case using Suc.IH [of "n + 2"] by simp
qed

lemma AES_encrypt_cipher:
  assumes "even (rounds key)" "0 < rounds key" "rounds key \<le> 14"
  shows "AES_encrypt inp key = Some (bytes_of (cipher ((!) (rd_key key)) (rounds key) (state_of inp)))"
proof -
  obtain r where r: "rounds key = 2 * Suc r"
    using assms by (metis evenE gr0_implies_Suc nat_0_less_mult_iff)
  then have "drop_bit 1 (rounds key) = Suc r" by (simp add: drop_bit_Suc)
  then show ?thesis
    using enc_loop_eq [of r "rd_key key" 0 "state_of inp"] enc_last_eq [of "rd_key key" "rounds key"] assms
    by (simp add: AES_encrypt_def AES_MAXNR_def get_state_eq cipher_def r del: enc_loop.simps)
qed

text \<open>The words of a decryption schedule over the key words \<open>w\<close>.\<close>

definition dec_schedule :: "(nat \<Rightarrow> u32) \<Rightarrow> nat \<Rightarrow> u32 list \<Rightarrow> bool" where
  "dec_schedule w nr d \<longleftrightarrow> (\<forall>r\<le>nr. \<forall>c<4.
     d ! (4 * r + c) = (if r = 0 \<or> r = nr then w (4 * (nr - r) + c) else inv_mix_column (w (4 * (nr - r) + c))))"

lemma dec_schedule_ends:
  assumes "dec_schedule w nr d" "r = 0 \<or> r = nr"
  shows "add_round_key ((!) d) r = add_round_key w (nr - r)"
proof
  fix s
  have "d ! (4 * r + c) = w (4 * (nr - r) + c)" if "c < 4" for c
    using assms that unfolding dec_schedule_def by auto
  from this [of 0] this [of 1] this [of 2] this [of 3]
  show "add_round_key ((!) d) r s = add_round_key w (nr - r) s"
    by (cases s) simp
qed

lemma dec_schedule_inner:
  assumes "dec_schedule w nr d" "0 < r" "r < nr"
  shows "add_round_key ((!) d) r (inv_mix_columns s) = inv_mix_columns (add_round_key w (nr - r) s)"
proof -
  have "d ! (4 * r + c) = inv_mix_column (w (4 * (nr - r) + c))" if "c < 4" for c
    using assms that unfolding dec_schedule_def by auto
  from this [of 0] this [of 1] this [of 2] this [of 3]
  show ?thesis by (cases s) (simp add: inv_mix_column_xor)
qed

lemma dec_round_eq:
  "dec_round rk (4 * r) s = add_round_key ((!) rk) r (inv_mix_columns (inv_sub_bytes (inv_shift_rows s)))"
  by (cases s) (simp add: Td_word_eq inv_sub_word_def)

lemma dec_last_eq:
  "dec_last rk (4 * r) s = bytes_of (add_round_key ((!) rk) r (inv_sub_bytes (inv_shift_rows s)))"
  by (cases s) (simp add: Td_last_eq inv_sub_word_def)

lemma dec_round_step:
  assumes "dec_schedule w nr d" "Suc n < nr"
  shows "dec_round d (4 * Suc n) (inv_cipher_rounds w nr n s) = inv_cipher_rounds w nr (Suc n) s"
  using dec_schedule_inner [OF assms(1), of "Suc n"] assms(2) by (simp only: dec_round_eq) simp

lemma dec_loop_eq:
  assumes "dec_schedule w nr d"
  shows "n + 2 * r + 1 < nr \<Longrightarrow> dec_loop (Suc r) d (4 * n) (inv_cipher_rounds w nr n s) =
     Some (inv_cipher_rounds w nr (n + 2 * r + 1) s, 4 * (n + 2 * r + 2))"
proof (induction r arbitrary: n)
  case 0
  then show ?case
    using dec_round_step [OF assms, of n] by (simp add: add.commute del: inv_cipher_rounds.simps)
next
  case (Suc r)
  then have "dec_round d (4 * n + 4) (inv_cipher_rounds w nr n s) = inv_cipher_rounds w nr (Suc n) s"
    "dec_round d (4 * n + 8) (inv_cipher_rounds w nr (Suc n) s) = inv_cipher_rounds w nr (Suc (Suc n)) s"
    using dec_round_step [OF assms, of n s] dec_round_step [OF assms, of "Suc n" s]
    by (simp_all add: add.commute del: inv_cipher_rounds.simps)
  then have "dec_loop (Suc (Suc r)) d (4 * n) (inv_cipher_rounds w nr n s) =
      dec_loop (Suc r) d (4 * (n + 2)) (inv_cipher_rounds w nr (n + 2) s)"
    by (subst dec_loop.simps(2))
      (simp add: Let_def add.commute del: dec_loop.simps inv_cipher_rounds.simps)
  then show ?case
    using Suc.IH [of "n + 2"] Suc.prems by (simp del: inv_cipher_rounds.simps dec_loop.simps)
qed

lemma AES_decrypt_inv_cipher:
  assumes "even (rounds key)" "0 < rounds key" "rounds key \<le> 14"
    and d: "dec_schedule w (rounds key) (rd_key key)"
  shows "AES_decrypt inp key = Some (bytes_of (inv_cipher w (rounds key) (state_of inp)))"
proof -
  obtain r where r: "rounds key = 2 * Suc r"
    using assms by (metis evenE gr0_implies_Suc nat_0_less_mult_iff)
  then have "drop_bit 1 (rounds key) = Suc r" by (simp add: drop_bit_Suc)
  then show ?thesis
    using dec_loop_eq [OF d, of 0 r "state_of inp"] dec_last_eq [of "rd_key key" "rounds key"]
      dec_schedule_ends [OF d, of 0] dec_schedule_ends [OF d, of "rounds key"] assms
    by (simp add: AES_decrypt_def AES_MAXNR_def get_state_eq inv_cipher_def r del: dec_loop.simps)
qed

section \<open>The key schedules are the expanded keys\<close>

definition expanded :: "u8 list \<Rightarrow> nat \<Rightarrow> nat \<Rightarrow> u32 list \<Rightarrow> bool" where
  "expanded key nk n rk \<longleftrightarrow> length rk = 60 \<and> (\<forall>j<n. rk ! j = key_word key nk j)"

lemma expandedD: "expanded key nk n rk \<Longrightarrow> j < n \<Longrightarrow> rk ! j = key_word key nk j"
  by (simp add: expanded_def)

lemma expanded_next:
  "expanded key nk n rk \<Longrightarrow> n < 60 \<Longrightarrow> v = key_word key nk n \<Longrightarrow> expanded key nk (Suc n) (rk[n := v])"
  by (auto simp: expanded_def nth_list_update less_Suc_eq)

lemma expanded_mono: "expanded key nk n rk \<Longrightarrow> m \<le> n \<Longrightarrow> expanded key nk m rk"
  by (auto simp: expanded_def)

lemma key_word_first: "i < nk \<Longrightarrow> key_word key nk i = GETU32 key (4 * i)"
  by (simp add: key_word.simps)

lemma key_word_core:
  assumes "p = nk * i" "0 < nk"
  shows "key_word key nk (p + nk) = key_word key nk p XOR
     (expand_core (key_word key nk (p + nk - 1)) XOR rcon_word (Suc i))"
  using assms by (subst key_word.simps) (simp add: expand_core_eq Let_def)

lemma key_word_plain:
  assumes "p = nk * i" "0 < c" "c < nk" "nk \<le> 6 \<or> c \<noteq> 4"
  shows "key_word key nk (p + nk + c) = key_word key nk (p + c) XOR key_word key nk (p + nk + c - 1)"
proof -
  have "p + nk + c = c + nk * Suc i" using assms by simp
  then have m: "(p + nk + c) mod nk = c" using assms by (simp only: mod_mult_self2 mod_less)
  have "p + nk + c - nk = p + c" by simp
  then show ?thesis
    using assms(2-4) by (subst key_word.simps) (auto simp: m Let_def)
qed

lemma key_word_mid:
  assumes "p = 8 * i"
  shows "key_word key 8 (p + 12) = key_word key 8 (p + 4) XOR expand_mid (key_word key 8 (p + 11))"
proof -
  have m: "(p + 12) mod 8 = 4" using assms by presburger
  show ?thesis
    by (subst key_word.simps) (simp add: m expand_mid_eq Let_def add.commute)
qed

lemma rcon_eq: "i < 10 \<Longrightarrow> rcon ! i = rcon_word (Suc i)"
proof -
  have "list_all (\<lambda>i. rcon ! i = rcon_word (Suc i)) [0..<10]" by code_simp
  then show "i < 10 \<Longrightarrow> rcon ! i = rcon_word (Suc i)" by (simp add: list_all_iff)
qed

lemma expanded_xor:
  "expanded key nk n rk \<Longrightarrow> a < n \<Longrightarrow> b < n \<Longrightarrow> n < 60 \<Longrightarrow>
   key_word key nk n = key_word key nk a XOR key_word key nk b \<Longrightarrow> m = Suc n \<Longrightarrow>
   expanded key nk m (rk[n := rk ! a XOR rk ! b])"
  by (simp add: expanded_next expandedD)

lemma expanded_core:
  "expanded key nk n rk \<Longrightarrow> a < n \<Longrightarrow> b < n \<Longrightarrow> n < 60 \<Longrightarrow> i < 10 \<Longrightarrow>
   key_word key nk n = key_word key nk a XOR (expand_core (key_word key nk b) XOR rcon_word (Suc i)) \<Longrightarrow>
   m = Suc n \<Longrightarrow>
   expanded key nk m (rk[n := rk ! a XOR expand_core (rk ! b) XOR rcon ! i])"
  by (simp add: expanded_next expandedD rcon_eq xor.assoc)

lemma expanded_mid:
  "expanded key nk n rk \<Longrightarrow> a < n \<Longrightarrow> b < n \<Longrightarrow> n < 60 \<Longrightarrow>
   key_word key nk n = key_word key nk a XOR expand_mid (key_word key nk b) \<Longrightarrow> m = Suc n \<Longrightarrow>
   expanded key nk m (rk[n := rk ! a XOR expand_mid (rk ! b)])"
  by (simp add: expanded_next expandedD)

lemma key_words4:
  assumes "p = 4 * i"
  shows "key_word key 4 (p + 4) = key_word key 4 p XOR
      (expand_core (key_word key 4 (p + 3)) XOR rcon_word (Suc i))"
    "key_word key 4 (p + 5) = key_word key 4 (p + 1) XOR key_word key 4 (p + 4)"
    "key_word key 4 (p + 6) = key_word key 4 (p + 2) XOR key_word key 4 (p + 5)"
    "key_word key 4 (p + 7) = key_word key 4 (p + 3) XOR key_word key 4 (p + 6)"
  using key_word_core [OF assms, of key]
    key_word_plain [OF assms, of 1 key]
    key_word_plain [OF assms, of 2 key]
    key_word_plain [OF assms, of 3 key]
  by (simp_all add: add.commute)

lemma key_words6:
  assumes "p = 6 * i"
  shows "key_word key 6 (p + 6) = key_word key 6 p XOR
      (expand_core (key_word key 6 (p + 5)) XOR rcon_word (Suc i))"
    "key_word key 6 (p + 7) = key_word key 6 (p + 1) XOR key_word key 6 (p + 6)"
    "key_word key 6 (p + 8) = key_word key 6 (p + 2) XOR key_word key 6 (p + 7)"
    "key_word key 6 (p + 9) = key_word key 6 (p + 3) XOR key_word key 6 (p + 8)"
    "key_word key 6 (p + 10) = key_word key 6 (p + 4) XOR key_word key 6 (p + 9)"
    "key_word key 6 (p + 11) = key_word key 6 (p + 5) XOR key_word key 6 (p + 10)"
  using key_word_core [OF assms, of key]
    key_word_plain [OF assms, of 1 key]
    key_word_plain [OF assms, of 2 key]
    key_word_plain [OF assms, of 3 key]
    key_word_plain [OF assms, of 4 key]
    key_word_plain [OF assms, of 5 key]
  by (simp_all add: add.commute)

lemma key_words8:
  assumes "p = 8 * i"
  shows "key_word key 8 (p + 8) = key_word key 8 p XOR
      (expand_core (key_word key 8 (p + 7)) XOR rcon_word (Suc i))"
    "key_word key 8 (p + 9) = key_word key 8 (p + 1) XOR key_word key 8 (p + 8)"
    "key_word key 8 (p + 10) = key_word key 8 (p + 2) XOR key_word key 8 (p + 9)"
    "key_word key 8 (p + 11) = key_word key 8 (p + 3) XOR key_word key 8 (p + 10)"
    "key_word key 8 (p + 13) = key_word key 8 (p + 5) XOR key_word key 8 (p + 12)"
    "key_word key 8 (p + 14) = key_word key 8 (p + 6) XOR key_word key 8 (p + 13)"
    "key_word key 8 (p + 15) = key_word key 8 (p + 7) XOR key_word key 8 (p + 14)"
  using key_word_core [OF assms, of key]
    key_word_plain [OF assms, of 1 key]
    key_word_plain [OF assms, of 2 key]
    key_word_plain [OF assms, of 3 key]
    key_word_plain [OF assms, of 5 key]
    key_word_plain [OF assms, of 6 key]
    key_word_plain [OF assms, of 7 key]
  by (simp_all add: add.commute)

lemma expand128_step_ok:
  assumes "expanded key 4 (p + 4) rk" "i < 10" "p + 8 \<le> 60" and p: "p = 4 * i"
  shows "expanded key 4 (p + 8) (expand128_step i p rk)"
  using assms(1-3) unfolding expand128_step_def Let_def
  by - (rule expanded_xor, rule expanded_xor, rule expanded_xor, rule expanded_core,
      simp_all add: key_words4 [OF p])

lemma expand192_step_ok:
  assumes "expanded key 6 (p + 6) rk" "i < 10" "p + 10 \<le> 60" and p: "p = 6 * i"
  shows "expanded key 6 (p + 10) (expand192_step i p rk)"
  using assms(1-3) unfolding expand192_step_def Let_def
  by - (rule expanded_xor, rule expanded_xor, rule expanded_xor, rule expanded_core,
      simp_all add: key_words6 [OF p])

lemma expand256_step_ok:
  assumes "expanded key 8 (p + 8) rk" "i < 10" "p + 12 \<le> 60" and p: "p = 8 * i"
  shows "expanded key 8 (p + 12) (expand256_step i p rk)"
  using assms(1-3) unfolding expand256_step_def Let_def
  by - (rule expanded_xor, rule expanded_xor, rule expanded_xor, rule expanded_core,
      simp_all add: key_words8 [OF p])

lemma expand256_mid_ok:
  assumes "expanded key 8 (p + 12) rk" "p + 16 \<le> 60" and p: "p = 8 * i"
  shows "expanded key 8 (p + 16) (expand256_mid p rk)"
  using assms(1-2) unfolding expand256_mid_def Let_def
  by - (rule expanded_xor, rule expanded_xor, rule expanded_xor, rule expanded_mid,
      simp_all add: key_words8 [OF p] key_word_mid [OF p])

lemma expand128_ok:
  "expanded key 4 (p + 4) rk \<Longrightarrow> i < 10 \<Longrightarrow> p = 4 * i \<Longrightarrow> expanded key 4 44 (expand128 i p rk)"
proof (induction i p rk rule: expand128.induct)
  case (1 i p rk)
  have step: "expanded key 4 (p + 8) (expand128_step i p rk)"
    using 1(2-4) by (intro expand128_step_ok) auto
  show ?case
  proof (cases "10 \<le> Suc i")
    case True
    with 1(3,4) have "i = 9" by simp
    with 1(4) step show ?thesis by (subst expand128.simps) simp
  next
    case False
    then have "expanded key 4 44 (expand128 (Suc i) (p + 4) (expand128_step i p rk))"
      using 1(3,4) step by (intro 1(1)) (simp_all add: add.assoc)
    with False show ?thesis by (subst expand128.simps) (simp add: Let_def)
  qed
qed

lemma expand192_ok:
  "expanded key 6 (p + 6) rk \<Longrightarrow> i < 8 \<Longrightarrow> p = 6 * i \<Longrightarrow> expanded key 6 52 (expand192 i p rk)"
proof (induction i p rk rule: expand192.induct)
  case (1 i p rk)
  have step: "expanded key 6 (p + 10) (expand192_step i p rk)"
    using 1(2-4) by (intro expand192_step_ok) auto
  show ?case
  proof (cases "8 \<le> Suc i")
    case True
    with 1(3,4) have "i = 7" by simp
    with 1(4) step show ?thesis by (subst expand192.simps) simp
  next
    case False
    let ?rk = "(expand192_step i p rk)[p + 10 := expand192_step i p rk ! (p + 4) XOR expand192_step i p rk ! (p + 9)]"
    have "p + 12 \<le> 60" using 1(4) False by simp
    then have "expanded key 6 (p + 12) (?rk[p + 11 := ?rk ! (p + 5) XOR ?rk ! (p + 10)])"
      by - (rule expanded_xor, rule expanded_xor, rule step, simp_all add: key_words6 [OF 1(4)])
    then have "expanded key 6 52 (expand192 (Suc i) (p + 6) (?rk[p + 11 := ?rk ! (p + 5) XOR ?rk ! (p + 10)]))"
      using 1(3,4) False by (intro 1(1) [OF refl _ refl refl]) (simp_all add: add.commute)
    with False show ?thesis by (subst expand192.simps) (simp only: Let_def if_False)
  qed
qed

lemma expand256_ok:
  "expanded key 8 (p + 8) rk \<Longrightarrow> i < 7 \<Longrightarrow> p = 8 * i \<Longrightarrow> expanded key 8 60 (expand256 i p rk)"
proof (induction i p rk rule: expand256.induct)
  case (1 i p rk)
  have step: "expanded key 8 (p + 12) (expand256_step i p rk)"
    using 1(2-4) by (intro expand256_step_ok) auto
  show ?case
  proof (cases "7 \<le> Suc i")
    case True
    with 1(3,4) have "i = 6" by simp
    with 1(4) step show ?thesis by (subst expand256.simps) simp
  next
    case False
    then have "expanded key 8 (p + 16) (expand256_mid p (expand256_step i p rk))"
      using 1(3,4) by (intro expand256_mid_ok [OF step]) auto
    then have "expanded key 8 60 (expand256 (Suc i) (p + 8) (expand256_mid p (expand256_step i p rk)))"
      using 1(3,4) False by (intro 1(1)) (simp_all add: add.assoc)
    with False show ?thesis by (subst expand256.simps) (simp add: Let_def)
  qed
qed

definition key_words_of_bits :: "int \<Rightarrow> nat" where
  "key_words_of_bits bits = nat bits div 32"

lemma expanded_user_key:
  assumes "expanded key nk n rk" "n' = Suc n" "m = n + 2" "m \<le> nk" "m \<le> 60"
    "a = GETU32 key (4 * n)" "b = GETU32 key (4 * n')"
  shows "expanded key nk m (rk[n := a, n' := b])"
  using assms by (auto simp: expanded_def nth_list_update key_word_first less_Suc_eq)

lemma AES_set_encrypt_key_ok:
  assumes bits: "bits = 128 \<or> bits = 192 \<or> bits = 256" and len: "length (rd_key k) = 60"
  obtains k' where "AES_set_encrypt_key (Some uk) bits (Some k) = (0, Some k')"
    "rounds k' = key_words_of_bits bits + 6"
    "expanded uk (key_words_of_bits bits) (4 * (rounds k' + 1)) (rd_key k')"
proof -
  let ?rk = "(rd_key k)[0 := GETU32 uk 0, 1 := GETU32 uk 4, 2 := GETU32 uk 8, 3 := GETU32 uk 12]"
  let ?rk6 = "?rk[4 := GETU32 uk 16, 5 := GETU32 uk 20]"
  let ?rk8 = "?rk6[6 := GETU32 uk 24, 7 := GETU32 uk 28]"
  have e0: "expanded uk nk 0 (rd_key k)" for nk
    using len by (simp add: expanded_def)
  have e2: "expanded uk nk 2 ((rd_key k)[0 := GETU32 uk 0, 1 := GETU32 uk 4])" if "4 \<le> nk" for nk
    using that by (intro expanded_user_key [OF e0]) simp_all
  have e4: "expanded uk nk 4 ?rk" if "4 \<le> nk" for nk
    using that by (intro expanded_user_key [OF e2]) simp_all
  have e6: "expanded uk nk 6 ?rk6" if "6 \<le> nk" for nk
    using that by (intro expanded_user_key [OF e4]) simp_all
  have e8: "expanded uk nk 8 ?rk8" if "8 \<le> nk" for nk
    using that by (intro expanded_user_key [OF e6]) simp_all
  from bits show thesis
  proof (elim disjE)
    assume "bits = 128"
    then show thesis
      using expand128_ok [of uk 0 ?rk 0] e4 [of 4]
      by (intro that, simp add: AES_set_encrypt_key_def) (simp_all add: key_words_of_bits_def)
  next
    assume "bits = 192"
    then show thesis
      using expand192_ok [of uk 0 ?rk6 0] e6 [of 6]
      by (intro that, simp add: AES_set_encrypt_key_def) (simp_all add: key_words_of_bits_def)
  next
    assume "bits = 256"
    then show thesis
      using expand256_ok [of uk 0 ?rk8 0] e8 [of 8]
      by (intro that, simp add: AES_set_encrypt_key_def) (simp_all add: key_words_of_bits_def)
  qed
qed

section \<open>The decryption schedule\<close>

lemma length_swap_words [simp]: "length (swap_words i j rk) = length rk"
  by (simp add: swap_words_def Let_def)

lemma nth_swap_words:
  "i < length rk \<Longrightarrow> j < length rk \<Longrightarrow>
   swap_words i j rk ! k = (if k = i then rk ! j else if k = j then rk ! i else rk ! k)"
  by (auto simp: swap_words_def Let_def nth_list_update)

text \<open>One pass of the swap loop exchanges two blocks of four words.\<close>

definition swap_blocks :: "nat \<Rightarrow> nat \<Rightarrow> u32 list \<Rightarrow> u32 list" where
  "swap_blocks i j rk = swap_words (i + 3) (j + 3) (swap_words (i + 2) (j + 2)
     (swap_words (i + 1) (j + 1) (swap_words i j rk)))"

lemma nth_swap_blocks_range:
  assumes "i + 4 \<le> j" "j + 4 \<le> length rk"
  shows "swap_blocks i j rk ! k =
    (if i \<le> k \<and> k < i + 4 then rk ! (j + (k - i))
     else if j \<le> k \<and> k < j + 4 then rk ! (i + (k - j)) else rk ! k)"
proof -
  have "k = i \<or> k = i + 1 \<or> k = i + 2 \<or> k = i + 3 \<or> k = j \<or> k = j + 1 \<or> k = j + 2 \<or> k = j + 3 \<or>
      (\<not> (i \<le> k \<and> k < i + 4) \<and> \<not> (j \<le> k \<and> k < j + 4))"
    by linarith
  then show ?thesis
    using assms unfolding swap_blocks_def
    by (elim disjE) (simp_all add: nth_swap_words, auto)
qed

lemma nth_swap_blocks:
  assumes "a < b" "4 * b + 4 \<le> length rk" "c < 4"
  shows "swap_blocks (4 * a) (4 * b) rk ! (4 * r + c) =
    (if r = a then rk ! (4 * b + c) else if r = b then rk ! (4 * a + c) else rk ! (4 * r + c))"
proof -
  have "4 * x \<le> 4 * r + c \<and> 4 * r + c < 4 * x + 4 \<longleftrightarrow> r = x" for x
    using assms(3) by presburger
  then show ?thesis
    using assms by (simp add: nth_swap_blocks_range)
qed

lemma length_swap_blocks [simp]: "length (swap_blocks i j rk) = length rk"
  by (simp add: swap_blocks_def)

lemma length_invert_order: "length (invert_order i j rk) = length rk"
  by (induction i j rk rule: invert_order.induct) (subst invert_order.simps, auto)

lemma invert_order_nth:
  assumes "4 * b + 4 \<le> length rk" "a \<le> Suc b" "c < 4"
  shows "invert_order (4 * a) (4 * b) rk ! (4 * r + c) =
    (if a \<le> r \<and> r \<le> b then rk ! (4 * (a + b - r) + c) else rk ! (4 * r + c))"
  using assms
proof (induction "b - a" arbitrary: a b rk rule: less_induct)
  case less
  show ?case
  proof (cases "a < b")
    case True
    then obtain b' where b': "b = Suc b'" by (cases b) auto
    have "invert_order (4 * a) (4 * b) rk = invert_order (4 * Suc a) (4 * b') (swap_blocks (4 * a) (4 * b) rk)"
      using True by (subst invert_order.simps) (simp add: swap_blocks_def b' add.commute)
    moreover have "invert_order (4 * Suc a) (4 * b') (swap_blocks (4 * a) (4 * b) rk) ! (4 * r + c) =
        (if Suc a \<le> r \<and> r \<le> b' then swap_blocks (4 * a) (4 * b) rk ! (4 * (Suc a + b' - r) + c)
         else swap_blocks (4 * a) (4 * b) rk ! (4 * r + c))"
      using less.prems True b' by (intro less.hyps) auto
    ultimately show ?thesis
      using less.prems True nth_swap_blocks [OF True less.prems(1) less.prems(3)]
      by (auto simp: b')
  next
    case False
    then show ?thesis using less.prems by (subst invert_order.simps) (auto simp: le_Suc_eq not_less)
  qed
qed

lemma length_mix_keys [simp]: "length (mix_keys n p rk) = length rk"
  by (induction n arbitrary: p rk) (simp_all add: Let_def)

lemma mix_keys_nth:
  assumes "p + 4 * n + 4 \<le> length rk" "k < length rk"
  shows "mix_keys n p rk ! k =
    (if p + 4 \<le> k \<and> k < p + 4 * n + 4 then inv_mix_column (rk ! k) else rk ! k)"
  using assms
proof (induction n arbitrary: p rk)
  case (Suc n)
  then show ?case
    by (auto simp: Let_def nth_list_update inv_mix_word_eq)
qed auto

lemma AES_set_decrypt_key_ok:
  assumes bits: "bits = 128 \<or> bits = 192 \<or> bits = 256" and len: "length (rd_key k) = 60"
  obtains k' where "AES_set_decrypt_key (Some uk) bits (Some k) = (0, Some k')"
    "rounds k' = key_words_of_bits bits + 6"
    "dec_schedule (key_word uk (key_words_of_bits bits)) (rounds k') (rd_key k')"
proof -
  from AES_set_encrypt_key_ok [OF assms] obtain e where
    e: "AES_set_encrypt_key (Some uk) bits (Some k) = (0, Some e)"
    "rounds e = key_words_of_bits bits + 6"
    "expanded uk (key_words_of_bits bits) (4 * (rounds e + 1)) (rd_key e)" .
  have r: "rounds e \<le> 14" "2 \<le> rounds e" using bits e(2) by (auto simp: key_words_of_bits_def)
  let ?inv = "invert_order 0 (4 * rounds e) (rd_key e)"
  let ?d = "mix_keys (rounds e - 1) 0 ?inv"
  have len_e: "length (rd_key e) = 60" using e(3) by (simp add: expanded_def)
  have "dec_schedule (key_word uk (key_words_of_bits bits)) (rounds e) ?d"
    unfolding dec_schedule_def
  proof (intro allI impI)
    fix i c :: nat
    assume ic: "i \<le> rounds e" "c < 4"
    have "?inv ! (4 * i + c) = rd_key e ! (4 * (rounds e - i) + c)"
      using invert_order_nth [of "rounds e" "rd_key e" 0 c i] ic r len_e by simp
    also have "\<dots> = key_word uk (key_words_of_bits bits) (4 * (rounds e - i) + c)"
      using ic by (intro expandedD [OF e(3)]) auto
    finally show "?d ! (4 * i + c) = (if i = 0 \<or> i = rounds e
        then key_word uk (key_words_of_bits bits) (4 * (rounds e - i) + c)
        else inv_mix_column (key_word uk (key_words_of_bits bits) (4 * (rounds e - i) + c)))"
      using mix_keys_nth [of 0 "rounds e - 1" ?inv "4 * i + c"] ic r len_e
      by (auto simp: length_invert_order)
  qed
  then show thesis
    using e by (intro that [of "e\<lparr>rd_key := ?d\<rparr>"]) (simp_all add: AES_set_decrypt_key_def)
qed

section \<open>Properties\<close>

lemma cipher_rounds_cong:
  "\<forall>j<4 * (n + 1). w j = w' j \<Longrightarrow> cipher_rounds w n s = cipher_rounds w' n s"
proof (induction n)
  case 0
  then show ?case by (cases s) simp
next
  case (Suc n)
  then have "add_round_key w (Suc n) = add_round_key w' (Suc n)"
    by (auto simp: fun_eq_iff)
  with Suc show ?case by simp
qed

lemma cipher_cong:
  assumes "0 < nr" "\<forall>j<4 * (nr + 1). w j = w' j"
  shows "cipher w nr s = cipher w' nr s"
proof -
  have "add_round_key w nr = add_round_key w' nr" using assms(2) by (auto simp: fun_eq_iff)
  moreover have "cipher_rounds w (nr - 1) s = cipher_rounds w' (nr - 1) s"
    using assms by (intro cipher_rounds_cong) auto
  ultimately show ?thesis by (simp add: cipher_def)
qed

lemma encrypt_schedule:
  assumes bits: "bits = 128 \<or> bits = 192 \<or> bits = 256" and len: "length (rd_key k) = 60"
    and e: "AES_set_encrypt_key (Some uk) bits (Some k) = (st, Some ek)"
  shows "AES_encrypt inp ek =
    Some (bytes_of (cipher (key_word uk (key_words_of_bits bits)) (key_words_of_bits bits + 6) (state_of inp)))"
proof -
  obtain k' where k': "AES_set_encrypt_key (Some uk) bits (Some k) = (0, Some k')"
      "rounds k' = key_words_of_bits bits + 6"
      "expanded uk (key_words_of_bits bits) (4 * (rounds k' + 1)) (rd_key k')"
    by (rule AES_set_encrypt_key_ok [OF bits len])
  with e have k: "rounds ek = key_words_of_bits bits + 6"
    "expanded uk (key_words_of_bits bits) (4 * (rounds ek + 1)) (rd_key ek)"
    by simp_all
  have "cipher ((!) (rd_key ek)) (rounds ek) s =
      cipher (key_word uk (key_words_of_bits bits)) (rounds ek) s" for s
    using k by (intro cipher_cong) (auto simp: expanded_def)
  moreover have "even (rounds ek)" "0 < rounds ek" "rounds ek \<le> 14"
    using bits k by (auto simp: key_words_of_bits_def)
  ultimately show ?thesis by (simp add: AES_encrypt_cipher k)
qed

lemma decrypt_schedule:
  assumes bits: "bits = 128 \<or> bits = 192 \<or> bits = 256" and len: "length (rd_key k) = 60"
    and d: "AES_set_decrypt_key (Some uk) bits (Some k) = (st, Some dk)"
  shows "AES_decrypt inp dk =
    Some (bytes_of (inv_cipher (key_word uk (key_words_of_bits bits)) (key_words_of_bits bits + 6) (state_of inp)))"
proof -
  obtain k' where k': "AES_set_decrypt_key (Some uk) bits (Some k) = (0, Some k')"
      "rounds k' = key_words_of_bits bits + 6"
      "dec_schedule (key_word uk (key_words_of_bits bits)) (rounds k') (rd_key k')"
    by (rule AES_set_decrypt_key_ok [OF bits len])
  with d have k: "rounds dk = key_words_of_bits bits + 6"
    "dec_schedule (key_word uk (key_words_of_bits bits)) (rounds dk) (rd_key dk)"
    by simp_all
  then have "even (rounds dk)" "0 < rounds dk" "rounds dk \<le> 14"
    using bits by (auto simp: key_words_of_bits_def)
  from AES_decrypt_inv_cipher [OF this k(2)] show ?thesis by (simp add: k)
qed

definition blank_key :: AES_KEY where
  "blank_key = \<lparr>rd_key = replicate 60 0, rounds = 0\<rparr>"

lemma blank_key_length [simp]: "length (rd_key blank_key) = 60"
  by (simp add: blank_key_def)

text \<open>
  C34. Every lookup table holds what its comment says, for each of the 256 bytes: the S-box is
  the affine image of the field inverse, \<^verbatim>\<open>Te\<close> are the S-box columns \<open>(02, 01, 01, 03)\<close> and
  their rotations, \<^verbatim>\<open>Td4\<close> inverts the S-box and \<^verbatim>\<open>Td\<close> are its columns
  \<open>(0e, 09, 0d, 0b)\<close> and their rotations.
\<close>

theorem aes_tables_exact:
  "\<exists>s. fips_sbox b s \<and> Td4 ! unat s = b \<and>
     Te0 ! unat b = pack32 (xtime s) s s (mul3 s) \<and> Te1 ! unat b = pack32 (mul3 s) (xtime s) s s \<and>
     Te2 ! unat b = pack32 s (mul3 s) (xtime s) s \<and> Te3 ! unat b = pack32 s s (mul3 s) (xtime s) \<and>
     Td0 ! unat s = pack32 (mul14 b) (mul9 b) (mul13 b) (mul11 b) \<and>
     Td1 ! unat s = pack32 (mul11 b) (mul14 b) (mul9 b) (mul13 b) \<and>
     Td2 ! unat s = pack32 (mul13 b) (mul11 b) (mul14 b) (mul9 b) \<and>
     Td3 ! unat s = pack32 (mul9 b) (mul13 b) (mul11 b) (mul14 b)"
  using sbox_table_fips [of b] by (intro exI [of _ "sub_byte b"]) (simp add: sub_byte_def [symmetric])

text \<open>
  C32. Encryption is the cipher of the standard: with a schedule from \<^verbatim>\<open>AES_set_encrypt_key\<close> for a
  key of 128, 192 or 256 bits, \<^verbatim>\<open>AES_encrypt\<close> returns, for every block, the bytes FIPS-197
  prescribes (key expansion, initial round key, full rounds, last round without the column mix).
\<close>

theorem aes_encrypt_is_fips_cipher:
  assumes "bits \<in> {128, 192, 256}" "length (rd_key k) = 60"
    and "AES_set_encrypt_key (Some uk) bits (Some k) = (st, Some ek)"
  shows "st = 0 \<and> AES_encrypt inp ek =
    Some (bytes_of (cipher (key_word uk (nat bits div 32)) (nat bits div 32 + 6) (state_of inp)))"
proof -
  have bits: "bits = 128 \<or> bits = 192 \<or> bits = 256" using assms(1) by simp
  have "st = 0" by (rule AES_set_encrypt_key_ok [OF bits assms(2), of uk]) (simp add: assms(3))
  with encrypt_schedule [of bits k uk st ek inp] assms show ?thesis by (simp add: key_words_of_bits_def)
qed

lemma aes_encrypt_is_fips_cipher_witness:
  "\<exists>ek. AES_set_encrypt_key (Some (replicate 16 7)) 128 (Some blank_key) = (0, Some ek) \<and>
     AES_encrypt (replicate 16 1) ek =
     Some (bytes_of (cipher (key_word (replicate 16 7) 4) 10 (state_of (replicate 16 1))))"
proof -
  let ?uk = "replicate 16 7 :: u8 list"
  obtain ek where e: "AES_set_encrypt_key (Some ?uk) 128 (Some blank_key) = (0, Some ek)"
    using AES_set_encrypt_key_ok [of 128 blank_key ?uk] blank_key_length by blast
  have "nat 128 div 32 = 4" "4 + 6 = (10 :: nat)" by simp_all
  note aes_encrypt_is_fips_cipher [OF _ blank_key_length e, of "replicate 16 1", unfolded this]
  then show ?thesis using e by blast
qed

text \<open>
  C33. Decryption inverts encryption: for every key of 128, 192 or 256 bits and every block of 16
  bytes, \<^verbatim>\<open>AES_decrypt\<close> with the schedule of \<^verbatim>\<open>AES_set_decrypt_key\<close> gives the block back from
  what \<^verbatim>\<open>AES_encrypt\<close> made of it.
\<close>

theorem aes_decrypt_encrypt:
  assumes "bits \<in> {128, 192, 256}" "length (rd_key k) = 60" "length inp = AES_BLOCK_SIZE"
    and "AES_set_encrypt_key (Some uk) bits (Some k) = (st, Some ek)"
    and "AES_set_decrypt_key (Some uk) bits (Some k) = (st', Some dk)"
  shows "\<exists>out. AES_encrypt inp ek = Some out \<and> length out = AES_BLOCK_SIZE \<and> AES_decrypt out dk = Some inp"
proof -
  have "0 < key_words_of_bits bits + 6" by simp
  then show ?thesis
    using encrypt_schedule [of bits k uk st ek inp] decrypt_schedule [of bits k uk st' dk] assms
    by (simp add: inv_cipher_cipher bytes_of_state_of AES_BLOCK_SIZE_def)
qed

lemma aes_decrypt_encrypt_witness:
  "\<exists>ek dk out. AES_set_encrypt_key (Some (replicate 32 7)) 256 (Some blank_key) = (0, Some ek) \<and>
     AES_set_decrypt_key (Some (replicate 32 7)) 256 (Some blank_key) = (0, Some dk) \<and>
     AES_encrypt (replicate 16 1) ek = Some out \<and> AES_decrypt out dk = Some (replicate 16 1)"
proof -
  let ?uk = "replicate 32 7 :: u8 list"
  obtain ek where e: "AES_set_encrypt_key (Some ?uk) 256 (Some blank_key) = (0, Some ek)"
    using AES_set_encrypt_key_ok [of 256 blank_key ?uk] blank_key_length by blast
  obtain dk where d: "AES_set_decrypt_key (Some ?uk) 256 (Some blank_key) = (0, Some dk)"
    using AES_set_decrypt_key_ok [of 256 blank_key ?uk] blank_key_length by blast
  have "length (replicate 16 (1 :: u8)) = AES_BLOCK_SIZE" by (simp only: length_replicate AES_BLOCK_SIZE_def)
  from aes_decrypt_encrypt [OF _ blank_key_length this e d] e d show ?thesis by blast
qed

text \<open>
  The two compilations agree: the straight-line rounds under \<^verbatim>\<open>FULL_UNROLL\<close> compute the same
  bytes as the loops, in both directions, for every schedule with 10, 12 or 14 rounds.
\<close>

theorem aes_unrolled_equals_loop:
  assumes "rounds key = 10 \<or> rounds key = 12 \<or> rounds key = 14"
  shows "AES_encrypt inp key = Some (AES_encrypt_unrolled inp key) \<and>
    AES_decrypt inp key = Some (AES_decrypt_unrolled inp key)"
proof -
  have n: "drop_bit 1 (10 :: nat) = Suc (Suc (Suc (Suc (Suc 0))))"
    "drop_bit 1 (12 :: nat) = Suc (Suc (Suc (Suc (Suc (Suc 0)))))"
    "drop_bit 1 (14 :: nat) = Suc (Suc (Suc (Suc (Suc (Suc (Suc 0))))))"
    by (simp_all add: drop_bit_eq_div)
  from assms show ?thesis
    by (elim disjE) (simp_all only: AES_encrypt_def AES_decrypt_def AES_encrypt_unrolled_def
        AES_decrypt_unrolled_def AES_MAXNR_def n enc_loop.simps dec_loop.simps Let_def, simp_all)
qed

lemma aes_unrolled_equals_loop_witness:
  "AES_encrypt (replicate 16 1) (blank_key\<lparr>rounds := 10\<rparr>) =
   Some (AES_encrypt_unrolled (replicate 16 1) (blank_key\<lparr>rounds := 10\<rparr>))"
  by (rule aes_unrolled_equals_loop [THEN conjunct1]) simp

text \<open>
  What the key functions do with bad arguments: a null key or schedule gives \<open>-1\<close>, a key length
  other than 128, 192 and 256 gives \<open>-2\<close>, and in both cases the schedule is left as it was, in
  both directions; otherwise the status is 0 and the schedule has 10, 12 or 14 rounds.
\<close>

theorem aes_key_status:
  assumes "\<And>k. key = Some k \<Longrightarrow> length (rd_key k) = 60"
    and f: "f = AES_set_encrypt_key \<or> f = AES_set_decrypt_key"
  shows "case (userKey, key) of
      (Some uk, Some k) \<Rightarrow>
        if bits \<in> {128, 192, 256}
        then \<exists>k'. f userKey bits key = (0, Some k') \<and> rounds k' = nat bits div 32 + 6 \<and> length (rd_key k') = 60
        else f userKey bits key = (-2, key)
    | _ \<Rightarrow> f userKey bits key = (-1, key)"
proof (cases userKey)
  case None
  with f show ?thesis
    by (auto simp: AES_set_encrypt_key_def AES_set_decrypt_key_def split: option.splits)
next
  case uk: (Some uk)
  show ?thesis
  proof (cases key)
    case None
    with uk f show ?thesis by (auto simp: AES_set_encrypt_key_def AES_set_decrypt_key_def)
  next
    case k: (Some k)
    note len = assms(1) [OF k]
    show ?thesis
    proof (cases "bits \<in> {128, 192, 256}")
      case True
      then have bits: "bits = 128 \<or> bits = 192 \<or> bits = 256" by simp
      obtain e where e: "AES_set_encrypt_key (Some uk) bits (Some k) = (0, Some e)"
          "rounds e = nat bits div 32 + 6" "length (rd_key e) = 60"
        using AES_set_encrypt_key_ok [OF bits len, of uk]
        unfolding key_words_of_bits_def expanded_def by metis
      obtain d where d: "AES_set_decrypt_key (Some uk) bits (Some k) = (0, Some d)"
          "rounds d = nat bits div 32 + 6" "length (rd_key d) = 60"
        using e by (simp add: AES_set_decrypt_key_def length_invert_order)
      from f e d show ?thesis using True by (auto simp: uk k)
    next
      case False
      with f uk k show ?thesis by (auto simp: AES_set_encrypt_key_def AES_set_decrypt_key_def)
    qed
  qed
qed

lemma aes_key_status_witness:
  "AES_set_decrypt_key (Some (replicate 16 7)) 129 (Some blank_key) = (-2, Some blank_key)"
  using aes_key_status [of "Some blank_key" AES_set_decrypt_key "Some (replicate 16 7)" 129] by simp

end
