(* ===== verification/Base_Tools.thy ===== *)
theory Base_Tools
  imports SF_Prelude
begin

text \<open>
  The byte helpers of \<^verbatim>\<open>common/libtools/BaseTool.cpp\<close> (hexadecimal printing, the sift coding
  of a buffer) and the byte-order helpers of \<^verbatim>\<open>BigEndLittleEnd.cpp\<close>. A \<^verbatim>\<open>char\<close> buffer is a list
  of bytes. Accesses outside a buffer give \<open>None\<close>.
\<close>

section \<open>Buffers\<close>

text \<open>\<^verbatim>\<open>memcpy\<close> of some bytes into a buffer, and the bytes of a buffer read as a C string.\<close>

definition write_at :: "nat \<Rightarrow> u8 list \<Rightarrow> u8 list \<Rightarrow> u8 list" where
  "write_at i bytes dest = take i dest @ bytes @ drop (i + length bytes) dest"

definition c_string :: "u8 list \<Rightarrow> u8 list" where
  "c_string buf = takeWhile (\<lambda>c. c \<noteq> 0) buf"

lemma length_write_at: "i + length b \<le> length d \<Longrightarrow> length (write_at i b d) = length d"
  by (simp add: write_at_def)

lemma take_write_at: "i + length b \<le> length d \<Longrightarrow> take (i + length b) (write_at i b d) = take i d @ b"
  by (simp add: write_at_def)

section \<open>Hexadecimal\<close>

text \<open>The bytes of a C string literal.\<close>

definition chars :: "string \<Rightarrow> u8 list" where
  "chars s = map (\<lambda>c. of_nat (of_char c)) s"

definition hex_digits :: "u8 list" where
  "hex_digits = chars ''0123456789abcdef''"

fun bin2hex :: "u8 list \<Rightarrow> u8 list" where
  "bin2hex [] = []"
| "bin2hex (p # ps) =
     hex_digits ! unat (drop_bit 4 p) # hex_digits ! unat (p AND 0x0f) # bin2hex ps"

text \<open>
  \<^verbatim>\<open>hex2bin\<close> writes \<^verbatim>\<open>*to\<close> only: \<^verbatim>\<open>to\<close> is never advanced, while \<^verbatim>\<open>p\<close> moves one
  character per turn and the second digit of a turn is the first of the next. The terminating
  zero is read as the last digit. \<^verbatim>\<open>'\0'\<close> stands where a \<^verbatim>\<open>'0'\<close> was meant.
\<close>

definition hex_value :: "u8 \<Rightarrow> u8" where
  "hex_value c = (if 97 < c then c - 97 + 10 else c - 0)"

fun hex2bin :: "u8 \<Rightarrow> u8 list \<Rightarrow> u8" where
  "hex2bin to [] = to"
| "hex2bin to (p # ps) =
    (if p = 0 then to
     else let to = hex_value p;
              to = push_bit 4 to;
              to = to OR hex_value (case ps of [] \<Rightarrow> 0 | q # _ \<Rightarrow> q)
          in hex2bin to ps)"

section \<open>The sift coding\<close>

definition TEMP_BUF_SIZE :: nat where "TEMP_BUF_SIZE = 1024 * 128"

definition SimpleEncShift :: "u8 \<Rightarrow> u8" where
  "SimpleEncShift b = drop_bit 6 b OR push_bit 2 b"

definition SimpleDecShift :: "u8 \<Rightarrow> u8" where
  "SimpleDecShift b = push_bit 6 b OR drop_bit 2 b"

text \<open>The loop both directions share: \<open>src\<close> is read, \<open>des\<close> written.\<close>

definition sift_swap :: "nat \<Rightarrow> u8 list \<Rightarrow> u8 list \<Rightarrow> u8 list" where
  "sift_swap shift src des =
    (let right = length src - shift
     in fold (\<lambda>i des. des[i + right := src ! i, i := src ! (i + right)]) [0..<shift] des)"

text \<open>The first byte, then the last one, shifted in place.\<close>

definition shift_ends :: "(u8 \<Rightarrow> u8) \<Rightarrow> u8 list \<Rightarrow> u8 list" where
  "shift_ends f des =
    (let des = des[0 := f (des ! 0)]
     in des[length des - 1 := f (des ! (length des - 1))])"

definition SimpLeSiftencode :: "u8 list \<Rightarrow> nat \<Rightarrow> u8 list option" where
  "SimpLeSiftencode src shiftBit =
    (if src = [] \<or> length src < shiftBit then None
     else Some (shift_ends SimpleEncShift (sift_swap shiftBit src src)))"

definition SimpLeSiftdecode :: "u8 list \<Rightarrow> nat \<Rightarrow> u8 list option" where
  "SimpLeSiftdecode src shiftBit =
    (if src = [] \<or> length src < shiftBit \<or> TEMP_BUF_SIZE < length src then None
     else let tempBuf = shift_ends SimpleDecShift src
          in Some (sift_swap shiftBit tempBuf tempBuf))"

section \<open>Byte order\<close>

text \<open>\<open>be\<close> is what \<^verbatim>\<open>is_big_endian\<close> finds on the machine.\<close>

definition Swap16 :: "u16 \<Rightarrow> u16" where
  "Swap16 s = push_bit 8 (s AND 0xff) OR (drop_bit 8 s AND 0xff)"

definition Swap32 :: "u32 \<Rightarrow> u32" where
  "Swap32 l = drop_bit 24 l OR drop_bit 8 (l AND 0x00ff0000) OR push_bit 8 (l AND 0x0000ff00) OR push_bit 24 l"

definition Swap64 :: "u64 \<Rightarrow> u64" where
  "Swap64 l = drop_bit 56 l OR drop_bit 40 (l AND 0x00ff000000000000) OR
     drop_bit 24 (l AND 0x0000ff0000000000) OR drop_bit 8 (l AND 0x000000ff00000000) OR
     push_bit 8 (l AND 0x00000000ff000000) OR push_bit 24 (l AND 0x0000000000ff0000) OR
     push_bit 40 (l AND 0x000000000000ff00) OR push_bit 56 l"

definition hton16 :: "bool \<Rightarrow> u16 \<Rightarrow> u16" where "hton16 be s = (if be then s else Swap16 s)"
definition ntoh16 :: "bool \<Rightarrow> u16 \<Rightarrow> u16" where "ntoh16 be s = (if be then s else Swap16 s)"
definition hton32 :: "bool \<Rightarrow> u32 \<Rightarrow> u32" where "hton32 be i = (if be then i else Swap32 i)"
definition ntoh32 :: "bool \<Rightarrow> u32 \<Rightarrow> u32" where "ntoh32 be i = (if be then i else Swap32 i)"
definition hton64 :: "bool \<Rightarrow> u64 \<Rightarrow> u64" where "hton64 be l = (if be then l else Swap64 l)"
definition ntoh64 :: "bool \<Rightarrow> u64 \<Rightarrow> u64" where "ntoh64 be l = (if be then l else Swap64 l)"

text \<open>
  \<^verbatim>\<open>read_integer\<close> at its four sizes. \<^verbatim>\<open>*p\<close> is one \<^verbatim>\<open>char\<close>, sign-extended by the conversion.
\<close>

definition read_integer16 :: "bool \<Rightarrow> u8 list \<Rightarrow> u16" where
  "read_integer16 be p = ntoh16 be (ucast (scast (hd p) :: u32))"

definition read_integer32 :: "bool \<Rightarrow> u8 list \<Rightarrow> u32" where
  "read_integer32 be p = ntoh32 be (scast (hd p))"

definition read_integer64 :: "bool \<Rightarrow> u8 list \<Rightarrow> u64" where
  "read_integer64 be p = ntoh64 be (scast (hd p))"

section \<open>Lemmas\<close>

lemma length_bin2hex [simp]: "length (bin2hex p) = 2 * length p"
  by (induction p rule: bin2hex.induct) simp_all

lemma length_hex_digits [simp]: "length hex_digits = 16"
  by (simp add: hex_digits_def chars_def)

lemma hex_digits_distinct: "distinct hex_digits"
  by code_simp

lemma hex_digits_nonzero: "c \<in> set hex_digits \<Longrightarrow> c \<noteq> 0"
proof -
  have "0 \<notin> set hex_digits" by code_simp
  then show "c \<in> set hex_digits \<Longrightarrow> c \<noteq> 0" by blast
qed

lemma nibble_bounds: "unat (drop_bit 4 (p :: u8)) < 16" "unat (p AND 0x0f) < 16"
proof -
  have "unat p < 256" using unsigned_less [of p, where ?'a = nat] by simp
  moreover have "unat (drop_bit 4 p) = unat p div 16"
    by (subst unat_drop_bit_eq) (simp add: drop_bit_eq_div)
  ultimately show "unat (drop_bit 4 p) < 16" by (simp only: less_mult_imp_div_less)
  have "p AND 0x0f \<le> 0x0f" by (rule word_and_le1)
  then show "unat (p AND 0x0f) < 16" by (simp add: word_le_nat_alt)
qed

lemma mask_4: "0x0f = (mask 4 :: u8)"
  by (simp add: mask_eq_exp_minus_1)

lemma nibbles_eq: "drop_bit 4 p = drop_bit 4 q \<Longrightarrow> p AND 0x0f = q AND 0x0f \<Longrightarrow> p = (q :: u8)"
proof (rule bit_word_eqI)
  fix n
  assume hi: "drop_bit 4 p = drop_bit 4 q" and lo: "p AND 0x0f = q AND 0x0f"
  show "bit p n = bit q n"
  proof (cases "n < 4")
    case True
    from lo have "bit (p AND mask 4) n = bit (q AND mask 4) n" by (simp only: mask_4)
    with True show ?thesis by (simp add: bit_and_iff bit_mask_iff)
  next
    case False
    from hi have "bit (drop_bit 4 p) (n - 4) = bit (drop_bit 4 q) (n - 4)" by (simp only:)
    with False show ?thesis unfolding bit_drop_bit_eq by (simp add: comp_def)
  qed
qed

lemma hex_digits_inj: "i < 16 \<Longrightarrow> j < 16 \<Longrightarrow> hex_digits ! i = hex_digits ! j \<longleftrightarrow> i = j"
  using nth_eq_iff_index_eq [OF hex_digits_distinct] by simp

lemma bin2hex_inj: "bin2hex p = bin2hex q \<longleftrightarrow> p = q"
proof (induction p arbitrary: q)
  case Nil
  show ?case by (cases q) simp_all
next
  case (Cons p ps)
  then show ?case
  proof (cases q)
    case (Cons q' qs)
    have "(drop_bit 4 p = drop_bit 4 q' \<and> p AND 0x0f = q' AND 0x0f) \<longleftrightarrow> p = q'"
      using nibbles_eq [of p q'] by blast
    then show ?thesis
      using Cons Cons.IH [of qs]
      by (simp only: bin2hex.simps list.inject hex_digits_inj nibble_bounds
          word_unat_eq_iff [symmetric] Cons) blast
  qed simp
qed

lemma set_bin2hex: "set (bin2hex p) \<subseteq> set hex_digits"
  by (induction p rule: bin2hex.induct) (auto simp: nibble_bounds)

lemma shift_inverse: "SimpleDecShift (SimpleEncShift b) = b"
proof (rule bit_word_eqI)
  fix n assume "n < LENGTH(8)"
  then have "6 \<le> n \<Longrightarrow> 6 + (n - 6) = n" "n < 8" by simp_all
  then show "bit (SimpleDecShift (SimpleEncShift b)) n = bit b n"
    by (cases "6 \<le> n") (auto simp: SimpleDecShift_def SimpleEncShift_def bit_or_iff
        bit_push_bit_iff bit_drop_bit_eq dest: bit_imp_le_length)
qed

lemma length_sift_swap [simp]: "length (sift_swap shift src des) = length des"
proof -
  have "length (fold (\<lambda>i des. des[i + r := src ! i, i := src ! (i + r)]) xs des) = length des" for r xs
    by (induction xs arbitrary: des) simp_all
  then show ?thesis by (simp add: sift_swap_def Let_def)
qed

lemma sift_swap_nth:
  assumes "2 * shift \<le> length src" "length des = length src" "k < length src"
  shows "sift_swap shift src des ! k =
    (if k < shift then src ! (k + (length src - shift))
     else if length src - shift \<le> k then src ! (k - (length src - shift)) else des ! k)"
proof -
  define r where "r = length src - shift"
  have "fold (\<lambda>i des. des[i + r := src ! i, i := src ! (i + r)]) [0..<n] des ! k =
      (if k < n then src ! (k + r) else if r \<le> k \<and> k < r + n then src ! (k - r) else des ! k) \<and>
      length (fold (\<lambda>i des. des[i + r := src ! i, i := src ! (i + r)]) [0..<n] des) = length src"
    if "n \<le> shift" for n
    using that
  proof (induction n)
    case (Suc n)
    then show ?case using assms by (auto simp: nth_list_update r_def)
  qed (use assms in auto)
  from this [of shift] show ?thesis
    using assms by (auto simp: sift_swap_def Let_def r_def)
qed

lemma sift_swap_swap:
  assumes "2 * shift \<le> length src"
  shows "sift_swap shift (sift_swap shift src src) (sift_swap shift src src) = src"
  using assms by (intro nth_equalityI) (auto simp: sift_swap_nth)

lemma length_shift_ends [simp]: "length (shift_ends f des) = length des"
  by (simp add: shift_ends_def Let_def)

lemma shift_ends_inverse: "des \<noteq> [] \<Longrightarrow> shift_ends SimpleDecShift (shift_ends SimpleEncShift des) = des"
  by (intro nth_equalityI) (auto simp: shift_ends_def Let_def nth_list_update shift_inverse)

theorem sift_roundtrip:
  assumes "src \<noteq> []" "2 * shift \<le> length src" "length src \<le> TEMP_BUF_SIZE"
  shows "Option.bind (SimpLeSiftencode src shift) (\<lambda>des. SimpLeSiftdecode des shift) = Some src"
proof -
  have "sift_swap shift src src \<noteq> []" "shift_ends SimpleEncShift (sift_swap shift src src) \<noteq> []"
    using assms(1) by (metis length_0_conv length_shift_ends length_sift_swap)+
  then show ?thesis
    using assms sift_swap_swap [of shift src]
    by (simp add: SimpLeSiftencode_def SimpLeSiftdecode_def Let_def shift_ends_inverse)
qed

lemma mask_words16: "0xff = (mask 8 :: u16)"
  by (simp add: mask_eq_exp_minus_1)

lemma mask_words32: "0x00ff0000 = (push_bit 16 (mask 8) :: u32)" "0x0000ff00 = (push_bit 8 (mask 8) :: u32)"
  by (simp_all add: mask_eq_exp_minus_1)

lemma mask_words64:
  "0x00ff000000000000 = (push_bit 48 (mask 8) :: u64)" "0x0000ff0000000000 = (push_bit 40 (mask 8) :: u64)"
  "0x000000ff00000000 = (push_bit 32 (mask 8) :: u64)" "0x00000000ff000000 = (push_bit 24 (mask 8) :: u64)"
  "0x0000000000ff0000 = (push_bit 16 (mask 8) :: u64)" "0x000000000000ff00 = (push_bit 8 (mask 8) :: u64)"
  by (simp_all add: mask_eq_exp_minus_1)

lemmas bit_swap = bit_and_iff bit_or_iff bit_push_bit_iff bit_drop_bit_eq bit_mask_iff

lemma bit_Swap16: "bit (Swap16 s) n \<longleftrightarrow> n < 16 \<and> bit s (if n < 8 then n + 8 else n - 8)"
  unfolding Swap16_def mask_words16
  by (auto simp: bit_swap ac_simps dest: bit_imp_le_length)

lemma bit_Swap32: "bit (Swap32 s) n \<longleftrightarrow> n < 32 \<and> bit s
    (if n < 8 then n + 24 else if n < 16 then n + 8 else if n < 24 then n - 8 else n - 24)"
  unfolding Swap32_def mask_words32
  by (auto simp: bit_swap ac_simps dest: bit_imp_le_length)

lemma bit_Swap64: "bit (Swap64 s) n \<longleftrightarrow> n < 64 \<and> bit s
    (if n < 8 then n + 56 else if n < 16 then n + 40 else if n < 24 then n + 24 else if n < 32 then n + 8
     else if n < 40 then n - 8 else if n < 48 then n - 24 else if n < 56 then n - 40 else n - 56)"
  unfolding Swap64_def mask_words64
  by (auto simp: bit_swap ac_simps dest: bit_imp_le_length)

lemma Swap16_Swap16 [simp]: "Swap16 (Swap16 s) = s"
  by (rule bit_word_eqI) (auto simp: bit_Swap16)

lemma Swap32_Swap32 [simp]: "Swap32 (Swap32 s) = s"
  by (rule bit_word_eqI) (auto simp: bit_Swap32)

lemma Swap64_Swap64 [simp]: "Swap64 (Swap64 s) = s"
  by (rule bit_word_eqI) (auto simp: bit_Swap64)

text \<open>
  What \<^verbatim>\<open>hex2bin\<close> computes: the four low bits come from the terminating zero, the four high
  ones from the last character, and every earlier character is overwritten.
\<close>

theorem hex2bin_last_only:
  "p \<noteq> [] \<Longrightarrow> 0 \<notin> set p \<Longrightarrow> hex2bin to p = push_bit 4 (hex_value (last p))"
proof (induction to p rule: hex2bin.induct)
  case (2 to p ps)
  then show ?case by (cases ps) (auto simp: Let_def hex_value_def)
qed simp

lemma hex2bin_last_only_witness: "hex2bin 0 (chars ''41'') = 0x10"
  using hex2bin_last_only [of "chars ''41''" 0] by (simp add: chars_def hex_value_def)

text \<open>
  \<^verbatim>\<open>read_integer\<close> of four bytes does not depend on the last three.
\<close>

theorem read_integer32_first_byte:
  "read_integer32 be (p # ps) = read_integer32 be [p]"
  by (simp add: read_integer32_def)

end
