(* ===== verification/Base64.thy ===== *)
theory Base64
  imports Base_Tools
begin

text \<open>
  The two Base64 codecs of \<^verbatim>\<open>common/libtools/Base64.cpp\<close>. The older one (\<open>Base64Encode_set\<close>,
  \<open>Base64Decode_set\<close>) takes an alphabet; the newer one works unit by unit on buffers. A
  \<^verbatim>\<open>char\<close> is a byte that the arithmetic reads as signed. What stops a decode is an error value:
  \<open>Out_of_range\<close> the exception of \<^verbatim>\<open>std::string::at\<close>, \<open>Out_of_bounds\<close> an access outside a table
  or buffer.
\<close>

section \<open>The older codec\<close>

definition base64o :: "u8 list" where
  "base64o = chars ''ABCDEFGHIJKLMNOPQRSTUVWXYZabcdefghijklmnopqrstuvwxyz0123456789+/''"

definition base64i :: "u8 list" where
  "base64i = [
    -1, -1, -1, -1, -1, -1, -1, -1, -1, -1, -1, -1, -1, -1, -1, -1,
    -1, -1, -1, -1, -1, -1, -1, -1, -1, -1, -1, -1, -1, -1, -1, -1,
    -1, -1, -1, -1, -1, -1, -1, -1, -1, -1, -1, 62, -1, -1, -1, 63,
    52, 53, 54, 55, 56, 57, 58, 59, 60, 61, -1, -1, -1, -1, -1, -1,
    -1, 0, 1, 2, 3, 4, 5, 6, 7, 8, 9, 10, 11, 12, 13, 14,
    15, 16, 17, 18, 19, 20, 21, 22, 23, 24, 25, -1, -1, -1, -1, -1,
    -1, 26, 27, 28, 29, 30, 31, 32, 33, 34, 35, 36, 37, 38, 39, 40,
    41, 42, 43, 44, 45, 46, 47, 48, 49, 50, 51, -1, -1, -1, -1, -1]"

definition base64o_ex :: "u8 list" where
  "base64o_ex = chars ''Tiger_xu1984206bz#5%3$WwpIQ7*&[,]mNoYEs@!XUHBaZCqRtOcD<fGF+>.hjJ''"

definition base64i_ex :: "u8 list" where
  "base64i_ex = [
    -1, -1, -1, -1, -1, -1, -1, -1, -1, -1, -1, -1, -1, -1, -1, -1,
    -1, -1, -1, -1, -1, -1, -1, -1, -1, -1, -1, -1, -1, -1, -1, -1,
    -1, 40, -1, 17, 21, 19, 29, -1, -1, -1, 28, 58, 31, -1, 60, -1,
    13, 8, 12, 20, 11, 18, 14, 27, 10, 9, -1, -1, 54, -1, 59, -1,
    39, -1, 44, 47, 53, 37, 57, 56, 43, 25, 63, -1, -1, -1, 34, 51,
    -1, 26, 49, -1, 0, 42, -1, 22, 41, 36, 46, 30, -1, 32, -1, 5,
    -1, 45, 15, 52, -1, 3, 55, 2, 61, 1, 62, -1, -1, 33, -1, 35,
    24, 48, 4, 38, 50, 7, -1, 23, 6, -1, 16, -1, -1, -1, -1, -1]"

datatype BASE64_CH_SET = BASE64_CH_NORMAL | BASE64_CH_SECRET

definition set_out :: "BASE64_CH_SET \<Rightarrow> u8 list" where
  "set_out chSet = (case chSet of BASE64_CH_SECRET \<Rightarrow> base64o_ex | _ \<Rightarrow> base64o)"

definition set_in :: "BASE64_CH_SET \<Rightarrow> u8 list" where
  "set_in chSet = (case chSet of BASE64_CH_SECRET \<Rightarrow> base64i_ex | _ \<Rightarrow> base64i)"

definition local_end :: "BASE64_CH_SET \<Rightarrow> u8" where
  "local_end chSet = (case chSet of BASE64_CH_SECRET \<Rightarrow> 35 | _ \<Rightarrow> 61)"

text \<open>
  \<open>put_digits n tab m\<close>: the loop that fills \<^verbatim>\<open>d[n-1] .. d[0]\<close> from the low end of \<^verbatim>\<open>m\<close>.
  A byte enters \<^verbatim>\<open>m\<close> sign-extended (\<open>scast\<close>).
\<close>

fun put_digits :: "nat \<Rightarrow> u8 list \<Rightarrow> u64 \<Rightarrow> u8 list" where
  "put_digits 0 tab m = []"
| "put_digits (Suc i) tab m = put_digits i tab (drop_bit 6 m) @ [tab ! unat (m AND 0x3F)]"

fun encode_set :: "u8 list \<Rightarrow> u8 \<Rightarrow> u8 list \<Rightarrow> u8 list" where
  "encode_set tab e (s0 # s1 # s2 # s) =
    (let m = scast s0 :: u64;
         m = push_bit 8 m OR scast s1;
         m = push_bit 8 m OR scast s2
     in put_digits 4 tab m @ encode_set tab e s)"
| "encode_set tab e [s0, s1] =
    (let m = push_bit 8 0 OR scast s0 :: u64;
         m = push_bit 8 m OR scast s1;
         m = push_bit 8 m
     in (put_digits 4 tab m)[3 := e])"
| "encode_set tab e [s0] =
    (let m = push_bit 8 0 OR scast s0 :: u64;
         m = push_bit 8 m;
         m = push_bit 8 m
     in (put_digits 4 tab m)[3 := e, 2 := e])"
| "encode_set tab e [] = []"

definition Base64Encode_set :: "u8 list \<Rightarrow> BASE64_CH_SET \<Rightarrow> u8 list" where
  "Base64Encode_set s chSet = encode_set (set_out chSet) (local_end chSet) s"

datatype b64_error = Out_of_range | Out_of_bounds

definition code_of :: "u8 list \<Rightarrow> u8 \<Rightarrow> b64_error + u8" where
  "code_of tab ch = (if unat ch < length tab then Inr (tab ! unat ch) else Inl Out_of_bounds)"

text \<open>
  The four reading loops. The first skips characters outside the alphabet; the loop for the
  second character tests \<^verbatim>\<open>c1\<close>, which is not \<open>-1\<close> there, and so reads exactly one; the third and
  fourth stop at the end character (\<open>None\<close>) and skip like the first.
\<close>

fun read_first :: "u8 list \<Rightarrow> u8 list \<Rightarrow> b64_error + u8 \<times> u8 list" where
  "read_first tab [] = Inl Out_of_range"
| "read_first tab (ch # s) =
    (case code_of tab ch of
       Inl e \<Rightarrow> Inl e
     | Inr c \<Rightarrow> if s \<noteq> [] \<and> c = -1 then read_first tab s else Inr (c, s))"

fun read_second :: "u8 list \<Rightarrow> u8 list \<Rightarrow> b64_error + u8 \<times> u8 list" where
  "read_second tab [] = Inl Out_of_range"
| "read_second tab (ch # s) =
    (case code_of tab ch of Inl e \<Rightarrow> Inl e | Inr c \<Rightarrow> Inr (c, s))"

fun read_end :: "u8 list \<Rightarrow> u8 \<Rightarrow> u8 list \<Rightarrow> b64_error + (u8 \<times> u8 list) option" where
  "read_end tab e [] = Inl Out_of_range"
| "read_end tab e (ch # s) =
    (if ch = e then Inr None
     else case code_of tab ch of
       Inl err \<Rightarrow> Inl err
     | Inr c \<Rightarrow> if s \<noteq> [] \<and> c = -1 then read_end tab e s else Inr (Some (c, s)))"

lemma read_first_length: "read_first tab s = Inr (c, s') \<Longrightarrow> length s' < length s"
  by (induction tab s rule: read_first.induct) (auto split: sum.splits if_splits dest: less_SucI)

lemma read_second_length: "read_second tab s = Inr (c, s') \<Longrightarrow> length s' < length s"
  by (cases s) (auto split: sum.splits)

lemma read_end_length: "read_end tab e s = Inr (Some (c, s')) \<Longrightarrow> length s' < length s"
  by (induction tab e s rule: read_end.induct) (auto split: sum.splits if_splits dest: less_SucI)

text \<open>
  The decoding loop. \<open>cap\<close> is the size of the buffer; a character outside the alphabet that ends
  a loop empties the result. \<open>buf\<close> holds the \<^verbatim>\<open>length\<close> bytes written so far.
\<close>

function decode_loop :: "u8 list \<Rightarrow> u8 \<Rightarrow> nat \<Rightarrow> u8 list \<Rightarrow> u8 list \<Rightarrow> b64_error + bool \<times> u8 list" where
  "decode_loop tab e cap s buf =
    (if s = [] then Inr (False, buf)
     else case read_first tab s of
       Inl err \<Rightarrow> Inl err
     | Inr (c1, s1) \<Rightarrow>
       if c1 = -1 then Inr (False, [])
       else case read_second tab s1 of
         Inl err \<Rightarrow> Inl err
       | Inr (c2, s2) \<Rightarrow>
         if c2 = -1 then Inr (False, [])
         else if cap \<le> length buf then Inl Out_of_bounds
         else let buf = buf @ [push_bit 2 c1 OR drop_bit 4 (c2 AND 0x30)]
         in case read_end tab e s2 of
           Inl err \<Rightarrow> Inl err
         | Inr None \<Rightarrow> Inr (True, buf)
         | Inr (Some (c3, s3)) \<Rightarrow>
           if c3 = -1 then Inr (False, [])
           else if cap \<le> length buf then Inl Out_of_bounds
           else let buf = buf @ [push_bit 4 (c2 AND 0xF) OR drop_bit 2 (c3 AND 0x3C)]
           in case read_end tab e s3 of
             Inl err \<Rightarrow> Inl err
           | Inr None \<Rightarrow> Inr (True, buf)
           | Inr (Some (c4, s4)) \<Rightarrow>
             if c4 = -1 then Inr (False, [])
             else if cap \<le> length buf then Inl Out_of_bounds
             else decode_loop tab e cap s4 (buf @ [push_bit 6 (c3 AND 0x03) OR c4]))"
  by pat_completeness auto
termination
  by (relation "measure (\<lambda>(tab, e, cap, s, buf). length s)")
    (auto dest!: read_first_length read_second_length read_end_length)

declare decode_loop.simps [simp del]

text \<open>The status and, when a buffer is left with the caller, the bytes in it.\<close>

definition Base64Decode_set :: "u8 list \<Rightarrow> BASE64_CH_SET \<Rightarrow> b64_error + int \<times> u8 list option" where
  "Base64Decode_set strEn chSet =
    (let iBuffLen = length strEn div 4 * 3 + 1
     in if iBuffLen \<le> 1 then Inr (-1, None)
        else case decode_loop (set_in chSet) (local_end chSet) iBuffLen strEn [] of
          Inl e \<Rightarrow> Inl e
        | Inr (ended, buf) \<Rightarrow> if \<not> ended \<and> buf = [] then Inr (-1, None) else Inr (0, Some buf))"

section \<open>The newer codec\<close>

definition BASE64_TAB :: "u8 list" where
  "BASE64_TAB = chars ''ABCDEFGHIJKLMNOPQRSTUVWXYZabcdefghijklmnopqrstuvwxyz0123456789+/''"

definition Unit_Code :: "u8 \<Rightarrow> u8 \<Rightarrow> u8 \<Rightarrow> u8 list" where
  "Unit_Code p0 p1 p2 =
    [BASE64_TAB ! unat (drop_bit 2 p0),
     BASE64_TAB ! unat ((push_bit 4 p0 AND 0x3F) OR drop_bit 4 p1),
     BASE64_TAB ! unat ((push_bit 2 p1 AND 0x3F) OR drop_bit 6 p2),
     BASE64_TAB ! unat (p2 AND 0x3F)]"

definition Fill_Code :: "u8 list \<Rightarrow> u8 list" where
  "Fill_Code p =
    (if length p = 2 then
       [BASE64_TAB ! unat (drop_bit 2 (p ! 0)),
        BASE64_TAB ! unat ((push_bit 4 (p ! 0) AND 0x3F) OR drop_bit 4 (p ! 1)),
        BASE64_TAB ! unat ((push_bit 2 (p ! 1) AND 0x3F) OR drop_bit 6 0), 61]
     else
       [BASE64_TAB ! unat (drop_bit 2 (p ! 0)),
        BASE64_TAB ! unat ((push_bit 4 (p ! 0) AND 0x3F) OR drop_bit 4 0), 61, 61])"

fun encode_units :: "u8 list \<Rightarrow> u8 list" where
  "encode_units (p0 # p1 # p2 # src) = Unit_Code p0 p1 p2 @ encode_units src"
| "encode_units [] = []"
| "encode_units left = Fill_Code left"

definition encode_length :: "nat \<Rightarrow> nat" where
  "encode_length n = (n div 3 + (if n mod 3 \<noteq> 0 then 1 else 0)) * 4"

text \<open>
  The string overload: the buffer is terminated at \<^verbatim>\<open>encode_length\<close> and read as a C string, up to
  its first zero.
\<close>

definition Base64Encode :: "u8 list \<Rightarrow> u8 list" where
  "Base64Encode src = c_string (take (encode_length (length src)) (encode_units src))"

text \<open>
  \<^verbatim>\<open>strchr\<close> finds the first occurrence, the terminating zero included; for a character that
  does not occur, the null pointer minus the address of the table, cut to a byte, is \<open>junk\<close>.
\<close>

fun strchr_index :: "u8 list \<Rightarrow> u8 \<Rightarrow> nat option" where
  "strchr_index [] ch = None"
| "strchr_index (x # xs) ch = (if x = ch then Some 0 else map_option Suc (strchr_index xs ch))"

definition Base64ChPos :: "u8 \<Rightarrow> u8 \<Rightarrow> u8" where
  "Base64ChPos junk ch = (case strchr_index (BASE64_TAB @ [0]) ch of Some i \<Rightarrow> of_nat i | None \<Rightarrow> junk)"

definition Unit_Decode :: "u8 \<Rightarrow> u8 \<Rightarrow> u8 \<Rightarrow> u8 \<Rightarrow> u8 \<Rightarrow> u8 list" where
  "Unit_Decode junk s0 s1 s2 s3 =
    (if s3 \<noteq> 61 then
       let c0 = Base64ChPos junk s0; c1 = Base64ChPos junk s1; c2 = Base64ChPos junk s2; c3 = Base64ChPos junk s3
       in [push_bit 2 c0 OR drop_bit 4 c1, push_bit 4 c1 OR drop_bit 2 c2, push_bit 6 c2 OR c3]
     else if s2 = 61 then
       let c0 = Base64ChPos junk s0; c1 = Base64ChPos junk s1
       in [push_bit 2 c0 OR drop_bit 4 c1]
     else
       let c0 = Base64ChPos junk s0; c1 = Base64ChPos junk s1; c2 = Base64ChPos junk s2
       in [push_bit 2 c0 OR drop_bit 4 c1, push_bit 4 c1 OR drop_bit 2 c2])"

fun decode_units :: "u8 \<Rightarrow> u8 list \<Rightarrow> nat \<Rightarrow> u8 list \<Rightarrow> u8 list" where
  "decode_units junk (s0 # s1 # s2 # s3 # src) i dest =
     decode_units junk src (i + 3) (write_at i (Unit_Decode junk s0 s1 s2 s3) dest)"
| "decode_units junk src i dest = dest"

definition padding :: "u8 list \<Rightarrow> nat" where
  "padding src =
    (if src ! (length src - 1) = 61 then (if src ! (length src - 2) = 61 then 2 else 1) else 0)"

text \<open>The destination and the length; neither is touched for fewer than four characters.\<close>

definition Base64Decode_buf :: "u8 \<Rightarrow> u8 list \<Rightarrow> u8 list \<Rightarrow> nat \<Rightarrow> u8 list \<times> nat" where
  "Base64Decode_buf junk src dest decode_length =
    (if length src < 4 then (dest, decode_length)
     else (decode_units junk src 0 dest, length src div 4 * 3 - padding src))"

text \<open>
  The string overload allocates \<^verbatim>\<open>buf\<close>; \<open>fresh n\<close> is what \<open>n\<close> newly allocated bytes hold. \<^verbatim>\<open>buf\<close>
  stays null (\<open>None\<close>) for an empty string.
\<close>

definition Base64Decode :: "u8 \<Rightarrow> (nat \<Rightarrow> u8 list) \<Rightarrow> u8 list \<Rightarrow> nat \<Rightarrow> u8 list option \<times> nat" where
  "Base64Decode junk fresh strEn len =
    (if strEn = [] then (None, 0)
     else
       let (buf, len) = Base64Decode_buf junk strEn (fresh (length strEn div 4 * 3)) len
       in (Some buf, len))"

section \<open>Lemmas: the newer codec\<close>

lemma mask_63: "0x3F = (mask 6 :: 'a :: len word)" if "6 \<le> LENGTH('a)"
  by (simp add: mask_eq_exp_minus_1)

lemma sextet_lt: "(\<And>n. bit x n \<Longrightarrow> n < 6) \<Longrightarrow> unat (x :: u8) < 64"
proof -
  assume b: "\<And>n. bit x n \<Longrightarrow> n < 6"
  have "x = x AND mask 6" by (rule bit_word_eqI) (auto simp: bit_and_iff bit_mask_iff dest: b)
  then have "x \<le> mask 6" by (metis word_and_le1)
  then have "x \<le> 63" by (simp add: mask_eq_exp_minus_1)
  then show ?thesis by (simp add: word_le_nat_alt)
qed

lemma strchr_index_append_Some: "strchr_index xs ch = Some i \<Longrightarrow> strchr_index (xs @ ys) ch = Some i"
  by (induction xs arbitrary: i) auto

lemma strchr_index_nth: "distinct xs \<Longrightarrow> i < length xs \<Longrightarrow> strchr_index xs (xs ! i) = Some i"
proof (induction xs arbitrary: i)
  case (Cons x xs)
  then show ?case by (cases i) auto
qed simp

lemma length_BASE64_TAB [simp]: "length BASE64_TAB = 64"
  by code_simp

lemma distinct_BASE64_TAB: "distinct BASE64_TAB"
  by code_simp

lemma BASE64_TAB_no_pad: "61 \<notin> set BASE64_TAB" "0 \<notin> set BASE64_TAB"
  by code_simp+

lemma tab_nth [simp]: "unat x < 64 \<Longrightarrow> BASE64_TAB ! unat x \<noteq> 61" "unat x < 64 \<Longrightarrow> BASE64_TAB ! unat x \<noteq> 0"
  using BASE64_TAB_no_pad nth_mem [of "unat x" BASE64_TAB] by (metis length_BASE64_TAB)+

lemma Base64ChPos_tab [simp]: "unat x < 64 \<Longrightarrow> Base64ChPos junk (BASE64_TAB ! unat x) = x"
  using strchr_index_append_Some [OF strchr_index_nth [OF distinct_BASE64_TAB, of "unat x"]]
  by (simp add: Base64ChPos_def)

lemma mask_8: "0x3F = (mask 6 :: u8)" "0x30 = (push_bit 4 (mask 2) :: u8)" "0x0F = (mask 4 :: u8)"
  "0x3C = (push_bit 2 (mask 4) :: u8)" "0x03 = (mask 2 :: u8)"
  by (simp_all add: mask_eq_exp_minus_1)

lemmas bits8 = mask_8 bit_and_iff bit_or_iff bit_push_bit_iff bit_drop_bit_eq bit_mask_iff

text \<open>The four sextets of three bytes, and the bytes back from them.\<close>

definition sext1 :: "u8 \<Rightarrow> u8" where "sext1 p0 = drop_bit 2 p0"
definition sext2 :: "u8 \<Rightarrow> u8 \<Rightarrow> u8" where "sext2 p0 p1 = (push_bit 4 p0 AND 0x3F) OR drop_bit 4 p1"
definition sext3 :: "u8 \<Rightarrow> u8 \<Rightarrow> u8" where "sext3 p1 p2 = (push_bit 2 p1 AND 0x3F) OR drop_bit 6 p2"
definition sext4 :: "u8 \<Rightarrow> u8" where "sext4 p2 = p2 AND 0x3F"

lemma bit_sext:
  "bit (sext1 p) n \<longleftrightarrow> n < 6 \<and> bit p (n + 2)"
  "bit (sext2 p q) n \<longleftrightarrow> (if n < 4 then bit q (n + 4) else n < 6 \<and> bit p (n - 4))"
  "bit (sext3 q r) n \<longleftrightarrow> (if n < 2 then bit r (n + 6) else n < 6 \<and> bit q (n - 2))"
  "bit (sext4 r) n \<longleftrightarrow> n < 6 \<and> bit r n"
  unfolding sext1_def sext2_def sext3_def sext4_def bits8
  by (auto simp: ac_simps dest: bit_imp_le_length)

lemma sext_lt [simp]: "unat (sext1 p) < 64" "unat (sext2 p q) < 64" "unat (sext3 q r) < 64" "unat (sext4 r) < 64"
  by (rule sextet_lt; auto simp: bit_sext split: if_splits)+

lemma bytes_of_sext [simp]:
  "push_bit 2 (sext1 p) OR drop_bit 4 (sext2 p q) = p"
  "push_bit 4 (sext2 p q) OR drop_bit 2 (sext3 q r) = q"
  "push_bit 6 (sext3 q r) OR sext4 r = r"
proof -
  show "push_bit 2 (sext1 p) OR drop_bit 4 (sext2 p q) = p"
    by (rule bit_word_eqI) (auto simp: bit_sext bit_or_iff bit_push_bit_iff bit_drop_bit_eq dest: bit_imp_le_length
        simp del: add_2_eq_Suc')
  show "push_bit 4 (sext2 p q) OR drop_bit 2 (sext3 q r) = q"
    by (rule bit_word_eqI) (auto simp: bit_sext bit_or_iff bit_push_bit_iff bit_drop_bit_eq dest: bit_imp_le_length)
  show "push_bit 6 (sext3 q r) OR sext4 r = r"
    by (rule bit_word_eqI) (auto simp: bit_sext bit_or_iff bit_push_bit_iff bit_drop_bit_eq dest: bit_imp_le_length)
qed

lemma Unit_Code_sext: "Unit_Code p q r =
    map (\<lambda>x. BASE64_TAB ! unat x) [sext1 p, sext2 p q, sext3 q r, sext4 r]"
  by (simp add: Unit_Code_def sext1_def sext2_def sext3_def sext4_def)

lemma Fill_Code_sext:
  "Fill_Code [p, q] = map (\<lambda>x. BASE64_TAB ! unat x) [sext1 p, sext2 p q, sext3 q 0] @ [61]"
  "Fill_Code [p] = map (\<lambda>x. BASE64_TAB ! unat x) [sext1 p, sext2 p 0] @ [61, 61]"
  by (simp_all add: Fill_Code_def sext1_def sext2_def sext3_def)

lemma Unit_Decode_code:
  "Unit_Decode junk (BASE64_TAB ! unat (sext1 p)) (BASE64_TAB ! unat (sext2 p q))
     (BASE64_TAB ! unat (sext3 q r)) (BASE64_TAB ! unat (sext4 r)) = [p, q, r]"
  "Unit_Decode junk (BASE64_TAB ! unat (sext1 p)) (BASE64_TAB ! unat (sext2 p q))
     (BASE64_TAB ! unat (sext3 q r)) 61 = [p, q]"
  "Unit_Decode junk (BASE64_TAB ! unat (sext1 p)) (BASE64_TAB ! unat (sext2 p q)) 61 61 = [p]"
  by (simp_all add: Unit_Decode_def)

lemma encode_length_simps [simp]:
  "encode_length 0 = 0" "encode_length (Suc 0) = 4" "encode_length (Suc (Suc 0)) = 4"
  "encode_length (Suc (Suc (Suc n))) = encode_length n + 4"
proof -
  have "Suc (Suc (Suc n)) div 3 = Suc (n div 3)" "Suc (Suc (Suc n)) mod 3 = n mod 3" by presburger+
  then show "encode_length (Suc (Suc (Suc n))) = encode_length n + 4" by (simp add: encode_length_def)
qed (simp_all add: encode_length_def)

lemma length_encode_units: "length (encode_units s) = encode_length (length s)"
  by (induction s rule: encode_units.induct) (simp_all add: Unit_Code_sext Fill_Code_sext)

lemma encode_units_no_zero: "0 \<notin> set (encode_units s)"
  by (induction s rule: encode_units.induct) (auto simp: Unit_Code_sext Fill_Code_sext)

lemma Base64Encode_units: "Base64Encode s = encode_units s"
proof -
  have "takeWhile (\<lambda>c. c \<noteq> 0) (encode_units s) = encode_units s"
    using encode_units_no_zero [of s] by (intro takeWhile_eq_all_conv [THEN iffD2]) auto
  then show ?thesis by (simp add: Base64Encode_def c_string_def length_encode_units [symmetric])
qed

lemma decode_units_encode:
  "i + encode_length (length s) div 4 * 3 \<le> length d \<Longrightarrow>
   take (i + length s) (decode_units junk (encode_units s) i d) = take i d @ s"
proof (induction s arbitrary: i d rule: encode_units.induct [case_names Unit Nil One Two])
  case (Unit p q r s)
  have q: "(encode_length (length s) + 4) div 4 * 3 = encode_length (length s) div 4 * 3 + 3"
    by (simp add: div_add_self2)
  from Unit(2) have "i + 3 \<le> length d" by (simp add: q)
  then have "length (write_at i [p, q, r] d) = length d" "take (i + 3) (write_at i [p, q, r] d) = take i d @ [p, q, r]"
    using length_write_at [of i "[p, q, r]" d] take_write_at [of i "[p, q, r]" d]
    by (simp_all add: numeral_3_eq_3)
  moreover have "decode_units junk (encode_units (p # q # r # s)) i d =
      decode_units junk (encode_units s) (i + 3) (write_at i [p, q, r] d)"
    by (simp add: Unit_Code_sext Unit_Decode_code)
  moreover have "i + length (p # q # r # s) = i + 3 + length s"
    "take i d @ p # q # r # s = (take i d @ [p, q, r]) @ s" by simp_all
  moreover have "i + 3 + encode_length (length s) div 4 * 3 \<le> length d"
    using Unit(2) by (simp add: q)
  ultimately show ?case
    using Unit(1) [of "i + 3" "write_at i [p, q, r] d"] by (simp only:)
next
  case (One p)
  then show ?case using take_write_at [of i "[p]"]
    by (simp add: Fill_Code_sext Unit_Decode_code)
next
  case (Two p q)
  then show ?case using take_write_at [of i "[p, q]"]
    by (simp add: Fill_Code_sext Unit_Decode_code)
qed simp

lemma padding_append: "2 \<le> length ys \<Longrightarrow> padding (xs @ ys) = padding ys"
proof -
  assume "2 \<le> length ys"
  then have "length xs + length ys - 1 = length xs + (length ys - 1)"
    "length xs + length ys - 2 = length xs + (length ys - 2)" by simp_all
  then show ?thesis unfolding padding_def length_append by (simp only: nth_append_length_plus)
qed

lemma encode_units_padding:
  "s \<noteq> [] \<Longrightarrow> padding (encode_units s) = encode_length (length s) div 4 * 3 - length s
     \<and> 4 \<le> length (encode_units s) \<and> length s \<le> encode_length (length s) div 4 * 3"
proof (induction s rule: encode_units.induct)
  case (1 p q r s)
  show ?case
  proof (cases "s = []")
    case True
    then show ?thesis by (simp add: padding_def Unit_Code_sext)
  next
    case False
    with 1 have ih: "padding (encode_units s) = encode_length (length s) div 4 * 3 - length s"
      "4 \<le> length (encode_units s)" "length s \<le> encode_length (length s) div 4 * 3" by auto
    have q: "(encode_length (length s) + 4) div 4 * 3 = encode_length (length s) div 4 * 3 + 3"
      by (simp add: div_add_self2)
    have "padding (Unit_Code p q r @ encode_units s) = padding (encode_units s)"
      using ih(2) by (intro padding_append) simp
    then show ?thesis using ih by (simp add: q)
  qed
qed (auto simp: padding_def Fill_Code_sext)

section \<open>Lemmas: the older codec\<close>

lemma scast_byte: "p < 128 \<Longrightarrow> scast (p :: u8) = (ucast p :: u64)"
proof -
  assume "p < 128"
  then have "uint p < 128" by (simp add: word_less_def)
  moreover have "- (2 ^ 7) \<le> uint p" by (rule order_trans [OF _ uint_ge_0]) simp
  ultimately have "signed_take_bit 7 (uint p) = uint p"
    by (intro signed_take_bit_int_eq_self) simp_all
  then have "sint p = uint p" unfolding sint_uint by simp
  then show ?thesis by (simp only: scast_eq ucast_eq)
qed

lemma digit_unat:
  "(\<And>n. bit (m :: u64) n \<longleftrightarrow> bit x n) \<Longrightarrow> unat m = unat (x :: u8)"
proof -
  assume "\<And>n. bit m n \<longleftrightarrow> bit x n"
  then have m: "m = ucast x" by (intro bit_word_eqI) (auto simp: bit_ucast_iff)
  have "unat x < 256" using unsigned_less [of x, where ?'a = nat] by simp
  then have "unat x < 18446744073709551616" by linarith
  then show "unat m = unat x" by (simp add: m unsigned_ucast_eq take_bit_nat_eq_self_iff)
qed

lemma mask_64: "0x3F = (mask 6 :: u64)"
  by (simp add: mask_eq_exp_minus_1)

lemma put_digits_4: "put_digits 4 tab m =
   [tab ! unat (drop_bit 18 m AND 0x3F), tab ! unat (drop_bit 12 m AND 0x3F),
    tab ! unat (drop_bit 6 m AND 0x3F), tab ! unat (m AND 0x3F)]"
  by (simp add: eval_nat_numeral)

lemma bit_three_bytes:
  "bit (push_bit 8 (push_bit 8 (ucast p) OR ucast q) OR ucast r :: u64) n \<longleftrightarrow>
     (if n < 8 then bit r n else if n < 16 then bit q (n - 8) else n < 24 \<and> bit p (n - 16))"
  for p q r :: u8
  by (auto simp: bit_or_iff bit_push_bit_iff bit_ucast_iff dest: bit_imp_le_length)

lemma put_digits_sext:
  "put_digits 4 tab (push_bit 8 (push_bit 8 (ucast p) OR ucast q) OR ucast r) =
   map (\<lambda>x. tab ! unat x) [sext1 p, sext2 p q, sext3 q r, sext4 r]"
proof -
  let ?m = "push_bit 8 (push_bit 8 (ucast p) OR ucast q) OR ucast r :: u64"
  have d: "bit (drop_bit k ?m AND mask 6) n \<longleftrightarrow> n < 6 \<and> bit ?m (n + k)" for k n
    by (simp only: bit_and_iff bit_mask_iff bit_drop_bit_eq comp_def add.commute [of k]) auto
  have "bit (drop_bit 18 ?m AND mask 6) n \<longleftrightarrow> bit (sext1 p) n"
    "bit (drop_bit 12 ?m AND mask 6) n \<longleftrightarrow> bit (sext2 p q) n"
    "bit (drop_bit 6 ?m AND mask 6) n \<longleftrightarrow> bit (sext3 q r) n"
    "bit (drop_bit 0 ?m AND mask 6) n \<longleftrightarrow> bit (sext4 r) n" for n
    unfolding d bit_three_bytes by (auto simp: bit_sext add.commute [of 4] dest: bit_imp_le_length)
  then have "unat (drop_bit 18 ?m AND mask 6) = unat (sext1 p)"
    "unat (drop_bit 12 ?m AND mask 6) = unat (sext2 p q)"
    "unat (drop_bit 6 ?m AND mask 6) = unat (sext3 q r)"
    "unat (?m AND mask 6) = unat (sext4 r)"
    by (intro digit_unat; simp)+
  then show ?thesis unfolding put_digits_4 mask_64 by simp
qed

lemma encode_set_sext:
  "p < 128 \<Longrightarrow> q < 128 \<Longrightarrow> r < 128 \<Longrightarrow> encode_set tab e (p # q # r # s) =
     map (\<lambda>x. tab ! unat x) [sext1 p, sext2 p q, sext3 q r, sext4 r] @ encode_set tab e s"
  "p < 128 \<Longrightarrow> q < 128 \<Longrightarrow> encode_set tab e [p, q] =
     map (\<lambda>x. tab ! unat x) [sext1 p, sext2 p q, sext3 q 0] @ [e]"
  "p < 128 \<Longrightarrow> encode_set tab e [p] = map (\<lambda>x. tab ! unat x) [sext1 p, sext2 p 0] @ [e, e]"
proof -
  note u = encode_set.simps Let_def scast_byte push_bit_of_0 or.left_neutral
  show "p < 128 \<Longrightarrow> q < 128 \<Longrightarrow> r < 128 \<Longrightarrow> encode_set tab e (p # q # r # s) =
     map (\<lambda>x. tab ! unat x) [sext1 p, sext2 p q, sext3 q r, sext4 r] @ encode_set tab e s"
    by (simp only: u put_digits_sext)
  show "p < 128 \<Longrightarrow> q < 128 \<Longrightarrow> encode_set tab e [p, q] =
     map (\<lambda>x. tab ! unat x) [sext1 p, sext2 p q, sext3 q 0] @ [e]"
    using put_digits_sext [of tab p q 0] by (simp only: u unsigned_0 or.right_neutral) simp
  show "p < 128 \<Longrightarrow> encode_set tab e [p] = map (\<lambda>x. tab ! unat x) [sext1 p, sext2 p 0] @ [e, e]"
    using put_digits_sext [of tab p 0 0] by (simp only: u unsigned_0 or.right_neutral) simp
qed

lemma base64_set_as_units:
  assumes "\<forall>b\<in>set s. b < 128"
  shows "encode_set BASE64_TAB 61 s = encode_units s"
  using assms
  by (induction s rule: encode_units.induct)
    (simp_all add: encode_set_sext Unit_Code_sext Fill_Code_sext del: encode_set.simps(1-3))

text \<open>The alphabets and their inverse tables.\<close>

lemma base64i_inverse: "map (code_of base64i) BASE64_TAB = map (\<lambda>i. Inr (of_nat i)) [0..<64]"
  by code_simp

lemma code_of_digit [simp]: "unat x < 64 \<Longrightarrow> code_of base64i (BASE64_TAB ! unat x) = Inr x"
  using arg_cong [OF base64i_inverse, of "\<lambda>xs. xs ! unat x"] by simp

lemma digit_not_minus [simp]: "unat (x :: u8) < 64 \<Longrightarrow> x \<noteq> -1"
proof -
  have "unat (-1 :: u8) = 255" by code_simp
  then show "unat x < 64 \<Longrightarrow> x \<noteq> -1" by auto
qed

lemma old_bytes_of_sext:
  "push_bit 2 (sext1 p) OR drop_bit 4 (sext2 p q AND 0x30) = p"
  "push_bit 4 (sext2 p q AND 0xF) OR drop_bit 2 (sext3 q r AND 0x3C) = q"
  "push_bit 6 (sext3 q r AND 0x03) OR sext4 r = r"
proof -
  note b = mask_8 bit_and_iff bit_mask_iff bit_sext bit_or_iff bit_push_bit_iff bit_drop_bit_eq
  show "push_bit 2 (sext1 p) OR drop_bit 4 (sext2 p q AND 0x30) = p"
  proof (rule bit_word_eqI)
    fix n assume "n < LENGTH(8)"
    then show "bit (push_bit 2 (sext1 p) OR drop_bit 4 (sext2 p q AND 0x30)) n = bit p n"
      unfolding b by (cases "2 \<le> n") (auto dest: bit_imp_le_length simp del: add_2_eq_Suc')
  qed
  show "push_bit 4 (sext2 p q AND 0xF) OR drop_bit 2 (sext3 q r AND 0x3C) = q"
  proof (rule bit_word_eqI)
    fix n assume "n < LENGTH(8)"
    then show "bit (push_bit 4 (sext2 p q AND 0xF) OR drop_bit 2 (sext3 q r AND 0x3C)) n = bit q n"
      unfolding b by (cases "4 \<le> n") (auto dest: bit_imp_le_length simp del: add_2_eq_Suc')
  qed
  show "push_bit 6 (sext3 q r AND 0x03) OR sext4 r = r"
    by (rule bit_word_eqI, unfold b) (auto dest: bit_imp_le_length simp del: add_2_eq_Suc')
qed

lemma decode_loop_encode:
  assumes "\<forall>b\<in>set s. b < 128" "length buf + encode_length (length s) div 4 * 3 \<le> cap"
  shows "\<exists>ended. decode_loop base64i 61 cap (encode_units s) buf = Inr (ended, buf @ s)"
  using assms
proof (induction s arbitrary: buf rule: encode_units.induct [case_names Unit Nil One Two])
  case (Unit p q r s)
  have q: "(encode_length (length s) + 4) div 4 * 3 = encode_length (length s) div 4 * 3 + 3"
    by (simp add: div_add_self2)
  have "decode_loop base64i 61 cap (encode_units (p # q # r # s)) buf =
      decode_loop base64i 61 cap (encode_units s) (buf @ [p, q, r])"
    using Unit(3) by (subst decode_loop.simps) (simp add: Unit_Code_sext old_bytes_of_sext [simplified] Let_def q)
  with Unit(1) [of "buf @ [p, q, r]"] Unit(2,3) show ?case by (simp add: q)
next
  case Nil
  show ?case by (subst decode_loop.simps) auto
next
  case (One p)
  then show ?case
    by (subst decode_loop.simps) (auto simp: Fill_Code_sext old_bytes_of_sext [simplified] Let_def)
next
  case (Two p q)
  then show ?case
    by (subst decode_loop.simps) (auto simp: Fill_Code_sext old_bytes_of_sext [simplified] Let_def)
qed

lemma base64_decode_encode:
  assumes "s \<noteq> []" "\<And>n. length (fresh n) = n"
  shows "length (Base64Encode s) = encode_length (length s) \<and>
    (\<exists>buf. Base64Decode junk fresh (Base64Encode s) len = (Some buf, length s) \<and> take (length s) buf = s)"
proof -
  note p = encode_units_padding [OF assms(1)]
  then have "encode_units s \<noteq> []" "\<not> length (encode_units s) < 4" by auto
  moreover have "length (encode_units s) div 4 * 3 - padding (encode_units s) = length s"
    using p by (simp add: length_encode_units)
  ultimately show ?thesis
    using decode_units_encode [of 0 s "fresh (length (encode_units s) div 4 * 3)" junk] assms(2)
    by (simp add: Base64Decode_def Base64Decode_buf_def Base64Encode_units length_encode_units)
qed

section \<open>Properties\<close>

text \<open>
  C36. The newer codec round-trips every byte string: decoding what \<^verbatim>\<open>Base64Encode\<close> made of a
  non-empty string reports its length and leaves its bytes in the new buffer, whatever the buffer
  held before and whatever the position of a character outside the alphabet would be; the encoded
  text has \<open>4 * \<lceil>n / 3\<rceil>\<close> characters.
\<close>

theorem base64_roundtrip:
  assumes "s \<noteq> []" "\<And>n. length (fresh n) = n"
  shows "length (Base64Encode s) = encode_length (length s) \<and>
    (\<exists>buf. Base64Decode junk fresh (Base64Encode s) len = (Some buf, length s) \<and> take (length s) buf = s)"
  using assms by (rule base64_decode_encode)

lemma base64_roundtrip_witness:
  "take 4 (the (fst (Base64Decode 7 (\<lambda>n. replicate n 9) (Base64Encode [0, 255, 61, 128]) 0))) = [0, 255, 61, 128]"
  using base64_roundtrip [of "[0, 255, 61, 128]" "\<lambda>n. replicate n 9" 7 0]
  by (auto simp: eval_nat_numeral)

text \<open>
  C37. The older encoder with the normal alphabet agrees with the newer one on bytes below 128,
  and on those its own decoder gives the string back with status 0.
\<close>

theorem base64_set_agrees:
  assumes "s \<noteq> []" "\<forall>b\<in>set s. b < 128"
  shows "Base64Encode_set s BASE64_CH_NORMAL = Base64Encode s \<and>
    Base64Decode_set (Base64Encode_set s BASE64_CH_NORMAL) BASE64_CH_NORMAL = Inr (0, Some s)"
proof -
  have e: "Base64Encode_set s BASE64_CH_NORMAL = encode_units s"
    using base64_set_as_units [OF assms(2)]
    by (simp add: Base64Encode_set_def set_out_def local_end_def base64o_def BASE64_TAB_def)
  have len: "length (encode_units s) = encode_length (length s)" by (rule length_encode_units)
  have "4 \<le> encode_length (length s)" using encode_units_padding [OF assms(1)] len by simp
  then have "\<not> encode_length (length s) div 4 * 3 + 1 \<le> 1" by (simp add: div_greater_zero_iff)
  moreover obtain ended where
    "decode_loop base64i 61 (encode_length (length s) div 4 * 3 + 1) (encode_units s) [] = Inr (ended, s)"
    using decode_loop_encode [OF assms(2), of "[]" "encode_length (length s) div 4 * 3 + 1"] by auto
  ultimately show ?thesis
    using assms(1) unfolding Base64Decode_set_def e len Let_def
    by (simp add: set_in_def local_end_def Base64Encode_units)
qed

lemma base64_set_agrees_witness:
  "Base64Decode_set (Base64Encode_set [77, 97, 110, 33] BASE64_CH_NORMAL) BASE64_CH_NORMAL = Inr (0, Some [77, 97, 110, 33])"
  by (rule base64_set_agrees [THEN conjunct2]) simp_all

text \<open>
  Outside those bytes the older codec loses information, in three ways: it gives two different
  byte strings the same text (a byte of 128 or more overwrites the bytes before it); the secret
  alphabet contains its own end character, so that three zero-free ASCII bytes come back as
  one; and a line break after a complete text discards the whole result.
\<close>

theorem base64_set_losses:
  "Base64Encode_set [0, 128, 0] cs = Base64Encode_set [255, 128, 0] cs \<and>
   Base64Decode_set (Base64Encode_set [1, 4, 65] BASE64_CH_SECRET) BASE64_CH_SECRET = Inr (0, Some [1]) \<and>
   Base64Decode_set (Base64Encode_set [77, 97, 110] BASE64_CH_NORMAL @ [10]) BASE64_CH_NORMAL = Inr (-1, None)"
proof (intro conjI)
  show "Base64Encode_set [0, 128, 0] cs = Base64Encode_set [255, 128, 0] cs"
    by (cases cs) code_simp+
  show "Base64Decode_set (Base64Encode_set [1, 4, 65] BASE64_CH_SECRET) BASE64_CH_SECRET = Inr (0, Some [1])"
    by code_simp
  show "Base64Decode_set (Base64Encode_set [77, 97, 110] BASE64_CH_NORMAL @ [10]) BASE64_CH_NORMAL = Inr (-1, None)"
    by code_simp
qed

text \<open>A reading loop shortens the text and fails only by running out of it.\<close>

lemma read_first_step:
  assumes "\<forall>b\<in>set s. unat b < length tab"
  shows "case read_first tab s of Inl e \<Rightarrow> e \<noteq> Out_of_bounds
    | Inr (c, s') \<Rightarrow> set s' \<subseteq> set s \<and> length s' < length s"
  using assms by (induction tab s rule: read_first.induct) (auto simp: code_of_def split: sum.splits)

lemma read_second_step:
  assumes "\<forall>b\<in>set s. unat b < length tab"
  shows "case read_second tab s of Inl e \<Rightarrow> e \<noteq> Out_of_bounds
    | Inr (c, s') \<Rightarrow> set s' \<subseteq> set s \<and> length s' < length s"
  using assms by (cases s) (auto simp: code_of_def)

lemma read_end_step:
  assumes "\<forall>b\<in>set s. unat b < length tab"
  shows "case read_end tab e s of Inl e \<Rightarrow> e \<noteq> Out_of_bounds | Inr None \<Rightarrow> True
    | Inr (Some (c, s')) \<Rightarrow> set s' \<subseteq> set s \<and> length s' < length s"
  using assms
  by (induction tab e s rule: read_end.induct) (auto simp: code_of_def split: sum.splits option.splits)

lemma decode_loop_in_bounds:
  "\<forall>b\<in>set s. unat b < length tab \<Longrightarrow> 4 * length buf + 3 * length s < 4 * cap \<Longrightarrow>
   decode_loop tab e cap s buf \<noteq> Inl Out_of_bounds"
proof (induction "length s" arbitrary: s buf rule: less_induct)
  case less
  note ok = less.prems
  show ?case
  proof (cases "s = [] \<or> (\<exists>err. read_first tab s = Inl err)")
    case True
    with read_first_step [OF ok(1)] show ?thesis by (subst decode_loop.simps) auto
  next
    case False
    then obtain c1 s1 where 1: "s \<noteq> []" "read_first tab s = Inr (c1, s1)" by (cases "read_first tab s") auto
    with read_first_step [OF ok(1)] have s1: "set s1 \<subseteq> set s" "length s1 < length s" by auto
    have step2: "\<forall>b\<in>set s1. unat b < length tab" using ok(1) s1(1) by blast
    note step2 = read_second_step [OF step2]
    show ?thesis
    proof (cases "\<exists>err. read_second tab s1 = Inl err")
      case True
      with step2 ok s1 show ?thesis by (subst decode_loop.simps) (auto simp: 1)
    next
      case False
      then obtain c2 s2 where 2: "read_second tab s1 = Inr (c2, s2)" by (cases "read_second tab s1") auto
      with step2 ok s1 have s2: "set s2 \<subseteq> set s" "length s2 + 2 \<le> length s" by auto
      have step3: "\<forall>b\<in>set s2. unat b < length tab" using ok(1) s2(1) by blast
    note step3 = read_end_step [OF step3, of e]
      show ?thesis
      proof (cases "(\<exists>err. read_end tab e s2 = Inl err) \<or> read_end tab e s2 = Inr None")
        case True
        with step3 ok s2 show ?thesis by (subst decode_loop.simps) (auto simp: 1 2 Let_def split: if_splits)
      next
        case False
        then obtain c3 s3 where 3: "read_end tab e s2 = Inr (Some (c3, s3))" by (cases "read_end tab e s2") auto
        with step3 ok s2 have s3: "set s3 \<subseteq> set s" "length s3 + 3 \<le> length s" by auto
        have step4: "\<forall>b\<in>set s3. unat b < length tab" using ok(1) s3(1) by blast
    note step4 = read_end_step [OF step4, of e]
        show ?thesis
        proof (cases "(\<exists>err. read_end tab e s3 = Inl err) \<or> read_end tab e s3 = Inr None")
          case True
          with step4 ok s3 show ?thesis by (subst decode_loop.simps) (auto simp: 1 2 3 Let_def split: if_splits)
        next
          case False
          then obtain c4 s4 where 4: "read_end tab e s3 = Inr (Some (c4, s4))" by (cases "read_end tab e s3") auto
          with step4 ok s3 have s4: "set s4 \<subseteq> set s" "length s4 + 4 \<le> length s" by auto
          have "decode_loop tab e cap s4 (buf @ [x, y, z]) \<noteq> Inl Out_of_bounds" for x y z
            using s4 ok by (intro less.hyps) auto
          then show ?thesis
            using s4 ok by (subst decode_loop.simps) (simp add: 1 2 3 4 Let_def)
        qed
      qed
    qed
  qed
qed

text \<open>
  On a text of whole units the older decoder stays inside its tables and its buffer, for any
  ASCII characters in it; on seven characters it writes past its four-byte buffer.
\<close>

theorem base64_set_decode_in_bounds:
  assumes "length s mod 4 = 0" "\<forall>b\<in>set s. b < 128"
  shows "Base64Decode_set s cs \<noteq> Inl Out_of_bounds"
proof -
  have "length (set_in cs) = 128" by (cases cs) (simp_all add: set_in_def base64i_def base64i_ex_def)
  moreover have "unat b < 128" if "b \<in> set s" for b
    using assms(2) that by (auto simp: word_less_nat_alt)
  moreover have "3 * length s < 4 * (length s div 4 * 3 + 1)" using assms(1) by presburger
  ultimately have "decode_loop (set_in cs) (local_end cs) (length s div 4 * 3 + 1) s [] \<noteq> Inl Out_of_bounds"
    by (intro decode_loop_in_bounds) auto
  then show ?thesis by (auto simp: Base64Decode_set_def Let_def split: sum.splits)
qed

lemma base64_set_decode_in_bounds_witness:
  "Base64Decode_set (replicate 8 65) BASE64_CH_SECRET \<noteq> Inl Out_of_bounds"
  by (rule base64_set_decode_in_bounds) simp_all

lemma base64_set_decode_overflow:
  "Base64Decode_set (replicate 7 65) BASE64_CH_NORMAL = Inl Out_of_bounds"
  by code_simp

end
