(* ===== verification/Md5_Spec.thy ===== *)
theory Md5_Spec
  imports Complex_Main Base_Tools
begin

text \<open>
  The message digest of RFC 1321, written from the text of the standard and not from the code:
  words from bytes with the low-order byte first, the four auxiliary functions, the table
  \<open>T[i]\<close> (the integer part of \<open>4294967296\<close> times \<open>abs (sin i)\<close>, \<open>i\<close> in radians), the word each of
  the 64 operations uses, its rotation, the initial registers, padding and the digest.

  The second half evaluates that table inside the logic: \<open>sin\<close> and \<open>cos\<close> of 1 are bracketed by
  their Maclaurin sums, scaled by \<open>2 ^ 128\<close>, and those of \<open>n + 1\<close> by the addition theorems, with an
  error that at most doubles in each of the 64 steps.
\<close>

section \<open>The standard\<close>

text \<open>Section 2: a word is four bytes with the low-order byte first.\<close>

definition rfc_word :: "u8 list \<Rightarrow> u32" where
  "rfc_word b = of_nat (\<Sum>j<4. unat (b ! j) * 256 ^ j)"

definition rfc_bytes :: "u32 \<Rightarrow> u8 list" where
  "rfc_bytes w = map (\<lambda>j. of_nat (unat w div 256 ^ j)) [0..<4]"

text \<open>Sections 3.1 and 3.2: a single one bit, zeros to 448 modulo 512 bits, the number of bits in 64 bits.\<close>

definition rfc_pad :: "u8 list \<Rightarrow> u8 list" where
  "rfc_pad m = m @ [0x80] @ replicate ((119 - length m mod 64) mod 64) 0 @
     map (\<lambda>j. of_nat (8 * length m div 256 ^ j)) [0..<8]"

text \<open>Section 3.3: the registers A, B, C and D, given as bytes with the low-order byte first.\<close>

definition rfc_init :: "u32 list" where
  "rfc_init = map rfc_word
     [[0x01, 0x23, 0x45, 0x67], [0x89, 0xab, 0xcd, 0xef], [0xfe, 0xdc, 0xba, 0x98], [0x76, 0x54, 0x32, 0x10]]"

text \<open>Section 3.4: the auxiliary functions, the table and the operations of the four rounds.\<close>

definition rfc_F :: "u32 \<Rightarrow> u32 \<Rightarrow> u32 \<Rightarrow> u32" where "rfc_F x y z = (x AND y) OR (NOT x AND z)"
definition rfc_G :: "u32 \<Rightarrow> u32 \<Rightarrow> u32 \<Rightarrow> u32" where "rfc_G x y z = (x AND z) OR (y AND NOT z)"
definition rfc_H :: "u32 \<Rightarrow> u32 \<Rightarrow> u32 \<Rightarrow> u32" where "rfc_H x y z = x XOR y XOR z"
definition rfc_I :: "u32 \<Rightarrow> u32 \<Rightarrow> u32 \<Rightarrow> u32" where "rfc_I x y z = y XOR (x OR NOT z)"

definition rfc_function :: "nat \<Rightarrow> u32 \<Rightarrow> u32 \<Rightarrow> u32 \<Rightarrow> u32" where
  "rfc_function i = [rfc_F, rfc_G, rfc_H, rfc_I] ! (i div 16)"

definition rfc_T :: "nat \<Rightarrow> u32" where
  "rfc_T i = of_int \<lfloor>4294967296 * \<bar>sin (real i)\<bar>\<rfloor>"

text \<open>The word of the block: 0, 1, 2, ...; then 1, 6, 11, ...; 5, 8, 11, ...; 0, 7, 14, ...\<close>

definition rfc_index :: "nat \<Rightarrow> nat" where
  "rfc_index i = [i, 1 + 5 * i, 5 + 3 * i, 7 * i] ! (i div 16) mod 16"

definition rfc_shift :: "nat \<Rightarrow> nat" where
  "rfc_shift i = [[7, 12, 17, 22], [5, 9, 14, 20], [4, 11, 16, 23], [6, 10, 15, 21]] ! (i div 16) ! (i mod 4)"

text \<open>
  Operation \<open>i\<close>, counted from 0: \<open>a = b + ((a + f b c d + X[k] + T[i + 1]) <<< s)\<close>; the register that
  is assigned goes from A to D, C, B, which is a rotation of the four.
\<close>

definition rfc_operation :: "u8 list \<Rightarrow> nat \<Rightarrow> u32 \<times> u32 \<times> u32 \<times> u32 \<Rightarrow> u32 \<times> u32 \<times> u32 \<times> u32" where
  "rfc_operation X i = (\<lambda>(a, b, c, d).
     (d, b + word_rotl (rfc_shift i)
        (a + rfc_function i b c d + rfc_word (drop (4 * rfc_index i) X) + rfc_T (i + 1)), b, c))"

definition rfc_block :: "u8 list \<Rightarrow> u32 list \<Rightarrow> u32 list" where
  "rfc_block X st =
    (let (a, b, c, d) = fold (rfc_operation X) [0..<64] (st ! 0, st ! 1, st ! 2, st ! 3)
     in [st ! 0 + a, st ! 1 + b, st ! 2 + c, st ! 3 + d])"

function rfc_blocks :: "u32 list \<Rightarrow> u8 list \<Rightarrow> u32 list" where
  "rfc_blocks st m = (if 64 \<le> length m then rfc_blocks (rfc_block (take 64 m) st) (drop 64 m) else st)"
  by pat_completeness auto
termination by (relation "measure (\<lambda>(st, m). length m)") auto

declare rfc_blocks.simps [simp del]

text \<open>Section 3.5: the digest is A, B, C, D from the low-order byte of A on.\<close>

definition md5_spec :: "u8 list \<Rightarrow> u8 list" where
  "md5_spec m = concat (map rfc_bytes (rfc_blocks rfc_init (rfc_pad m)))"

lemma length_rfc_pad: "length (rfc_pad m) mod 64 = 0"
proof -
  define r where "r = length m mod 64"
  have "r < 64" by (simp add: r_def)
  then have "r + (9 + (119 - r) mod 64) = 64 \<or> r + (9 + (119 - r) mod 64) = 128" by (auto simp: mod_if)
  then have "(r + (9 + (119 - r) mod 64)) mod 64 = 0" by (elim disjE) (simp_all only:, simp_all)
  then have "(length m + (9 + (119 - r) mod 64)) mod 64 = 0" unfolding r_def by (simp only: mod_add_left_eq)
  moreover have "length (rfc_pad m) = length m + (9 + (119 - r) mod 64)" by (simp add: rfc_pad_def r_def)
  ultimately show ?thesis by metis
qed

lemma length_rfc_blocks: "length st = 4 \<Longrightarrow> length (rfc_blocks st m) = 4"
proof (induction st m rule: rfc_blocks.induct)
  case (1 st m)
  have "length (rfc_block X st) = 4" for X by (simp add: rfc_block_def split: prod.split)
  with 1 show ?case by (subst rfc_blocks.simps) simp
qed

lemma length_digest: "length (md5_spec m) = 16"
proof -
  have "length (rfc_blocks rfc_init (rfc_pad m)) = 4" by (rule length_rfc_blocks) (simp add: rfc_init_def)
  moreover have "length (concat (map rfc_bytes ws)) = 4 * length ws" for ws by (induction ws) (simp_all add: rfc_bytes_def)
  ultimately show ?thesis by (simp add: md5_spec_def)
qed

section \<open>The sine table\<close>

definition scale :: int where "scale = 2 ^ 56"
definition sin1 :: int where "sin1 = 60634374617982832"
definition cos1 :: int where "cos1 = 38932884214002781"

lemma sin_one_bound: "\<bar>of_int sin1 - of_int scale * sin (1 :: real)\<bar> \<le> 1"
proof -
  have "\<bar>sin (1::real) - (\<Sum>m<22. sin_coeff m * 1 ^ m)\<bar> \<le> inverse (fact 22) * \<bar>1\<bar> ^ 22"
    by (rule Maclaurin_sin_bound)
  then have "\<bar>sin (1::real) - (\<Sum>m<22. sin_coeff m)\<bar> \<le> 1 / fact 22"
    by (simp add: inverse_eq_divide)
  then have "sin (1::real) - (\<Sum>m<22. sin_coeff m) \<le> 1 / fact 22" "(\<Sum>m<22. sin_coeff m) - sin (1::real) \<le> 1 / fact 22"
    by linarith+
  then have "\<bar>60634374617982832 - 2 ^ 56 * sin (1 :: real)\<bar> \<le> 1"
    unfolding abs_le_iff by (simp_all add: sin_coeff_def lessThan_nat_numeral fact_numeral field_simps)
  then show ?thesis by (simp add: sin1_def scale_def)
qed

lemma cos_one_bound: "\<bar>of_int cos1 - of_int scale * cos (1 :: real)\<bar> \<le> 1"
proof -
  from Maclaurin_cos_expansion [of 1 22] obtain t where
    "cos (1::real) = (\<Sum>m<22. cos_coeff m) + cos (t + 1/2 * 22 * pi) / fact 22" by auto
  moreover have "\<bar>cos (t + 1/2 * 22 * pi) / fact 22\<bar> \<le> 1 / fact 22"
    by (simp add: divide_right_mono)
  ultimately have "\<bar>cos (1::real) - (\<Sum>m<22. cos_coeff m)\<bar> \<le> 1 / fact 22" by simp
  then have "cos (1::real) - (\<Sum>m<22. cos_coeff m) \<le> 1 / fact 22" "(\<Sum>m<22. cos_coeff m) - cos (1::real) \<le> 1 / fact 22"
    by linarith+
  then have "\<bar>38932884214002781 - 2 ^ 56 * cos (1 :: real)\<bar> \<le> 1"
    unfolding abs_le_iff by (simp_all add: cos_coeff_def lessThan_nat_numeral fact_numeral field_simps)
  then show ?thesis by (simp add: cos1_def scale_def)
qed

text \<open>A scaled pair of a sine and a cosine, turned by one radian, and its distance from the real one.\<close>

fun turn :: "int \<times> int \<Rightarrow> int \<times> int" where
  "turn (s, c) = ((s * cos1 + c * sin1) div scale, (c * cos1 - s * sin1) div scale)"

definition point :: "int \<times> int \<Rightarrow> complex" where
  "point z = Complex (of_int (snd z)) (of_int (fst z))"

definition near :: "int \<times> int \<Rightarrow> nat \<Rightarrow> real \<Rightarrow> bool" where
  "near z n e \<longleftrightarrow> cmod (point z - of_int scale * cis (real n)) \<le> e"

lemma div_scale: "\<bar>of_int v / of_int scale - (of_int (v div scale) :: real)\<bar> \<le> 1"
proof -
  have "0 < scale" by (simp add: scale_def)
  then have p: "(0 :: real) < of_int scale" by simp
  have v: "of_int v = of_int scale * of_int (v div scale) + (of_int (v mod scale) :: real)"
    by (metis mult_div_mod_eq of_int_add of_int_mult)
  have "0 \<le> v mod scale" "v mod scale \<le> scale" using \<open>0 < scale\<close> by (simp_all add: less_imp_le)
  then have "0 \<le> (of_int (v mod scale) :: real)" "of_int (v mod scale) \<le> (of_int scale :: real)" by simp_all
  with p show ?thesis unfolding v by (simp add: add_divide_distrib)
qed

lemma complex_near: "\<bar>a - c\<bar> \<le> 1 \<Longrightarrow> \<bar>b - d\<bar> \<le> 1 \<Longrightarrow> cmod (Complex a b - Complex c d) \<le> 2"
proof -
  assume "\<bar>a - c\<bar> \<le> 1" "\<bar>b - d\<bar> \<le> 1"
  moreover have "Complex a b - Complex c d = Complex (a - c) (b - d)" by (simp add: complex_eq_iff)
  ultimately show ?thesis using cmod_le [of "Complex (a - c) (b - d)"] by simp
qed

lemma turn_near:
  assumes near: "near z n e" and e: "e \<le> of_int scale / 2"
  shows "near (turn z) (Suc n) (e + 5)"
proof -
  obtain s c where z: "z = (s, c)" by (cases z)
  let ?k = "of_int scale :: complex"
  define w where "w = Complex (of_int cos1) (of_int sin1)"
  have k: "?k \<noteq> 0" "(0::real) < of_int scale" by (simp_all add: scale_def)
  have "?k * cis 1 = Complex (of_int scale * cos 1) (of_int scale * sin 1)" by (simp add: complex_eq_iff)
  then have w: "cmod (w - ?k * cis 1) \<le> 2"
    using complex_near [OF cos_one_bound sin_one_bound] by (simp add: w_def)
  have "cmod (point z) \<le> cmod (point z - ?k * cis (real n)) + cmod (?k * cis (real n))"
    by (metis diff_add_cancel norm_triangle_ineq)
  also have "\<dots> \<le> e + of_int scale" using near k by (simp add: near_def norm_mult)
  finally have "cmod (point z) / of_int scale \<le> 3 / 2" using e k by (simp add: field_simps)
  then have small: "cmod (point z / ?k * (w - ?k * cis 1)) \<le> 3 / 2 * 2"
    unfolding norm_mult using w k by (intro mult_mono) (simp_all add: norm_divide)
  have "point z * w = Complex (of_int (c * cos1 - s * sin1)) (of_int (s * cos1 + c * sin1))"
    by (simp add: point_def w_def z complex_eq_iff)
  then have q: "point z * w / ?k = Complex (of_int (c * cos1 - s * sin1) / of_int scale) (of_int (s * cos1 + c * sin1) / of_int scale)"
    unfolding of_real_of_int_eq [where 'a = complex, symmetric]
    by (simp only: complex_eq_iff Re_divide_of_real Im_divide_of_real complex.sel simp_thms)
  have round: "cmod (point (turn z) - point z * w / ?k) \<le> 2"
    unfolding q using complex_near [OF div_scale div_scale]
    by (subst norm_minus_commute) (simp only: point_def z turn.simps fst_conv snd_conv)
  have "cis (real (Suc n)) = cis (real n) * cis 1" by (simp add: cis_mult add.commute)
  then have "point (turn z) - ?k * cis (real (Suc n)) =
      (point (turn z) - point z * w / ?k) + point z / ?k * (w - ?k * cis 1) + (point z - ?k * cis (real n)) * cis 1"
    using k(1) by (simp add: field_simps)
  also have "cmod \<dots> \<le> 2 + 3 + e"
    using round small near unfolding near_def
    by (intro order_trans [OF norm_triangle_ineq] add_mono) (simp_all add: norm_mult)
  finally show ?thesis by (simp add: near_def)
qed

text \<open>
  The table, and the check that each entry, with the error of its place, is the integer part.
\<close>

definition T_table :: "int list" where
  "T_table = [
    0xd76aa478, 0xe8c7b756, 0x242070db, 0xc1bdceee, 0xf57c0faf, 0x4787c62a, 0xa8304613, 0xfd469501,
    0x698098d8, 0x8b44f7af, 0xffff5bb1, 0x895cd7be, 0x6b901122, 0xfd987193, 0xa679438e, 0x49b40821,
    0xf61e2562, 0xc040b340, 0x265e5a51, 0xe9b6c7aa, 0xd62f105d, 0x02441453, 0xd8a1e681, 0xe7d3fbc8,
    0x21e1cde6, 0xc33707d6, 0xf4d50d87, 0x455a14ed, 0xa9e3e905, 0xfcefa3f8, 0x676f02d9, 0x8d2a4c8a,
    0xfffa3942, 0x8771f681, 0x6d9d6122, 0xfde5380c, 0xa4beea44, 0x4bdecfa9, 0xf6bb4b60, 0xbebfbc70,
    0x289b7ec6, 0xeaa127fa, 0xd4ef3085, 0x04881d05, 0xd9d4d039, 0xe6db99e5, 0x1fa27cf8, 0xc4ac5665,
    0xf4292244, 0x432aff97, 0xab9423a7, 0xfc93a039, 0x655b59c3, 0x8f0ccc92, 0xffeff47d, 0x85845dd1,
    0x6fa87e4f, 0xfe2ce6e0, 0xa3014314, 0x4e0811a1, 0xf7537e82, 0xbd3af235, 0x2ad7d2bb, 0xeb86d391]"

definition bracketed :: "int \<times> int \<Rightarrow> int \<Rightarrow> bool" where
  "bracketed z t \<longleftrightarrow> t * 2 ^ 24 + 350 \<le> \<bar>fst z\<bar> \<and> \<bar>fst z\<bar> + 350 < (t + 1) * 2 ^ 24"

fun table_bracketed :: "int \<times> int \<Rightarrow> int list \<Rightarrow> bool" where
  "table_bracketed z [] = True"
| "table_bracketed z (t # ts) = (bracketed z t \<and> table_bracketed (turn z) ts)"

lemma bracketed_floor:
  assumes "bracketed z t" "near z n 350"
  shows "\<lfloor>4294967296 * \<bar>sin (real n)\<bar>\<rfloor> = t"
proof -
  have "\<bar>Im (point z - of_int scale * cis (real n))\<bar> \<le> 350"
    using abs_Im_le_cmod assms(2) unfolding near_def by (rule order_trans)
  then have "\<bar>of_int (fst z) - of_int scale * sin (real n)\<bar> \<le> (350 :: real)"
    by (simp add: point_def)
  moreover have "\<bar>of_int scale * sin (real n)\<bar> = of_int scale * \<bar>sin (real n)\<bar>" by (simp add: abs_mult scale_def)
  ultimately have near: "of_int \<bar>fst z\<bar> - 350 \<le> of_int scale * \<bar>sin (real n)\<bar>" "of_int scale * \<bar>sin (real n)\<bar> \<le> of_int \<bar>fst z\<bar> + 350"
    unfolding of_int_abs by linarith+
  have "t * 2 ^ 24 + 350 \<le> \<bar>fst z\<bar>" "\<bar>fst z\<bar> + 350 < (t + 1) * 2 ^ 24"
    using assms(1) by (simp_all add: bracketed_def)
  then have "of_int (t * 2 ^ 24 + 350) \<le> (of_int \<bar>fst z\<bar> :: real)" "of_int (\<bar>fst z\<bar> + 350) < (of_int ((t + 1) * 2 ^ 24) :: real)"
    by (simp_all only: of_int_le_iff of_int_less_iff)
  with near show ?thesis by (intro floor_unique) (simp_all add: scale_def)
qed

lemma table_bracketed_floor:
  "table_bracketed z ts \<Longrightarrow> near z n e \<Longrightarrow> e + 5 * real (length ts) \<le> 350 \<Longrightarrow> i < length ts \<Longrightarrow>
   \<lfloor>4294967296 * \<bar>sin (real (n + i))\<bar>\<rfloor> = ts ! i"
proof (induction ts arbitrary: z n e i)
  case (Cons t ts)
  have e: "e \<le> 350" using Cons.prems(3) by simp
  then have big: "near z n 350" using Cons.prems(2) by (simp add: near_def)
  have "e \<le> of_int scale / 2" using e by (simp add: scale_def)
  then have next_near: "near (turn z) (Suc n) (e + 5)" by (rule turn_near [OF Cons.prems(2)])
  show ?case
  proof (cases i)
    case 0
    then show ?thesis using Cons.prems(1) bracketed_floor [OF _ big] by simp
  next
    case (Suc j)
    then show ?thesis using Cons.IH [OF _ next_near, of j] Cons.prems by simp
  qed
qed simp

lemma T_table_bracketed: "table_bracketed (sin1, cos1) T_table"
  by code_simp

theorem rfc_T_table: "i < 64 \<Longrightarrow> rfc_T (Suc i) = of_int (T_table ! i)"
proof -
  assume i: "i < 64"
  have "near (sin1, cos1) 1 2"
  proof -
    have "of_int scale * cis (real 1) = Complex (of_int scale * cos 1) (of_int scale * sin 1)"
      by (simp add: complex_eq_iff)
    then show ?thesis using complex_near [OF cos_one_bound sin_one_bound] by (simp add: near_def point_def)
  qed
  from table_bracketed_floor [OF T_table_bracketed this, of i] i
  show ?thesis by (simp add: rfc_T_def T_table_def add.commute)
qed

end
