(* ===== verification/Md5.thy ===== *)
theory Md5
  imports Md5_Spec
begin

text \<open>
  The MD5 digest of \<^verbatim>\<open>common/libtools/MD5.cpp\<close>: the context with its incremental update, the
  block transform, the final padding and the two wrappers. On the little-endian targets of the
  build files \<^verbatim>\<open>byteReverse\<close> is empty and \<^verbatim>\<open>(uint32_t *) ctx->in\<close> reads little-endian words.

  The specification is RFC 1321 on a whole message, written out in \<open>Md5_Spec\<close> without any of the
  definitions below. The lemmas show that the transform is the standard's block operation, step
  constants and initial words included, and that a context always stands for the bytes it has been
  given, so that any way of cutting a message into updates yields the standard's digest of the whole.
\<close>

section \<open>The code\<close>

record MD5_CTX =
  ctx_buf :: "u32 list"
  bits0 :: u32
  bits1 :: u32
  ctx_in :: "u8 list"

definition F1 :: "u32 \<Rightarrow> u32 \<Rightarrow> u32 \<Rightarrow> u32" where "F1 x y z = z XOR (x AND (y XOR z))"
definition F2 :: "u32 \<Rightarrow> u32 \<Rightarrow> u32 \<Rightarrow> u32" where "F2 x y z = F1 z x y"
definition F3 :: "u32 \<Rightarrow> u32 \<Rightarrow> u32 \<Rightarrow> u32" where "F3 x y z = x XOR y XOR z"
definition F4 :: "u32 \<Rightarrow> u32 \<Rightarrow> u32 \<Rightarrow> u32" where "F4 x y z = y XOR (x OR NOT z)"

definition MD5STEP ::
  "(u32 \<Rightarrow> u32 \<Rightarrow> u32 \<Rightarrow> u32) \<Rightarrow> u32 \<Rightarrow> u32 \<Rightarrow> u32 \<Rightarrow> u32 \<Rightarrow> u32 \<Rightarrow> nat \<Rightarrow> u32" where
  "MD5STEP f w x y z data s =
    (let w = w + (f x y z + data);
         w = push_bit s w OR drop_bit (32 - s) w
     in w + x)"

definition MD5Init :: MD5_CTX where
  "MD5Init = \<lparr>ctx_buf = [0x67452301, 0xefcdab89, 0x98badcfe, 0x10325476],
     bits0 = 0, bits1 = 0, ctx_in = replicate 64 0\<rparr>"

text \<open>
  The 64 steps in order: the function, the index into the block, the constant, the shift. The
  variable that is assigned rotates through \<^verbatim>\<open>a, d, c, b\<close>; \<open>md5_step\<close> keeps it in front.
\<close>

definition md5_steps :: "((u32 \<Rightarrow> u32 \<Rightarrow> u32 \<Rightarrow> u32) \<times> nat \<times> u32 \<times> nat) list" where
  "md5_steps = [
    (F1, 0, 0xd76aa478, 7), (F1, 1, 0xe8c7b756, 12), (F1, 2, 0x242070db, 17), (F1, 3, 0xc1bdceee, 22),
    (F1, 4, 0xf57c0faf, 7), (F1, 5, 0x4787c62a, 12), (F1, 6, 0xa8304613, 17), (F1, 7, 0xfd469501, 22),
    (F1, 8, 0x698098d8, 7), (F1, 9, 0x8b44f7af, 12), (F1, 10, 0xffff5bb1, 17), (F1, 11, 0x895cd7be, 22),
    (F1, 12, 0x6b901122, 7), (F1, 13, 0xfd987193, 12), (F1, 14, 0xa679438e, 17), (F1, 15, 0x49b40821, 22),
    (F2, 1, 0xf61e2562, 5), (F2, 6, 0xc040b340, 9), (F2, 11, 0x265e5a51, 14), (F2, 0, 0xe9b6c7aa, 20),
    (F2, 5, 0xd62f105d, 5), (F2, 10, 0x02441453, 9), (F2, 15, 0xd8a1e681, 14), (F2, 4, 0xe7d3fbc8, 20),
    (F2, 9, 0x21e1cde6, 5), (F2, 14, 0xc33707d6, 9), (F2, 3, 0xf4d50d87, 14), (F2, 8, 0x455a14ed, 20),
    (F2, 13, 0xa9e3e905, 5), (F2, 2, 0xfcefa3f8, 9), (F2, 7, 0x676f02d9, 14), (F2, 12, 0x8d2a4c8a, 20),
    (F3, 5, 0xfffa3942, 4), (F3, 8, 0x8771f681, 11), (F3, 11, 0x6d9d6122, 16), (F3, 14, 0xfde5380c, 23),
    (F3, 1, 0xa4beea44, 4), (F3, 4, 0x4bdecfa9, 11), (F3, 7, 0xf6bb4b60, 16), (F3, 10, 0xbebfbc70, 23),
    (F3, 13, 0x289b7ec6, 4), (F3, 0, 0xeaa127fa, 11), (F3, 3, 0xd4ef3085, 16), (F3, 6, 0x04881d05, 23),
    (F3, 9, 0xd9d4d039, 4), (F3, 12, 0xe6db99e5, 11), (F3, 15, 0x1fa27cf8, 16), (F3, 2, 0xc4ac5665, 23),
    (F4, 0, 0xf4292244, 6), (F4, 7, 0x432aff97, 10), (F4, 14, 0xab9423a7, 15), (F4, 5, 0xfc93a039, 21),
    (F4, 12, 0x655b59c3, 6), (F4, 3, 0x8f0ccc92, 10), (F4, 10, 0xffeff47d, 15), (F4, 1, 0x85845dd1, 21),
    (F4, 8, 0x6fa87e4f, 6), (F4, 15, 0xfe2ce6e0, 10), (F4, 6, 0xa3014314, 15), (F4, 13, 0x4e0811a1, 21),
    (F4, 4, 0xf7537e82, 6), (F4, 11, 0xbd3af235, 10), (F4, 2, 0x2ad7d2bb, 15), (F4, 9, 0xeb86d391, 21)]"

fun md5_step :: "u32 list \<Rightarrow> (u32 \<Rightarrow> u32 \<Rightarrow> u32 \<Rightarrow> u32) \<times> nat \<times> u32 \<times> nat \<Rightarrow>
    u32 \<times> u32 \<times> u32 \<times> u32 \<Rightarrow> u32 \<times> u32 \<times> u32 \<times> u32" where
  "md5_step inw (f, k, t, s) (w, x, y, z) = (z, MD5STEP f w x y z (inw ! k + t) s, x, y)"

definition MD5Transform :: "u32 list \<Rightarrow> u32 list \<Rightarrow> u32 list" where
  "MD5Transform buf inw =
    (let (a, b, c, d) = fold (md5_step inw) md5_steps (buf ! 0, buf ! 1, buf ! 2, buf ! 3)
     in [buf ! 0 + a, buf ! 1 + b, buf ! 2 + c, buf ! 3 + d])"

definition le_word :: "u8 list \<Rightarrow> nat \<Rightarrow> u32" where
  "le_word b i = push_bit 24 (ucast (b ! (i + 3))) OR push_bit 16 (ucast (b ! (i + 2))) OR
     push_bit 8 (ucast (b ! (i + 1))) OR ucast (b ! i)"

definition le_bytes :: "u32 \<Rightarrow> u8 list" where
  "le_bytes w = [ucast w, ucast (drop_bit 8 w), ucast (drop_bit 16 w), ucast (drop_bit 24 w)]"

definition in_words :: "u8 list \<Rightarrow> u32 list" where
  "in_words b = map (\<lambda>i. le_word b (4 * i)) [0..<16]"

definition transform_in :: "MD5_CTX \<Rightarrow> MD5_CTX" where
  "transform_in ctx = ctx\<lparr>ctx_buf := MD5Transform (ctx_buf ctx) (in_words (ctx_in ctx))\<rparr>"

function update_blocks :: "u8 list \<Rightarrow> MD5_CTX \<Rightarrow> MD5_CTX" where
  "update_blocks buf ctx =
    (if 64 \<le> length buf
     then update_blocks (drop 64 buf) (transform_in (ctx\<lparr>ctx_in := take 64 buf\<rparr>))
     else ctx\<lparr>ctx_in := write_at 0 buf (ctx_in ctx)\<rparr>)"
  by pat_completeness auto
termination by (relation "measure (\<lambda>(buf, ctx). length buf)") auto

declare update_blocks.simps [simp del]

text \<open>The bit count of the context moved on by \<^verbatim>\<open>len\<close> bytes, with the carry into the high word.\<close>

definition count_bits :: "u32 \<Rightarrow> MD5_CTX \<Rightarrow> MD5_CTX" where
  "count_bits len ctx =
    (let t = bits0 ctx;
         ctx = ctx\<lparr>bits0 := t + push_bit 3 len\<rparr>;
         ctx = (if bits0 ctx < t then ctx\<lparr>bits1 := bits1 ctx + 1\<rparr> else ctx)
     in ctx\<lparr>bits1 := bits1 ctx + drop_bit 29 len\<rparr>)"

definition MD5Update :: "MD5_CTX \<Rightarrow> u8 list \<Rightarrow> MD5_CTX" where
  "MD5Update ctx buf =
    (let t = unat (drop_bit 3 (bits0 ctx) AND 0x3f);
         ctx = count_bits (of_nat (length buf)) ctx
     in if t \<noteq> 0 then
          let p = t; t = 64 - t
          in if length buf < t then ctx\<lparr>ctx_in := write_at p buf (ctx_in ctx)\<rparr>
             else update_blocks (drop t buf)
                    (transform_in (ctx\<lparr>ctx_in := write_at p (take t buf) (ctx_in ctx)\<rparr>))
        else update_blocks buf ctx)"

text \<open>
  The digest and the context left behind: \<^verbatim>\<open>sizeof(ctx)\<close> is the size of a pointer, eight bytes, so
  that the final \<^verbatim>\<open>memset\<close> clears \<^verbatim>\<open>buf[0]\<close> and \<^verbatim>\<open>buf[1]\<close> only.
\<close>

definition MD5Final :: "MD5_CTX \<Rightarrow> u8 list \<times> MD5_CTX" where
  "MD5Final ctx =
    (let count = unat (drop_bit 3 (bits0 ctx) AND 0x3F);
         ctx = ctx\<lparr>ctx_in := (ctx_in ctx)[count := 0x80]\<rparr>;
         p = count + 1;
         count = 64 - 1 - count;
         ctx = (if count < 8 then
                  let ctx = transform_in (ctx\<lparr>ctx_in := write_at p (replicate count 0) (ctx_in ctx)\<rparr>)
                  in ctx\<lparr>ctx_in := write_at 0 (replicate 56 0) (ctx_in ctx)\<rparr>
                else ctx\<lparr>ctx_in := write_at p (replicate (count - 8) 0) (ctx_in ctx)\<rparr>);
         ctx = ctx\<lparr>ctx_in := write_at 56 (le_bytes (bits0 ctx)) (ctx_in ctx)\<rparr>;
         ctx = ctx\<lparr>ctx_in := write_at 60 (le_bytes (bits1 ctx)) (ctx_in ctx)\<rparr>;
         ctx = transform_in ctx;
         digest = concat (map le_bytes (ctx_buf ctx))
     in (digest, ctx\<lparr>ctx_buf := (ctx_buf ctx)[0 := 0, 1 := 0]\<rparr>))"

text \<open>\<^verbatim>\<open>(unsigned int)msg_len\<close> keeps the length modulo \<open>2 ^ 32\<close>.\<close>

definition MD5_16 :: "u8 list \<Rightarrow> u8 list" where
  "MD5_16 pMsg = fst (MD5Final (MD5Update MD5Init (take (unat (of_nat (length pMsg) :: u32)) pMsg)))"

definition MD5_32 :: "u8 list \<Rightarrow> u8 list" where
  "MD5_32 msg = c_string (bin2hex (MD5_16 msg))"

definition Md5_Check :: "u8 list \<Rightarrow> u8 list \<Rightarrow> bool" where
  "Md5_Check pSrc pDst = list_all (\<lambda>i. pSrc ! i = pDst ! i) [0..<16]"

section \<open>The transform is the standard's\<close>

lemma F1_rfc: "F1 = rfc_F"
  by (intro ext bit_word_eqI) (auto simp: F1_def rfc_F_def bit_simps)

lemma F2_rfc: "F2 = rfc_G"
  by (intro ext bit_word_eqI) (auto simp: F2_def F1_def rfc_G_def bit_simps)

lemma F3_rfc: "F3 = rfc_H" and F4_rfc: "F4 = rfc_I"
  by (simp_all add: fun_eq_iff F3_def F4_def rfc_H_def rfc_I_def)

lemma rotate_shifts: "0 < s \<Longrightarrow> s < 32 \<Longrightarrow> push_bit s w OR drop_bit (32 - s) w = word_rotl s w" for w :: u32
proof (rule bit_word_eqI)
  fix n assume s: "0 < s" "s < 32" and n: "n < LENGTH(32)"
  have "bit (word_rotl s w) n = bit w ((n + (32 - s)) mod 32)"
    using s n by (simp add: bit_word_rotl_iff)
  also have "\<dots> = bit (push_bit s w OR drop_bit (32 - s) w) n"
  proof (cases "s \<le> n")
    case True
    then have "(n + (32 - s)) mod 32 = n - s" using s n by (simp add: le_mod_geq)
    moreover have "\<not> bit w (32 - s + n)" using True s bit_imp_le_length [of w "32 - s + n"] by auto
    ultimately show ?thesis using True n by (simp add: bit_simps)
  next
    case False
    then have "(n + (32 - s)) mod 32 = 32 - s + n" using s n by simp
    then show ?thesis using False n by (simp add: bit_simps add.commute)
  qed
  finally show "bit (push_bit s w OR drop_bit (32 - s) w) n = bit (word_rotl s w) n" by simp
qed

text \<open>Words and bytes: the code's shifts are the standard's low-order byte first.\<close>

lemma rfc_word_le: "rfc_word b = le_word b 0"
proof -
  have p: "of_nat (unat x * 2 ^ k) = (push_bit k (ucast x) :: u32)" for x :: u8 and k
    by (simp add: push_bit_eq_mult)
  have "rfc_word b = push_bit 24 (ucast (b ! 3)) + (push_bit 16 (ucast (b ! 2)) +
      (push_bit 8 (ucast (b ! 1)) + push_bit 0 (ucast (b ! 0))))"
    unfolding p [symmetric] of_nat_add [symmetric] rfc_word_def
    by (simp add: lessThan_nat_numeral lessThan_Suc ac_simps)
  also have "\<dots> = push_bit 24 (ucast (b ! 3)) OR (push_bit 16 (ucast (b ! 2)) OR
      (push_bit 8 (ucast (b ! 1)) OR push_bit 0 (ucast (b ! 0))))"
    by (subst disjunctive_add, use bit_imp_le_length [where 'a = 8] in \<open>fastforce simp: bit_simps\<close>)+ (rule refl)
  finally show ?thesis by (simp only: le_word_def or.assoc push_bit_0_id id_apply add_0)
qed

lemma rfc_word_drop: "length X = 64 \<Longrightarrow> k < 16 \<Longrightarrow> rfc_word (drop (4 * k) X) = in_words X ! k"
  by (simp only: rfc_word_le in_words_def le_word_def nth_drop nth_map_upt diff_zero add_0 add_0_right)

lemma ucast_byte: "of_nat (unat w div 2 ^ k) = (ucast (drop_bit k w) :: u8)" for w :: u32
proof -
  have "unat (drop_bit k w) = unat w div 2 ^ k" by (simp only: unat_drop_bit_eq) (simp only: drop_bit_eq_div)
  then show ?thesis by (metis of_nat_unat)
qed

lemma rfc_bytes_le: "rfc_bytes = le_bytes"
proof
  fix w
  show "rfc_bytes w = le_bytes w"
    using ucast_byte [of w 0] ucast_byte [of w 8] ucast_byte [of w 16] ucast_byte [of w 24]
    by (simp add: rfc_bytes_def le_bytes_def upt_rec)
qed

lemma byte_of_low: "k \<le> 24 \<Longrightarrow> ucast (drop_bit k (of_nat n :: u32)) = (of_nat (n div 2 ^ k) :: u8)"
  by (rule bit_word_eqI) (auto simp: bit_simps drop_bit_eq_div [symmetric])

lemma rfc_pad_code:
  "rfc_pad m = m @ [0x80] @ replicate ((119 - length m mod 64) mod 64) 0 @
     le_bytes (of_nat (8 * length m)) @ le_bytes (of_nat (8 * length m div 2 ^ 32))"
proof -
  have "map (\<lambda>j. of_nat (n div 256 ^ j)) [0..<8] = le_bytes (of_nat n) @ le_bytes (of_nat (n div 2 ^ 32))" for n
  proof -
    have "[0..<8] = [0, 1, 2, 3, 4, 5, 6, 7 :: nat]" by (simp add: upt_rec)
    moreover have "n div 256 ^ 5 = n div 2 ^ 32 div 2 ^ 8" "n div 256 ^ 6 = n div 2 ^ 32 div 2 ^ 16"
      "n div 256 ^ 7 = n div 2 ^ 32 div 2 ^ 24" by (simp_all flip: div_mult2_eq)
    ultimately show ?thesis
      using byte_of_low [of 0 n] byte_of_low [of 8 n] byte_of_low [of 16 n] byte_of_low [of 24 n]
        byte_of_low [of 0 "n div 2 ^ 32"] byte_of_low [of 8 "n div 2 ^ 32"] byte_of_low [of 16 "n div 2 ^ 32"]
        byte_of_low [of 24 "n div 2 ^ 32"]
      by (simp add: le_bytes_def)
  qed
  then show ?thesis by (simp only: rfc_pad_def)
qed

lemma init_rfc: "ctx_buf MD5Init = rfc_init"
  by (simp add: MD5Init_def rfc_init_def rfc_word_def lessThan_nat_numeral)

text \<open>The 64 steps of the code are the 64 operations: functions, words, constants and shifts.\<close>

lemma md5_steps_functions: "map fst md5_steps = map rfc_function [0..<64]"
  by (simp add: md5_steps_def rfc_function_def F1_rfc F2_rfc F3_rfc F4_rfc upt_rec)

lemma md5_steps_numbers:
  "map snd md5_steps = map (\<lambda>i. (rfc_index i, of_int (T_table ! i), rfc_shift i)) [0..<64]"
  by code_simp

lemma md5_steps_rfc:
  "md5_steps = map (\<lambda>i. (rfc_function i, rfc_index i, rfc_T (Suc i), rfc_shift i)) [0..<64]"
proof -
  have "md5_steps = zip (map fst md5_steps) (map snd md5_steps)" by (simp add: zip_map_fst_snd)
  also have "\<dots> = map (\<lambda>i. (rfc_function i, rfc_index i, of_int (T_table ! i), rfc_shift i)) [0..<64]"
    unfolding md5_steps_functions md5_steps_numbers by (simp add: zip_map_map zip_same_conv_map)
  also have "\<dots> = map (\<lambda>i. (rfc_function i, rfc_index i, rfc_T (Suc i), rfc_shift i)) [0..<64]"
    by (rule map_cong) (simp_all add: rfc_T_table)
  finally show ?thesis .
qed

lemma rfc_shift_range: "i < 64 \<Longrightarrow> 0 < rfc_shift i \<and> rfc_shift i < 32"
proof -
  have "list_all (\<lambda>i. 0 < rfc_shift i \<and> rfc_shift i < 32) [0..<64]" by code_simp
  then show "i < 64 \<Longrightarrow> 0 < rfc_shift i \<and> rfc_shift i < 32" by (simp add: list_all_iff)
qed

lemma md5_step_rfc:
  assumes "length X = 64" "i < 64"
  shows "md5_step (in_words X) (rfc_function i, rfc_index i, rfc_T (Suc i), rfc_shift i) = rfc_operation X i"
proof -
  have "rfc_index i < 16" by (simp add: rfc_index_def)
  then have w: "rfc_word (drop (4 * rfc_index i) X) = in_words X ! rfc_index i" by (rule rfc_word_drop [OF assms(1)])
  show ?thesis using rfc_shift_range [OF assms(2)]
    unfolding rfc_operation_def w by (auto simp: fun_eq_iff MD5STEP_def Let_def rotate_shifts ac_simps)
qed

theorem rfc_block_MD5Transform:
  assumes "length X = 64"
  shows "rfc_block X st = MD5Transform st (in_words X)"
proof -
  have "fold (md5_step (in_words X)) md5_steps z = fold (rfc_operation X) [0..<64] z" for z
    unfolding md5_steps_rfc fold_map comp_def
    by (rule fold_cong) (simp_all only: md5_step_rfc [OF assms] set_upt atLeastLessThan_iff)
  then show ?thesis by (simp only: rfc_block_def MD5Transform_def)
qed

text \<open>A context stands for the message it has been given.\<close>

definition md5_of :: "u8 list \<Rightarrow> MD5_CTX \<Rightarrow> bool" where
  "md5_of m ctx \<longleftrightarrow>
     ctx_buf ctx = rfc_blocks (ctx_buf MD5Init) m \<and> length (ctx_in ctx) = 64 \<and>
     take (length m mod 64) (ctx_in ctx) = drop (64 * (length m div 64)) m \<and>
     bits0 ctx = of_nat (8 * length m) \<and> bits1 ctx = of_nat (8 * length m div 2 ^ 32)"

section \<open>Lemmas\<close>

lemma md5_spec_code: "md5_spec m = concat (map le_bytes (rfc_blocks (ctx_buf MD5Init) (rfc_pad m)))"
  by (simp add: md5_spec_def rfc_bytes_le init_rfc)

lemma rfc_blocks_short: "length m < 64 \<Longrightarrow> rfc_blocks st m = st"
  by (subst rfc_blocks.simps) simp

lemma rfc_blocks_long:
  "64 \<le> length m \<Longrightarrow> rfc_blocks st m = rfc_blocks (MD5Transform st (in_words (take 64 m))) (drop 64 m)"
  by (subst rfc_blocks.simps) (simp add: rfc_block_MD5Transform)

lemma rfc_blocks_append:
  "rfc_blocks st (a @ b) = rfc_blocks (rfc_blocks st a) (drop (64 * (length a div 64)) a @ b)"
proof (induction st a rule: rfc_blocks.induct)
  case (1 st a)
  show ?case
  proof (cases "64 \<le> length a")
    case True
    have "64 * (length a div 64) = 64 + 64 * ((length a - 64) div 64)"
      using True by (simp add: le_div_geq)
    then have "drop (64 * (length a div 64)) a = drop (64 * (length (drop 64 a) div 64)) (drop 64 a)"
      by (simp add: add.commute)
    with 1 [OF True] True show ?thesis
      by (simp add: rfc_blocks_long [of "a @ b"] rfc_blocks_long [of a] rfc_block_MD5Transform)
  next
    case False
    then show ?thesis by (simp add: rfc_blocks_short)
  qed
qed

lemma length_transform_in [simp]: "ctx_in (transform_in ctx) = ctx_in ctx"
  by (simp add: transform_in_def)

lemma transform_in_simps [simp]:
  "bits0 (transform_in ctx) = bits0 ctx" "bits1 (transform_in ctx) = bits1 ctx"
  "ctx_buf (transform_in ctx) = MD5Transform (ctx_buf ctx) (in_words (ctx_in ctx))"
  by (simp_all add: transform_in_def)

lemma update_blocks_ok:
  "length (ctx_in ctx) = 64 \<Longrightarrow>
   ctx_buf (update_blocks b ctx) = rfc_blocks (ctx_buf ctx) b \<and>
   length (ctx_in (update_blocks b ctx)) = 64 \<and>
   take (length b mod 64) (ctx_in (update_blocks b ctx)) = drop (64 * (length b div 64)) b \<and>
   bits0 (update_blocks b ctx) = bits0 ctx \<and> bits1 (update_blocks b ctx) = bits1 ctx"
proof (induction b ctx rule: update_blocks.induct)
  case (1 b ctx)
  show ?case
  proof (cases "64 \<le> length b")
    case True
    have d: "64 * (length b div 64) = 64 + 64 * ((length b - 64) div 64)"
      "length b mod 64 = (length b - 64) mod 64"
      using True by (simp_all add: le_div_geq le_mod_geq)
    have "drop (64 * (length b div 64)) b = drop (64 * (length (drop 64 b) div 64)) (drop 64 b)"
      using d(1) by (simp add: add.commute)
    with 1(1) [OF True] True d(2) show ?thesis
      by (subst (1 2 3 4 5) update_blocks.simps, subst rfc_blocks_long) simp_all
  next
    case False
    then show ?thesis using 1(2) length_write_at [of 0 b "ctx_in ctx"]
      by (subst (1 2 3 4 5) update_blocks.simps) (simp add: rfc_blocks_short write_at_def)
  qed
qed

lemma carry_iff: "t + x < t \<longleftrightarrow> 2 ^ 32 \<le> unat t + unat x" for t x :: u32
  using unsigned_less [of x, where ?'a = nat] unsigned_less [of t, where ?'a = nat]
  by (auto simp: word_less_nat_alt unat_plus_if_size word_size)

lemma bit_count_low: "t = of_nat (8 * m) \<Longrightarrow> l = of_nat len \<Longrightarrow> t + push_bit 3 l = (of_nat (8 * (m + len)) :: u32)"
  by (simp add: push_bit_eq_mult)

lemma bit_count_high:
  fixes t l :: u32
  assumes "len < 2 ^ 32" "t = of_nat (8 * m)" "l = of_nat len"
  shows "(if t + push_bit 3 l < t then of_nat (8 * m div 2 ^ 32) + 1 else of_nat (8 * m div 2 ^ 32)) + drop_bit 29 l
      = (of_nat (8 * (m + len) div 2 ^ 32) :: u32)"
proof -
  have l: "unat l = len" using assms by (simp add: unat_of_nat)
  have t: "unat t = 8 * m mod 2 ^ 32" using assms by (simp only: unat_of_nat) simp
  have "unat (drop_bit 29 l) = len div 2 ^ 29"
    by (subst unat_drop_bit_eq) (simp add: drop_bit_eq_div l)
  also have "len div 2 ^ 29 = 8 * len div 2 ^ 32" by simp
  finally have "of_nat (unat (drop_bit 29 l)) = (of_nat (8 * len div 2 ^ 32) :: u32)"
    by (rule arg_cong)
  then have d: "drop_bit 29 l = of_nat (8 * len div 2 ^ 32)" by simp
  have x: "unat (push_bit 3 l) = 8 * len mod 2 ^ 32"
    by (simp add: push_bit_eq_mult unat_word_ariths l mult.commute)
  have "8 * (m + len) div 2 ^ 32 = 8 * m div 2 ^ 32 + 8 * len div 2 ^ 32 +
      (8 * m mod 2 ^ 32 + 8 * len mod 2 ^ 32) div 2 ^ 32"
    unfolding add_mult_distrib2 by (rule div_add1_eq)
  moreover have "(8 * m mod 2 ^ 32 + 8 * len mod 2 ^ 32) div 2 ^ 32 =
      (if 2 ^ 32 \<le> 8 * m mod 2 ^ 32 + 8 * len mod 2 ^ 32 then 1 else 0)"
    by auto
  ultimately show ?thesis
    by (simp only: carry_iff t x d of_nat_add) (simp add: ac_simps)
qed

lemma bit_count_index: "t = of_nat (8 * m) \<Longrightarrow> unat (drop_bit 3 t AND 0x3f :: u32) = m mod 64"
proof -
  assume t: "t = of_nat (8 * m)"
  have "unat t = 8 * m mod (8 * 2 ^ 29)" unfolding t by (simp only: unat_of_nat) simp
  also have "\<dots> = 8 * (m mod 2 ^ 29)" by (rule mod_mult_mult1)
  finally have "unat (drop_bit 3 t) = m mod 2 ^ 29"
    by (subst unat_drop_bit_eq) (simp add: drop_bit_eq_div)
  moreover have "(0x3f :: u32) = mask 6" by (simp add: mask_eq_exp_minus_1)
  moreover have "unat (take_bit 6 x) = unat x mod 64" for x :: u32
    by (subst unsigned_take_bit_eq) (simp add: take_bit_eq_mod)
  ultimately have "unat (drop_bit 3 t AND 0x3f) = m mod 2 ^ 29 mod 64"
    by (simp only: take_bit_eq_mask [symmetric])
  also have "\<dots> = m mod 64" by (simp add: mod_mod_cancel)
  finally show ?thesis .
qed

lemma count_bits_ok:
  assumes "md5_of m ctx" "len < 2 ^ 32"
  shows "count_bits (of_nat len) ctx =
    ctx\<lparr>bits0 := of_nat (8 * (length m + len)), bits1 := of_nat (8 * (length m + len) div 2 ^ 32)\<rparr>"
proof -
  have b: "bits0 ctx = of_nat (8 * length m)" "bits1 ctx = of_nat (8 * length m div 2 ^ 32)"
    using assms(1) by (simp_all add: md5_of_def)
  show ?thesis
    using bit_count_low [OF b(1) refl, of len] bit_count_high [OF assms(2) b(1) refl] b(2)
    unfolding count_bits_def Let_def by (cases ctx) (simp split: if_splits)
qed

lemma MD5Update_ok:
  assumes m: "md5_of m ctx" and len: "length b < 2 ^ 32"
  shows "md5_of (m @ b) (MD5Update ctx b)"
proof -
  define tail where "tail = drop (64 * (length m div 64)) m"
  define c where "c = count_bits (of_nat (length b)) ctx"
  note m' = m [unfolded md5_of_def]
  have t: "length tail = length m mod 64" by (simp add: tail_def minus_mult_div_eq_mod)
  have idx: "unat (drop_bit 3 (bits0 ctx) AND 0x3f) = length tail"
    using m' by (simp only: t bit_count_index)
  have c: "ctx_buf c = ctx_buf ctx" "ctx_in c = ctx_in ctx" "bits0 c = of_nat (8 * length (m @ b))"
    "bits1 c = of_nat (8 * length (m @ b) div 2 ^ 32)"
    unfolding c_def count_bits_ok [OF m len] by simp_all
  have in_tail: "length (ctx_in ctx) = 64" "take (length tail) (ctx_in ctx) = tail"
    using m' t by (auto simp: tail_def)
  have blocks: "rfc_blocks (ctx_buf MD5Init) (m @ b) = rfc_blocks (ctx_buf ctx) (tail @ b)"
    using m' rfc_blocks_append [of "ctx_buf MD5Init" m b] by (simp add: tail_def)
  have rest: "length (m @ b) mod 64 = length (tail @ b) mod 64"
    "drop (64 * (length (m @ b) div 64)) (m @ b) = drop (64 * (length (tail @ b) div 64)) (tail @ b)"
  proof -
    define q where "q = length m div 64"
    define p where "p = take (64 * q) m"
    have "64 * q \<le> length m" by (simp add: q_def)
    then have p: "length p = 64 * q" "m @ b = p @ (tail @ b)"
      by (simp_all add: p_def q_def [symmetric] tail_def flip: append_assoc)
    have l: "length (m @ b) = length (tail @ b) + 64 * q" by (simp only: p(2) length_append [of p] p(1) add.commute)
    show "length (m @ b) mod 64 = length (tail @ b) mod 64"
      unfolding l by (rule mod_mult_self2)
    have "64 * (length (m @ b) div 64) = length p + 64 * (length (tail @ b) div 64)"
      unfolding l p(1) by (subst div_mult_self2) simp_all
    then show "drop (64 * (length (m @ b) div 64)) (m @ b) = drop (64 * (length (tail @ b) div 64)) (tail @ b)"
      by (simp only: p(2)) simp
  qed
  have upd: "MD5Update ctx b =
     (if length tail \<noteq> 0
      then if length b < 64 - length tail
           then c\<lparr>ctx_in := write_at (length tail) b (ctx_in ctx)\<rparr>
           else update_blocks (drop (64 - length tail) b)
                  (transform_in (c\<lparr>ctx_in := write_at (length tail) (take (64 - length tail) b) (ctx_in ctx)\<rparr>))
      else update_blocks b c)"
    by (simp only: MD5Update_def Let_def idx c_def [symmetric] c)
  consider "length tail = 0" | "length tail \<noteq> 0" "length b < 64 - length tail"
    | "length tail \<noteq> 0" "64 - length tail \<le> length b" by linarith
  then show ?thesis
  proof cases
    case 1
    then show ?thesis
      using update_blocks_ok [of c b] blocks in_tail rest c unfolding md5_of_def upd by simp
  next
    case 2
    then have short: "length (tail @ b) < 64" by simp
    have "take (length tail + length b) (write_at (length tail) b (ctx_in ctx)) = tail @ b"
      using 2 in_tail by (simp add: take_write_at)
    with 2 show ?thesis
      using blocks in_tail rest c short unfolding md5_of_def upd
      by (simp add: rfc_blocks_short length_write_at)
  next
    case 3
    let ?k = "64 - length tail"
    let ?c = "transform_in (c\<lparr>ctx_in := write_at (length tail) (take ?k b) (ctx_in ctx)\<rparr>)"
    have lt: "length tail < 64" using t by simp
    have full: "write_at (length tail) (take ?k b) (ctx_in ctx) = tail @ take ?k b"
      using 3 in_tail lt by (simp add: write_at_def min_def)
    have u: "ctx_buf (update_blocks (drop ?k b) ?c) = rfc_blocks (ctx_buf ?c) (drop ?k b)"
      "length (ctx_in (update_blocks (drop ?k b) ?c)) = 64"
      "take (length (drop ?k b) mod 64) (ctx_in (update_blocks (drop ?k b) ?c)) =
        drop (64 * (length (drop ?k b) div 64)) (drop ?k b)"
      "bits0 (update_blocks (drop ?k b) ?c) = bits0 c" "bits1 (update_blocks (drop ?k b) ?c) = bits1 c"
      using update_blocks_ok [of ?c "drop ?k b"] 3 lt by (simp_all add: full)
    have b1: "rfc_blocks (ctx_buf ctx) (tail @ b) = rfc_blocks (ctx_buf ?c) (drop ?k b)"
      using 3 lt by (subst rfc_blocks_long) (simp_all add: full c)
    have b2: "length (tail @ b) mod 64 = length (drop ?k b) mod 64"
      "64 * (length (tail @ b) div 64) = 64 + 64 * (length (drop ?k b) div 64)"
      using 3 lt by (simp_all add: le_mod_geq le_div_geq add.commute)
    have b3: "drop (64 + n) (tail @ b) = drop n (drop ?k b)" for n
      using 3 lt by (simp add: add.commute)
    have "MD5Update ctx b = update_blocks (drop ?k b) ?c"
      unfolding upd using 3 by simp
    then show ?thesis
      unfolding md5_of_def by (simp only: u blocks rest c b1 b2 b3)
  qed
qed

lemma rfc_blocks_one: "length blk = 64 \<Longrightarrow> rfc_blocks st blk = MD5Transform st (in_words blk)"
  by (subst rfc_blocks_long) (simp_all add: rfc_blocks_short)

lemma rfc_blocks_two:
  "length a = 64 \<Longrightarrow> length b = 64 \<Longrightarrow>
   rfc_blocks st (a @ b) = MD5Transform (MD5Transform st (in_words a)) (in_words b)"
  by (subst rfc_blocks_long) (simp_all add: rfc_blocks_one)

lemma length_le_bytes [simp]: "length (le_bytes w) = 4"
  by (simp add: le_bytes_def)

lemma write_at_end: "i + length b = length d \<Longrightarrow> write_at i b d = take i d @ b"
  by (simp add: write_at_def)

lemma MD5Final_ok:
  assumes m: "md5_of m ctx"
  shows "fst (MD5Final ctx) = md5_spec m"
proof -
  define r where "r = length m mod 64"
  define tail where "tail = drop (64 * (length m div 64)) m"
  note m' = m [unfolded md5_of_def]
  have r: "r < 64" "length tail = r" by (simp_all add: r_def tail_def minus_mult_div_eq_mod)
  have idx: "unat (drop_bit 3 (bits0 ctx) AND 0x3f) = r"
    using m' by (simp only: r_def bit_count_index)
  have len: "length (ctx_in ctx) = 64" and in_tail: "take r (ctx_in ctx) = tail"
    using m' by (simp_all add: r_def tail_def)
  define L where "L = le_bytes (bits0 ctx) @ le_bytes (bits1 ctx)"
  have L: "length L = 8" by (simp add: L_def)
  have pad: "rfc_blocks (ctx_buf MD5Init) (rfc_pad m) =
      rfc_blocks (ctx_buf ctx) (tail @ [0x80] @ replicate ((119 - r) mod 64) 0 @ L)"
    using m' rfc_blocks_append [of "ctx_buf MD5Init" m "[0x80] @ replicate ((119 - r) mod 64) 0 @ L"]
    by (simp add: rfc_pad_code L_def tail_def r_def)
  have set80: "take (r + 1) ((ctx_in ctx)[r := 0x80]) = tail @ [0x80]"
    using r len in_tail by (simp add: take_Suc_conv_app_nth)
  have tail_bits: "write_at 60 (le_bytes (bits1 ctx)) (write_at 56 (le_bytes (bits0 ctx)) d) = take 56 d @ L"
    if "length d = 64" for d
    using that by (simp add: write_at_def L_def min_def)
  show ?thesis
  proof (cases "63 - r < 8")
    case True
    let ?b1 = "tail @ [0x80] @ replicate (63 - r) 0"
    let ?b2 = "replicate 56 0 @ L"
    have w: "write_at (r + 1) (replicate (63 - r) 0) ((ctx_in ctx)[r := 0x80]) = ?b1"
      using r len set80 by (subst write_at_end) auto
    have e: "(119 - r) mod 64 = (63 - r) + 56" using True r by simp
    have p: "tail @ [0x80] @ replicate ((119 - r) mod 64) 0 @ L = ?b1 @ ?b2"
      by (simp only: e replicate_add append_assoc)
    have "md5_spec m = concat (map le_bytes (MD5Transform (MD5Transform (ctx_buf ctx) (in_words ?b1)) (in_words ?b2)))"
      using r L unfolding md5_spec_code pad p by (subst rfc_blocks_two) simp_all
    moreover have "take 56 (write_at 0 (replicate 56 0) ?b1) = replicate 56 0"
      using r by (simp add: write_at_def)
    ultimately show ?thesis
      using True r tail_bits [of "write_at 0 (replicate 56 0) ?b1"]
      by (simp add: MD5Final_def Let_def idx w [simplified] length_write_at)
  next
    case False
    let ?b = "tail @ [0x80] @ replicate (55 - r) 0 @ L"
    have "(119 - r) mod 64 = 55 - r" using False r by (simp add: mod_if)
    then have "md5_spec m = concat (map le_bytes (MD5Transform (ctx_buf ctx) (in_words ?b)))"
      using r L False unfolding md5_spec_code pad by (subst rfc_blocks_one) simp_all
    moreover have "take 56 (write_at (r + 1) (replicate (55 - r) 0) ((ctx_in ctx)[r := 0x80])) =
        tail @ [0x80] @ replicate (55 - r) 0"
      using False r len set80 take_write_at [of "r + 1" "replicate (55 - r) 0" "(ctx_in ctx)[r := 0x80]"] by simp
    ultimately show ?thesis
      using False r len tail_bits [of "write_at (r + 1) (replicate (55 - r) 0) ((ctx_in ctx)[r := 0x80])"]
      by (simp add: MD5Final_def Let_def idx length_write_at)
  qed
qed

lemma md5_of_init: "md5_of [] MD5Init"
  by (simp add: md5_of_def MD5Init_def rfc_blocks_short)

section \<open>Properties\<close>

lemma MD5_updates_ok:
  "md5_of m ctx \<Longrightarrow> \<forall>b\<in>set bs. length b < 2 ^ 32 \<Longrightarrow>
   md5_of (m @ concat bs) (fold (\<lambda>b ctx. MD5Update ctx b) bs ctx)"
proof (induction bs arbitrary: m ctx)
  case (Cons b bs)
  then show ?case using Cons.IH [OF MD5Update_ok [of m ctx b]] by simp
qed simp

text \<open>
  C35. The incremental digest is the digest of RFC 1321: however a message is cut into updates of
  less than 4 GiB each, \<^verbatim>\<open>MD5Final\<close> returns the digest of the concatenation as the standard defines
  it: padding and length in 64 bits, initial registers, and the 64 operations of each block with
  their functions, words, rotations and sine constants.
\<close>

theorem md5_streaming:
  assumes "\<forall>b\<in>set bs. length b < 2 ^ 32"
  shows "fst (MD5Final (fold (\<lambda>b ctx. MD5Update ctx b) bs MD5Init)) = md5_spec (concat bs)"
  using MD5Final_ok [OF MD5_updates_ok [OF md5_of_init assms]] by simp

lemma md5_streaming_witness:
  "fst (MD5Final (MD5Update (MD5Update MD5Init (replicate 60 1)) (replicate 70 2))) =
   md5_spec (replicate 60 1 @ replicate 70 2)"
  using md5_streaming [of "[replicate 60 1, replicate 70 2]"] by simp

text \<open>
  \<^verbatim>\<open>MD5_32\<close> prints that digest as 32 lower-case hexadecimal digits for messages below 4 GiB, and
  two messages get the same text only if they have the same digest; for a longer message the
  cast of the length drops all but its length modulo \<open>2 ^ 32\<close> from the digest.
\<close>

lemma take_mod_u32: "take (unat (of_nat n :: u32)) xs = take (n mod 2 ^ 32) xs"
  by (simp add: unat_of_nat)

lemma MD5_32_spec: "MD5_32 m = bin2hex (md5_spec (take (length m mod 2 ^ 32) m))"
proof -
  let ?m = "take (length m mod 2 ^ 32) m"
  have "length ?m < 2 ^ 32" by (simp add: min.strict_coboundedI2)
  then have "MD5_16 m = md5_spec ?m"
    using MD5Final_ok [OF MD5Update_ok [OF md5_of_init, of ?m]] by (simp only: MD5_16_def take_mod_u32 append_Nil)
  moreover have "c_string (bin2hex d) = bin2hex d" for d
    using set_bin2hex [of d] hex_digits_nonzero by (auto simp: c_string_def takeWhile_eq_all_conv)
  ultimately show ?thesis by (simp add: MD5_32_def)
qed

theorem md5_32_text:
  "length (MD5_32 m) = 32 \<and> set (MD5_32 m) \<subseteq> set hex_digits \<and>
   MD5_32 m = bin2hex (md5_spec (take (length m mod 2 ^ 32) m)) \<and>
   (MD5_32 m = MD5_32 m') = (md5_spec (take (length m mod 2 ^ 32) m) = md5_spec (take (length m' mod 2 ^ 32) m'))"
  by (simp only: MD5_32_spec length_bin2hex length_digest set_bin2hex bin2hex_inj) simp

text \<open>The test vector of RFC 1321 for \<open>abc\<close>.\<close>

lemma md5_abc: "MD5_32 (chars ''abc'') = chars ''900150983cd24fb0d6963f7d28e17f72''"
  by code_simp

text \<open>
  The context that \<^verbatim>\<open>MD5Final\<close> should wipe keeps the bit count, the two last words of the
  digest and the end of the message: only the first two words are cleared.
\<close>

theorem md5_final_keeps_context:
  "bits0 (snd (MD5Final ctx)) = bits0 ctx \<and> bits1 (snd (MD5Final ctx)) = bits1 ctx \<and>
   concat (map le_bytes (drop 2 (ctx_buf (snd (MD5Final ctx))))) = drop 8 (fst (MD5Final ctx))"
proof -
  have two: "concat (map le_bytes (drop 2 ws)) = drop 8 (concat (map le_bytes ws))"
    if "\<exists>a b c d. ws = [a, b, c, d]" for ws
    using that by (auto simp: le_bytes_def)
  have "\<exists>a b c d. MD5Transform x y = [a, b, c, d]" for x y
    by (auto simp: MD5Transform_def Let_def split: prod.split)
  then show ?thesis by (auto simp: MD5Final_def Let_def intro!: two)
qed

end
