(* ===== verification/Aes_Bt.thy ===== *)
theory Aes_Bt
  imports Aes_Cipher Base64 Md5
begin

text \<open>
  \<^verbatim>\<open>common/libtools/AesBt.cpp\<close>: AES-128 in ECB mode over strings, the key taken from the
  MD5 text of a seed and the result carried as Base64. \<open>junk\<close>, \<open>fresh\<close> and \<open>pos\<close> stand for
  what the program does not determine: the contents of an uninitialised schedule, of newly
  allocated memory, and the position of a character outside the Base64 alphabet.
\<close>

section \<open>The code\<close>

definition fixed_seed :: "u8 list" where
  "fixed_seed = chars ''safsdfsdfkjl-s-123lkfls''"

definition get_key_seed :: "u8 list \<Rightarrow> u8 list" where
  "get_key_seed seed = take 16 (MD5_32 seed)"

definition get_key :: "u8 list" where
  "get_key = take 16 (MD5_32 fixed_seed)"

definition uninit_key :: "(nat \<Rightarrow> u32) \<Rightarrow> AES_KEY" where
  "uninit_key junk = \<lparr>rd_key = map junk [0..<60], rounds = 0\<rparr>"

text \<open>
  The loop over whole blocks that both directions share: what it writes from \<^verbatim>\<open>out\<close> on, and the
  input left when it ends.
\<close>

function each_block :: "(u8 list \<Rightarrow> u8 list option) \<Rightarrow> u8 list \<Rightarrow> (u8 list \<times> u8 list) option" where
  "each_block f inp =
    (if AES_BLOCK_SIZE \<le> length inp then do {
       b \<leftarrow> f (take AES_BLOCK_SIZE inp);
       (out, rest) \<leftarrow> each_block f (drop AES_BLOCK_SIZE inp);
       Some (b @ out, rest) }
     else Some ([], inp))"
  by pat_completeness auto
termination
  by (relation "measure (\<lambda>(f, inp). length inp)") (auto simp: AES_BLOCK_SIZE_def)

declare each_block.simps [simp del]

definition AES_ecb128_encrypt_buf :: "(nat \<Rightarrow> u32) \<Rightarrow> u8 list \<Rightarrow> u8 list \<Rightarrow> u8 list option" where
  "AES_ecb128_encrypt_buf junk inp key =
    (case AES_set_encrypt_key (Some key) 128 (Some (uninit_key junk)) of
      (_, None) \<Rightarrow> None
    | (_, Some aes_key) \<Rightarrow> do {
        (out, left) \<leftarrow> each_block (\<lambda>b. AES_encrypt b aes_key) inp;
        if left = [] then Some out
        else do {
          b \<leftarrow> AES_encrypt (write_at 0 left (replicate AES_BLOCK_SIZE 0)) aes_key;
          Some (out @ b) } })"

definition AES_ecb128_decrypt_buf :: "(nat \<Rightarrow> u32) \<Rightarrow> u8 list \<Rightarrow> u8 list \<Rightarrow> u8 list option" where
  "AES_ecb128_decrypt_buf junk inp key =
    (case AES_set_decrypt_key (Some key) 128 (Some (uninit_key junk)) of
      (_, None) \<Rightarrow> None
    | (_, Some aes_key) \<Rightarrow> do {
        (out, left) \<leftarrow> each_block (\<lambda>b. AES_decrypt b aes_key) inp;
        Some out })"

definition cipher_length :: "nat \<Rightarrow> nat" where
  "cipher_length n =
    (n div AES_BLOCK_SIZE + (if n mod AES_BLOCK_SIZE \<noteq> 0 then 1 else 0)) * AES_BLOCK_SIZE"

text \<open>The string overloads: the buffer holds \<open>cipher_length\<close> bytes, written from the start.\<close>

definition encrypt_with :: "(nat \<Rightarrow> u32) \<Rightarrow> (nat \<Rightarrow> u8 list) \<Rightarrow> u8 list \<Rightarrow> u8 list \<Rightarrow> u8 list option" where
  "encrypt_with junk fresh inp key = do {
     out \<leftarrow> AES_ecb128_encrypt_buf junk inp key;
     let buffer = write_at 0 out (fresh (cipher_length (length inp)));
     Some (Base64Encode buffer) }"

text \<open>
  The Base64 routine takes the text as a C string; a null result with length 0 is a block-free
  input. \<^verbatim>\<open>bin_out\<close> has one more byte than the decoded text and ends in a zero.
\<close>

definition decrypt_with ::
  "(nat \<Rightarrow> u32) \<Rightarrow> (nat \<Rightarrow> u8 list) \<Rightarrow> u8 \<Rightarrow> u8 list \<Rightarrow> u8 list \<Rightarrow> u8 list option" where
  "decrypt_with junk fresh pos inp key =
    (let (bin_in, len) = Base64Decode pos fresh (c_string inp) 0;
         bin_out = fresh (len + 1)
     in do {
       out \<leftarrow> AES_ecb128_decrypt_buf junk (case bin_in of None \<Rightarrow> [] | Some b \<Rightarrow> take len b) key;
       let bin_out = (write_at 0 out bin_out)[len := 0];
       Some (c_string bin_out) })"

definition AES_ecb128_encrypt :: "(nat \<Rightarrow> u32) \<Rightarrow> (nat \<Rightarrow> u8 list) \<Rightarrow> u8 list \<Rightarrow> u8 list option" where
  "AES_ecb128_encrypt junk fresh inp = encrypt_with junk fresh inp get_key"

definition AES_ecb128_decrypt :: "(nat \<Rightarrow> u32) \<Rightarrow> (nat \<Rightarrow> u8 list) \<Rightarrow> u8 \<Rightarrow> u8 list \<Rightarrow> u8 list option" where
  "AES_ecb128_decrypt junk fresh pos inp = decrypt_with junk fresh pos inp get_key"

definition AES_ecb128_encrypt_seed ::
  "(nat \<Rightarrow> u32) \<Rightarrow> (nat \<Rightarrow> u8 list) \<Rightarrow> u8 list \<Rightarrow> u8 list \<Rightarrow> u8 list option" where
  "AES_ecb128_encrypt_seed junk fresh inp key_seed = encrypt_with junk fresh inp (get_key_seed key_seed)"

definition AES_ecb128_decrypt_seed ::
  "(nat \<Rightarrow> u32) \<Rightarrow> (nat \<Rightarrow> u8 list) \<Rightarrow> u8 \<Rightarrow> u8 list \<Rightarrow> u8 list \<Rightarrow> u8 list option" where
  "AES_ecb128_decrypt_seed junk fresh pos inp key_seed =
     decrypt_with junk fresh pos inp (get_key_seed key_seed)"

text \<open>
  The pointer overload hands the decoder a null destination, which it writes as soon as the text
  has a unit (\<open>None\<close>), and then decrypts \<^verbatim>\<open>out_len\<close> bytes from the null pointer. What remains
  defined is a text shorter than a unit with \<^verbatim>\<open>out_len\<close> below a block.
\<close>

definition AES_ecb128_decrypt_ptr :: "u8 list \<Rightarrow> u8 list \<Rightarrow> nat \<Rightarrow> (u8 list \<times> nat) option" where
  "AES_ecb128_decrypt_ptr inp out out_len =
    (if 4 \<le> length inp then None
     else if AES_BLOCK_SIZE \<le> out_len then None
     else Some (out, out_len))"

section \<open>Block ciphers over a buffer\<close>

locale block_cipher =
  fixes enc dec :: "u8 list \<Rightarrow> u8 list option"
  assumes block: "length b = AES_BLOCK_SIZE \<Longrightarrow>
    \<exists>c. enc b = Some c \<and> length c = AES_BLOCK_SIZE \<and> dec c = Some b"
begin

lemma each_block_inverse:
  "\<exists>out. each_block enc inp = Some (out, drop (length out) inp) \<and>
     length out = length inp div AES_BLOCK_SIZE * AES_BLOCK_SIZE \<and>
     (\<forall>c. each_block dec (out @ c) = map_option (map_prod ((@) (take (length out) inp)) id) (each_block dec c))"
proof (induction inp rule: length_induct)
  case (1 inp)
  show ?case
  proof (cases "AES_BLOCK_SIZE \<le> length inp")
    case False
    then show ?thesis
      by (intro exI [of _ "[]"]) (simp add: each_block.simps [of enc inp] option.map_ident map_prod_def)
  next
    case True
    have pos: "0 < AES_BLOCK_SIZE" by (simp add: AES_BLOCK_SIZE_def)
    with True have "length (drop AES_BLOCK_SIZE inp) < length inp" by simp
    with 1 obtain out where out: "each_block enc (drop AES_BLOCK_SIZE inp) =
        Some (out, drop (length out) (drop AES_BLOCK_SIZE inp))"
      "length out = length (drop AES_BLOCK_SIZE inp) div AES_BLOCK_SIZE * AES_BLOCK_SIZE"
      "\<forall>c. each_block dec (out @ c) =
         map_option (map_prod ((@) (take (length out) (drop AES_BLOCK_SIZE inp))) id) (each_block dec c)"
      by blast
    obtain c where c: "enc (take AES_BLOCK_SIZE inp) = Some c" "length c = AES_BLOCK_SIZE"
      "dec c = Some (take AES_BLOCK_SIZE inp)"
      using block [of "take AES_BLOCK_SIZE inp"] True by auto
    have len: "length (c @ out) = length inp div AES_BLOCK_SIZE * AES_BLOCK_SIZE"
      using True pos out(2) c(2) by (simp add: le_div_geq)
    have "each_block enc inp = Some (c @ out, drop (length (c @ out)) inp)"
      using True out(1) c by (subst each_block.simps) (simp add: add.commute)
    moreover have "each_block dec ((c @ out) @ d) =
        map_option (map_prod ((@) (take (length (c @ out)) inp)) id) (each_block dec d)" for d
      using out(3) c by (subst each_block.simps)
        (cases "each_block dec d"; auto simp: take_add)
    ultimately show ?thesis using len by blast
  qed
qed

lemma each_block_roundtrip:
  assumes "length inp mod AES_BLOCK_SIZE = 0"
  shows "\<exists>out. each_block enc inp = Some (out, []) \<and> length out = length inp \<and>
    each_block dec out = Some (inp, [])"
proof -
  have whole: "length inp div AES_BLOCK_SIZE * AES_BLOCK_SIZE = length inp"
    using assms by (simp add: mod_0_imp_dvd)
  obtain out where out: "each_block enc inp = Some (out, drop (length out) inp)"
    "length out = length inp" "each_block dec (out @ []) =
       map_option (map_prod ((@) (take (length out) inp)) id) (each_block dec [])"
    using each_block_inverse [of inp] unfolding whole by blast
  have "each_block dec [] = Some ([], [])"
    by (subst each_block.simps) (simp add: AES_BLOCK_SIZE_def)
  with out show ?thesis by simp
qed

end


lemma length_uninit_key: "length (rd_key (uninit_key junk)) = 60"
  by (simp add: uninit_key_def)

lemma aes_block:
  assumes "length b = AES_BLOCK_SIZE"
    and "AES_set_encrypt_key (Some key) 128 (Some (uninit_key junk)) = (st, Some ek)"
    and "AES_set_decrypt_key (Some key) 128 (Some (uninit_key junk')) = (st', Some dk)"
  shows "\<exists>c. AES_encrypt b ek = Some c \<and> length c = AES_BLOCK_SIZE \<and> AES_decrypt c dk = Some b"
proof -
  have "0 < key_words_of_bits 128 + 6" by simp
  then show ?thesis
    using encrypt_schedule [of 128 "uninit_key junk" key st ek b] length_uninit_key assms(2)
      decrypt_schedule [of 128 "uninit_key junk'" key st' dk] assms(1,3)
    by (simp add: inv_cipher_cipher bytes_of_state_of AES_BLOCK_SIZE_def)
qed

definition ek128 :: "(nat \<Rightarrow> u32) \<Rightarrow> u8 list \<Rightarrow> AES_KEY" where
  "ek128 junk key = the (snd (AES_set_encrypt_key (Some key) 128 (Some (uninit_key junk))))"

definition dk128 :: "(nat \<Rightarrow> u32) \<Rightarrow> u8 list \<Rightarrow> AES_KEY" where
  "dk128 junk key = the (snd (AES_set_decrypt_key (Some key) 128 (Some (uninit_key junk))))"

lemma ek128: "AES_set_encrypt_key (Some key) 128 (Some (uninit_key junk)) = (0, Some (ek128 junk key))"
proof -
  obtain k where "AES_set_encrypt_key (Some key) 128 (Some (uninit_key junk)) = (0, Some k)"
    using AES_set_encrypt_key_ok [of 128 "uninit_key junk" key] length_uninit_key by blast
  then show ?thesis by (simp add: ek128_def)
qed

lemma dk128: "AES_set_decrypt_key (Some key) 128 (Some (uninit_key junk)) = (0, Some (dk128 junk key))"
proof -
  obtain k where "AES_set_decrypt_key (Some key) 128 (Some (uninit_key junk)) = (0, Some k)"
    using AES_set_decrypt_key_ok [of 128 "uninit_key junk" key] length_uninit_key by blast
  then show ?thesis by (simp add: dk128_def)
qed

interpretation aes128: block_cipher "\<lambda>b. AES_encrypt b (ek128 junk key)" "\<lambda>b. AES_decrypt b (dk128 junk' key)"
  for junk junk' key
  by unfold_locales (rule aes_block [OF _ ek128 dk128])

section \<open>Whole strings\<close>

definition zero_padded :: "u8 list \<Rightarrow> u8 list" where
  "zero_padded s = s @ replicate (cipher_length (length s) - length s) 0"

lemma cipher_length_whole: "n mod AES_BLOCK_SIZE = 0 \<Longrightarrow> cipher_length n = n"
  by (simp add: cipher_length_def mod_0_imp_dvd)

lemma cipher_length_ge: "n \<le> cipher_length n"
  using div_mult_mod_eq [of n AES_BLOCK_SIZE] mod_less_divisor [of AES_BLOCK_SIZE n]
  by (cases "n mod AES_BLOCK_SIZE = 0") (auto simp: cipher_length_def AES_BLOCK_SIZE_def)

lemma length_zero_padded: "length (zero_padded s) = cipher_length (length s)"
  by (simp add: zero_padded_def cipher_length_ge)

lemma encrypt_buf_padded:
  "\<exists>out. AES_ecb128_encrypt_buf junk s key = Some out \<and> length out = cipher_length (length s) \<and>
     AES_ecb128_decrypt_buf junk' out key = Some (zero_padded s)"
proof -
  let ?E = "\<lambda>b. AES_encrypt b (ek128 junk key)" and ?D = "\<lambda>b. AES_decrypt b (dk128 junk' key)"
  let ?m = "length s div AES_BLOCK_SIZE * AES_BLOCK_SIZE"
  have pos: "0 < AES_BLOCK_SIZE" by (simp add: AES_BLOCK_SIZE_def)
  obtain out where out: "each_block ?E s = Some (out, drop ?m s)" "length out = ?m"
    "\<forall>c. each_block ?D (out @ c) = map_option (map_prod ((@) (take ?m s)) id) (each_block ?D c)"
    using aes128.each_block_inverse [of junk key s junk'] by metis
  show ?thesis
  proof (cases "drop ?m s = []")
    case True
    then have whole: "length s mod AES_BLOCK_SIZE = 0"
      using div_mult_mod_eq [of "length s" AES_BLOCK_SIZE] unfolding drop_eq_Nil by linarith
    then have "?m = length s" by (simp add: mod_0_imp_dvd)
    moreover have "each_block ?D [] = Some ([], [])"
      by (subst each_block.simps) (simp add: AES_BLOCK_SIZE_def)
    ultimately show ?thesis
      using out(1,2) out(3) [rule_format, of "[]"] whole
      by (simp add: AES_ecb128_encrypt_buf_def AES_ecb128_decrypt_buf_def ek128 dk128
          zero_padded_def cipher_length_whole)
  next
    case False
    let ?left = "drop ?m s"
    have ll: "length ?left = length s mod AES_BLOCK_SIZE" by (simp add: minus_div_mult_eq_mod)
    have cl: "cipher_length (length s) = ?m + AES_BLOCK_SIZE"
      using False ll by (auto simp: cipher_length_def)
    let ?pad = "write_at 0 ?left (replicate AES_BLOCK_SIZE 0)"
    have pad: "?pad = ?left @ replicate (AES_BLOCK_SIZE - length ?left) 0"
      by (simp add: write_at_def)
    have "length ?pad = AES_BLOCK_SIZE" unfolding pad ll using pos by (simp add: ll less_imp_le)
    from aes128.block [OF this, of junk key junk'] obtain c where
      c: "?E ?pad = Some c" "length c = AES_BLOCK_SIZE" "?D c = Some ?pad" by blast
    have "each_block ?D [] = Some ([], [])"
      by (subst each_block.simps) (simp add: AES_BLOCK_SIZE_def)
    then have "each_block ?D c = Some (?pad, [])"
      using c by (subst each_block.simps) simp
    with out(3) have "each_block ?D (out @ c) = Some (take ?m s @ ?pad, [])" by simp
    moreover have "take ?m s @ ?pad = zero_padded s"
    proof -
      have "length s = ?m + length ?left" unfolding ll by simp
      then have "cipher_length (length s) - length s = AES_BLOCK_SIZE - length ?left"
        unfolding cl by simp
      then show ?thesis unfolding zero_padded_def pad by (metis append.assoc append_take_drop_id)
    qed
    ultimately show ?thesis using out(1,2) c False
      by (simp add: AES_ecb128_encrypt_buf_def AES_ecb128_decrypt_buf_def ek128 dk128 cl)
  qed
qed

lemma c_string_append_zero: "c_string (s @ 0 # t) = c_string s"
  by (induction s) (simp_all add: c_string_def)

lemma c_string_padded: "c_string (zero_padded s @ [0]) = c_string s"
proof -
  have "replicate n 0 @ [0] = (0 :: u8) # replicate n 0" for n
    by (simp add: replicate_append_same)
  then show ?thesis by (simp add: zero_padded_def c_string_append_zero)
qed

lemma c_string_Base64Encode: "c_string (Base64Encode s) = Base64Encode s"
  by (simp add: Base64Encode_def c_string_def)

lemma decrypt_encrypt_with:
  assumes fresh: "\<And>n. length (fresh n) = n"
  shows "\<exists>e. encrypt_with junk fresh s key = Some e \<and>
    length e = encode_length (cipher_length (length s)) \<and>
    decrypt_with junk' fresh pos e key = Some (c_string s)"
proof -
  obtain out where out: "AES_ecb128_encrypt_buf junk s key = Some out"
    "length out = cipher_length (length s)"
    "AES_ecb128_decrypt_buf junk' out key = Some (zero_padded s)"
    using encrypt_buf_padded by blast
  then have enc: "encrypt_with junk fresh s key = Some (Base64Encode out)"
    by (simp add: encrypt_with_def write_at_def fresh)
  have len: "length (Base64Encode out) = encode_length (length out)"
    by (simp add: Base64Encode_units length_encode_units)
  have cut: "c_string ((write_at 0 (zero_padded s) b)[cipher_length (length s) := 0]) = c_string s"
    if b: "length b = cipher_length (length s) + 1" for b
  proof -
    obtain c where "drop (cipher_length (length s)) b = [c]"
      using b by (metis add_diff_cancel_left' length_drop length_Suc_conv length_0_conv One_nat_def)
    then show ?thesis
      by (simp add: write_at_def length_zero_padded list_update_append c_string_padded)
  qed
  show ?thesis
  proof (cases "out = []")
    case True
    then have "cipher_length (length s) = 0" using out(2) by simp
    then show ?thesis
      using enc len out cut [of "fresh 1"] True
      by (auto simp: decrypt_with_def Base64Decode_def c_string_Base64Encode fresh
          Base64Encode_units encode_length_def c_string_def [of "[]"])
  next
    case False
    then obtain buf where
      "Base64Decode pos fresh (Base64Encode out) 0 = (Some buf, length out)" "take (length out) buf = out"
      using base64_decode_encode [of out fresh pos 0] fresh by blast
    then show ?thesis
      using enc len out cut [of "fresh (length out + 1)"]
      by (simp add: decrypt_with_def c_string_Base64Encode fresh)
  qed
qed

section \<open>Properties\<close>

text \<open>
  C38. The string routines round-trip: under the built-in key or one from a seed, encryption
  succeeds with \<open>4 * \<lceil>16 * \<lceil>n / 16\<rceil> / 3\<rceil>\<close> characters of text, and decrypting that text gives the string
  back up to its first zero byte (the zero padding is cut off as a C string), whatever the memory
  involved held before.
\<close>

theorem aes_text_roundtrip:
  assumes fresh: "\<And>n. length (fresh n) = n"
  shows "(\<exists>e. AES_ecb128_encrypt junk fresh s = Some e \<and> length e = encode_length (cipher_length (length s)) \<and>
      AES_ecb128_decrypt junk' fresh pos e = Some (c_string s)) \<and>
    (\<exists>e. AES_ecb128_encrypt_seed junk fresh s seed = Some e \<and>
      length e = encode_length (cipher_length (length s)) \<and>
      AES_ecb128_decrypt_seed junk' fresh pos e seed = Some (c_string s))"
  unfolding AES_ecb128_encrypt_def AES_ecb128_decrypt_def AES_ecb128_encrypt_seed_def
    AES_ecb128_decrypt_seed_def
  using decrypt_encrypt_with [OF fresh] by blast

lemma aes_text_roundtrip_witness:
  "\<exists>e. AES_ecb128_encrypt_seed (\<lambda>i. 0) (\<lambda>n. replicate n 7) [83, 70, 0, 1] [107] = Some e \<and>
     AES_ecb128_decrypt_seed (\<lambda>i. 1) (\<lambda>n. replicate n 7) 9 e [107] = Some [83, 70]"
  using aes_text_roundtrip [of "\<lambda>n. replicate n 7" "\<lambda>i. 0" "[83, 70, 0, 1]" "\<lambda>i. 1" 9 "[107]"]
  by (auto simp: c_string_def)

text \<open>
  What decryption leaves undetermined: a text that decodes to fewer than 16 bytes is answered
  with newly allocated memory, none of it written, up to its first zero.
\<close>

theorem aes_short_text_reads_heap:
  assumes "s \<noteq> []" "length s < AES_BLOCK_SIZE" "\<And>n. length (fresh n) = n"
  shows "AES_ecb128_decrypt junk fresh pos (Base64Encode s) = Some (c_string (take (length s) (fresh (length s + 1))))"
proof -
  obtain buf where
    b: "Base64Decode pos fresh (Base64Encode s) 0 = (Some buf, length s)" "take (length s) buf = s"
    using base64_decode_encode [of s fresh pos 0] assms by blast
  have "each_block f s = Some ([], s)" for f using assms(2) by (subst each_block.simps) simp
  then have "AES_ecb128_decrypt_buf junk s key = Some []" for key
    by (simp add: AES_ecb128_decrypt_buf_def dk128)
  moreover have "c_string (b[length s := 0]) = c_string (take (length s) b)"
    if "length b = length s + 1" for b
  proof -
    have "b[length s := 0] = take (length s) b @ [0]"
      using that by (simp add: upd_conv_take_nth_drop)
    then show ?thesis by (simp add: c_string_append_zero)
  qed
  ultimately show ?thesis
    using b assms(3) by (simp add: AES_ecb128_decrypt_def decrypt_with_def c_string_Base64Encode write_at_def)
qed

lemma aes_short_text_reads_heap_witness:
  "AES_ecb128_decrypt (\<lambda>i. 0) (\<lambda>n. replicate n 7) 9 (Base64Encode [1, 2]) = Some [7, 7]"
  using aes_short_text_reads_heap [of "[1, 2]" "\<lambda>n. replicate n 7" "\<lambda>i. 0" 9]
  by (simp add: AES_BLOCK_SIZE_def c_string_def)

end
