(* ===== verification/Message_Queue.thy ===== *)
theory Message_Queue
  imports SF_Prelude
begin

text \<open>
  \<^verbatim>\<open>common/libmessage/MessageQueue.cpp\<close>: the queue of the messages a session has still to send.
  Its storage is \<^verbatim>\<open>boost::circular_buffer\<close>, which is not part of the sources: it is a record of
  operations, and the locale \<open>circular_buffer\<close> states what the Boost documentation promises of
  them. \<open>fifo_queue\<close> is the contract the session relies on.
\<close>

section \<open>The storage\<close>

record ('b, 'a) ring_ops =
  rb_make :: "nat \<Rightarrow> 'b"
  rb_size :: "'b \<Rightarrow> nat"
  rb_full :: "'b \<Rightarrow> bool"
  rb_empty :: "'b \<Rightarrow> bool"
  rb_front :: "'b \<Rightarrow> 'a"
  rb_pop_front :: "'b \<Rightarrow> 'b"
  rb_push_back :: "'a \<Rightarrow> 'b \<Rightarrow> 'b"
  rb_set_capacity :: "nat \<Rightarrow> 'b \<Rightarrow> 'b"

text \<open>
  A push into a full buffer overwrites the oldest element; a smaller capacity drops the newest.
\<close>

locale circular_buffer =
  fixes R :: "('b, 'a) ring_ops" and elems :: "'b \<Rightarrow> 'a list" and cap :: "'b \<Rightarrow> nat"
  assumes make: "elems (rb_make R n) = []" "cap (rb_make R n) = n"
    and size: "rb_size R b = length (elems b)"
    and full: "rb_full R b \<longleftrightarrow> length (elems b) = cap b"
    and empty: "rb_empty R b \<longleftrightarrow> elems b = []"
    and front: "elems b \<noteq> [] \<Longrightarrow> rb_front R b = hd (elems b)"
    and pop_front: "elems b \<noteq> [] \<Longrightarrow> elems (rb_pop_front R b) = tl (elems b)"
      "elems b \<noteq> [] \<Longrightarrow> cap (rb_pop_front R b) = cap b"
    and push_back: "elems (rb_push_back R x b) = drop (Suc (length (elems b)) - cap b) (elems b @ [x])"
      "cap (rb_push_back R x b) = cap b"
    and set_capacity: "elems (rb_set_capacity R n b) = take n (elems b)" "cap (rb_set_capacity R n b) = n"

section \<open>The code\<close>

definition INIT_SIZE :: nat where "INIT_SIZE = 0x100"
definition MAX_SIZE :: nat where "MAX_SIZE = 100000"

definition MessageQueue :: "('b, 'a) ring_ops \<Rightarrow> 'b" where
  "MessageQueue R = rb_make R INIT_SIZE"

definition mq_pop :: "('b, 'a) ring_ops \<Rightarrow> 'b \<Rightarrow> 'a option \<times> 'b" where
  "mq_pop R q =
    (if rb_empty R q then (None, q)
     else let msg = rb_front R q in (Some msg, rb_pop_front R q))"

definition mq_push :: "('b, 'a) ring_ops \<Rightarrow> 'a \<Rightarrow> 'b \<Rightarrow> bool \<times> 'b" where
  "mq_push R msg q =
    (let all_size = rb_size R q
     in if rb_full R q then
          if MAX_SIZE < all_size then (False, q)
          else (True, rb_push_back R msg (rb_set_capacity R (all_size + all_size) q))
        else (True, rb_push_back R msg q))"

definition mq_front :: "('b, 'a) ring_ops \<Rightarrow> 'b \<Rightarrow> 'a option" where
  "mq_front R q = (if rb_empty R q then None else Some (rb_front R q))"

definition mq_is_empty :: "('b, 'a) ring_ops \<Rightarrow> 'b \<Rightarrow> bool" where
  "mq_is_empty R q = rb_empty R q"

section \<open>The contract: a bounded first-in first-out queue\<close>

datatype 'a queue_op = Push 'a | Pop | Front | Is_empty

datatype 'a queue_result = Pushed bool | Popped "'a option" | Fronted "'a option" | Emptied bool

fun fifo_step :: "nat \<Rightarrow> 'a queue_op \<Rightarrow> 'a list \<Rightarrow> 'a queue_result \<times> 'a list" where
  "fifo_step n (Push x) xs = (if length xs < n then (Pushed True, xs @ [x]) else (Pushed False, xs))"
| "fifo_step n Pop xs = (case xs of [] \<Rightarrow> (Popped None, []) | x # ys \<Rightarrow> (Popped (Some x), ys))"
| "fifo_step n Front xs = (Fronted (case xs of [] \<Rightarrow> None | x # ys \<Rightarrow> Some x), xs)"
| "fifo_step n Is_empty xs = (Emptied (xs = []), xs)"

fun fifo_run :: "nat \<Rightarrow> 'a queue_op list \<Rightarrow> 'a list \<Rightarrow> 'a queue_result list \<times> 'a list" where
  "fifo_run n [] xs = ([], xs)"
| "fifo_run n (op # ops) xs =
    (let (r, xs) = fifo_step n op xs; (rs, xs) = fifo_run n ops xs in (r # rs, xs))"

fun mq_step :: "('b, 'a) ring_ops \<Rightarrow> 'a queue_op \<Rightarrow> 'b \<Rightarrow> 'a queue_result \<times> 'b" where
  "mq_step R (Push x) q = (let (ok, q) = mq_push R x q in (Pushed ok, q))"
| "mq_step R Pop q = (let (m, q) = mq_pop R q in (Popped m, q))"
| "mq_step R Front q = (Fronted (mq_front R q), q)"
| "mq_step R Is_empty q = (Emptied (mq_is_empty R q), q)"

fun mq_run :: "('b, 'a) ring_ops \<Rightarrow> 'a queue_op list \<Rightarrow> 'b \<Rightarrow> 'a queue_result list \<times> 'b" where
  "mq_run R [] q = ([], q)"
| "mq_run R (op # ops) q =
    (let (r, q) = mq_step R op q; (rs, q) = mq_run R ops q in (r # rs, q))"

text \<open>The largest capacity the doubling reaches: the last doubling is from 65536.\<close>

definition queue_limit :: nat where "queue_limit = 131072"

definition capacities :: "nat list" where
  "capacities = [256, 512, 1024, 2048, 4096, 8192, 16384, 32768, 65536, 131072]"

locale fifo_queue =
  fixes push :: "'a \<Rightarrow> 'q \<Rightarrow> bool \<times> 'q" and pop :: "'q \<Rightarrow> 'a option \<times> 'q"
    and front :: "'q \<Rightarrow> 'a option" and is_empty :: "'q \<Rightarrow> bool"
    and limit :: nat and contents :: "'q \<Rightarrow> 'a list" and ok :: "'q \<Rightarrow> bool"
  assumes push: "ok q \<Longrightarrow> fst (push x q) \<longleftrightarrow> length (contents q) < limit"
      "ok q \<Longrightarrow> contents (snd (push x q)) = (if length (contents q) < limit then contents q @ [x] else contents q)"
      "ok q \<Longrightarrow> ok (snd (push x q))"
    and pop: "ok q \<Longrightarrow> contents (snd (pop q)) = tl (contents q)"
      "ok q \<Longrightarrow> fst (pop q) = (case contents q of [] \<Rightarrow> None | x # xs \<Rightarrow> Some x)"
      "ok q \<Longrightarrow> ok (snd (pop q))"
    and front: "ok q \<Longrightarrow> front q = (case contents q of [] \<Rightarrow> None | x # xs \<Rightarrow> Some x)"
    and is_empty: "ok q \<Longrightarrow> is_empty q \<longleftrightarrow> contents q = []"
begin

lemmas laws [simp] = push pop front is_empty

end

section \<open>The queue keeps the contract\<close>

context circular_buffer
begin

definition queue_ok :: "'b \<Rightarrow> bool" where
  "queue_ok q \<longleftrightarrow> length (elems q) \<le> cap q \<and> cap q \<in> set capacities"

lemma queue_ok_new: "queue_ok (MessageQueue R)" "elems (MessageQueue R) = []"
  by (simp_all add: queue_ok_def MessageQueue_def make INIT_SIZE_def capacities_def)

lemma capacity_grows: "c \<in> set capacities \<Longrightarrow> c \<noteq> queue_limit \<Longrightarrow>
    c + c \<in> set capacities \<and> \<not> MAX_SIZE < c \<and> 0 < c \<and> c < queue_limit"
  by (auto simp: capacities_def queue_limit_def MAX_SIZE_def)

lemma capacity_limit: "c \<in> set capacities \<Longrightarrow> c \<le> queue_limit"
  by (auto simp: capacities_def queue_limit_def)

lemma push_ok:
  assumes "queue_ok q"
  shows "fst (mq_push R x q) \<longleftrightarrow> length (elems q) < queue_limit"
    and "elems (snd (mq_push R x q)) = (if length (elems q) < queue_limit then elems q @ [x] else elems q)"
    and "queue_ok (snd (mq_push R x q))"
proof -
  note q = assms [unfolded queue_ok_def]
  show "fst (mq_push R x q) \<longleftrightarrow> length (elems q) < queue_limit"
    and "elems (snd (mq_push R x q)) = (if length (elems q) < queue_limit then elems q @ [x] else elems q)"
    and "queue_ok (snd (mq_push R x q))"
  proof (atomize (full), cases "length (elems q) = cap q")
    case False
    with q have l: "length (elems q) < cap q" by simp
    with q have "length (elems q) < queue_limit" using capacity_limit [of "cap q"] by simp
    with l q show "(fst (mq_push R x q) \<longleftrightarrow> length (elems q) < queue_limit) \<and>
        elems (snd (mq_push R x q)) = (if length (elems q) < queue_limit then elems q @ [x] else elems q) \<and>
        queue_ok (snd (mq_push R x q))"
      by (simp add: mq_push_def Let_def full push_back queue_ok_def)
  next
    case True
    show "(fst (mq_push R x q) \<longleftrightarrow> length (elems q) < queue_limit) \<and>
        elems (snd (mq_push R x q)) = (if length (elems q) < queue_limit then elems q @ [x] else elems q) \<and>
        queue_ok (snd (mq_push R x q))"
    proof (cases "cap q = queue_limit")
      case limit: True
      with True q show ?thesis
        by (simp add: mq_push_def Let_def full size MAX_SIZE_def queue_limit_def queue_ok_def)
    next
      case False
      note g = capacity_grows [OF conjunct2 [OF q] False]
      with True show ?thesis
        by (simp add: mq_push_def Let_def full size push_back set_capacity queue_ok_def)
    qed
  qed
qed

end

sublocale circular_buffer \<subseteq> queue: fifo_queue "mq_push R" "mq_pop R" "mq_front R" "mq_is_empty R"
  queue_limit elems queue_ok
proof
  show "queue_ok q \<Longrightarrow> queue_ok (snd (mq_pop R q))" for q
    by (auto simp: mq_pop_def empty pop_front queue_ok_def Let_def)
qed (simp_all add: push_ok, auto simp: mq_pop_def mq_front_def mq_is_empty_def empty front pop_front
    split: list.splits)

context circular_buffer
begin

lemma step_refines:
  assumes "queue_ok q"
  shows "mq_step R op q = (fst (fifo_step queue_limit op (elems q)), snd (mq_step R op q)) \<and>
    elems (snd (mq_step R op q)) = snd (fifo_step queue_limit op (elems q)) \<and> queue_ok (snd (mq_step R op q))"
  using assms queue.push [of q] queue.pop [of q]
  by (cases op) (auto simp: split_beta split: list.splits)

lemma run_refines:
  assumes "queue_ok q"
  shows "fst (mq_run R ops q) = fst (fifo_run queue_limit ops (elems q)) \<and>
    elems (snd (mq_run R ops q)) = snd (fifo_run queue_limit ops (elems q)) \<and> queue_ok (snd (mq_run R ops q))"
  using assms
proof (induction ops arbitrary: q)
  case (Cons op ops)
  note s = step_refines [OF Cons.prems, of op]
  then obtain r q' where "mq_step R op q = (r, q')"
      "fifo_step queue_limit op (elems q) = (r, elems q')" "queue_ok q'"
    by (metis prod.collapse)
  with Cons.IH [of q'] show ?case by (simp add: split_beta)
qed simp

end

section \<open>A ring that satisfies the laws\<close>

definition list_ring :: "('a list \<times> nat, 'a) ring_ops" where
  "list_ring = \<lparr>rb_make = (\<lambda>n. ([], n)), rb_size = (\<lambda>(xs, n). length xs),
     rb_full = (\<lambda>(xs, n). length xs = n), rb_empty = (\<lambda>(xs, n). xs = []),
     rb_front = (\<lambda>(xs, n). hd xs), rb_pop_front = (\<lambda>(xs, n). (tl xs, n)),
     rb_push_back = (\<lambda>x (xs, n). (drop (Suc (length xs) - n) (xs @ [x]), n)),
     rb_set_capacity = (\<lambda>n (xs, m). (take n xs, n))\<rparr>"

interpretation list_ring: circular_buffer list_ring fst snd
  by unfold_locales (auto simp: list_ring_def)

section \<open>Properties\<close>

text \<open>
  C22. The queue refines a bounded first-in first-out queue: over every sequence of pushes, pops,
  looks and emptiness tests from a new queue, each answer is the one of a list that takes at most
  131072 messages; no message is lost, reordered or overwritten by the ring, and a push fails only
  at that length.
\<close>

theorem message_queue_refines_fifo:
  assumes "circular_buffer R elems cap"
  shows "fst (mq_run R ops (MessageQueue R)) = fst (fifo_run queue_limit ops []) \<and>
    elems (snd (mq_run R ops (MessageQueue R))) = snd (fifo_run queue_limit ops [])"
  using circular_buffer.run_refines [OF assms circular_buffer.queue_ok_new(1) [OF assms], of ops]
  by (simp add: circular_buffer.queue_ok_new(2) [OF assms])

lemma message_queue_refines_fifo_witness:
  "fst (mq_run list_ring [Push (3 :: nat), Push 4, Pop, Front, Is_empty] (MessageQueue list_ring)) =
   [Pushed True, Pushed True, Popped (Some 3), Fronted (Some 4), Emptied False]"
  using message_queue_refines_fifo [OF list_ring.circular_buffer_axioms,
      of "[Push (3 :: nat), Push 4, Pop, Front, Is_empty]"]
  by (simp add: queue_limit_def)

text \<open>
  What the sizes mean: the constant \<^verbatim>\<open>MAX_SIZE\<close> of 100000 is not the bound, since it
  is compared only when a power of two is full.
\<close>

lemma queue_limit_exceeds_MAX_SIZE: "MAX_SIZE < queue_limit \<and> queue_limit = 2 ^ 9 * INIT_SIZE"
  by (simp add: MAX_SIZE_def queue_limit_def INIT_SIZE_def)

end
