(* ===== verification/Message_Core.thy ===== *)
theory Message_Core
  imports Base_Tools
begin

text \<open>
  \<^verbatim>\<open>common/libmessage\<close>: messages, their construction by command
  (\<^verbatim>\<open>MessageMaker.cpp\<close>), the buffers they are encoded in (\<^verbatim>\<open>MessageBuffer.inl\<close>), the responses
  (\<^verbatim>\<open>Message.inl\<close>) and the dispatch to handlers (\<^verbatim>\<open>MessageTask.inl\<close>).

  Protocol Buffers is not part of the sources: \<open>pb_ops\<close> is what the code uses of it, over a type
  \<open>'p\<close> of message objects, and the locale \<open>protobuf\<close> states what it promises. Integers of the
  header are words; \<open>scast\<close> is the conversion of a C++ \<^verbatim>\<open>int\<close> to 64 bits.
\<close>

section \<open>Messages\<close>

record header =
  cmdtype :: u32
  msgtype :: u32
  sequenceid :: u64
  body_len :: u32
  check_result :: u64
  response_result :: u32

definition new_header :: header where
  "new_header = \<lparr>cmdtype = 0, msgtype = 0, sequenceid = 0, body_len = 0, check_result = 0,
     response_result = 0\<rparr>"

text \<open>A message: \<open>m_message\<close> may be null, \<open>m_session\<close> is the identity of the session or null.\<close>

record 'p message =
  m_header :: header
  m_message :: "'p option"
  m_session :: "nat option"

definition REQUEST_TYPE :: u32 where "REQUEST_TYPE = 1"
definition RESPONSE_TYPE :: u32 where "RESPONSE_TYPE = 2"

definition CMD_HEARTBEAT :: u32 where "CMD_HEARTBEAT = 1"
definition CMD_SESSION_OPEN :: u32 where "CMD_SESSION_OPEN = 2"
definition CMD_SESSION_CLOSE :: u32 where "CMD_SESSION_CLOSE = 3"
definition CMD_CONNECT_FAILED :: u32 where "CMD_CONNECT_FAILED = 4"
definition CMD_SHUTDOWN_SESSION :: u32 where "CMD_SHUTDOWN_SESSION = 6"

definition CODE_WAIT_RESP_TIMEOUT :: u32 where "CODE_WAIT_RESP_TIMEOUT = 3"

definition HEADER_LENGTH :: nat where "HEADER_LENGTH = 4"
definition MSG_BUF_SIZE :: nat where "MSG_BUF_SIZE = 1024 * 128"

record 'p pb_ops =
  pb_new :: "'p \<Rightarrow> 'p"
  pb_bytes :: "'p \<Rightarrow> u8 list"
  pb_parse :: "'p \<Rightarrow> u8 list \<Rightarrow> 'p option"
  hd_bytes :: "header \<Rightarrow> u8 list"
  hd_parse :: "u8 list \<Rightarrow> header option"

text \<open>
  \<^verbatim>\<open>New()\<close> makes an empty message of the same type, so \<open>pb_new\<close> tells the types apart; an object
  parses what an object of its type serialises to.
\<close>

locale protobuf =
  fixes P :: "'p pb_ops"
  assumes new_new: "pb_new P (pb_new P p) = pb_new P p"
    and parse_bytes: "pb_new P p = pb_new P q \<Longrightarrow> pb_parse P p (pb_bytes P q) = Some q"
    and parse_header: "hd_parse P (hd_bytes P h) = Some h"

section \<open>Messages by command: \<^verbatim>\<open>MessageMaker.cpp\<close>\<close>

text \<open>
  \<^verbatim>\<open>m_cmd_names\<close> is assigned the command itself, which a string takes as one character.
\<close>

record 'p maker =
  cmd_request :: "u32 \<rightharpoonup> 'p"
  cmd_response :: "u32 \<rightharpoonup> 'p"
  cmd_names :: "u32 \<rightharpoonup> u8 list"

definition register_message :: "'p pb_ops \<Rightarrow> u32 \<Rightarrow> 'p \<Rightarrow> 'p \<Rightarrow> 'p maker \<Rightarrow> 'p maker" where
  "register_message P cmd msg response mk =
    mk\<lparr>cmd_names := (cmd_names mk)(cmd \<mapsto> [ucast cmd]),
       cmd_request := (cmd_request mk)(cmd \<mapsto> pb_new P msg),
       cmd_response := (cmd_response mk)(cmd \<mapsto> pb_new P response)\<rparr>"

text \<open>The constructor registers the system messages; \<open>proto cmd ty\<close> is the class named there.\<close>

definition MessageMaker :: "'p pb_ops \<Rightarrow> (u32 \<Rightarrow> u32 \<Rightarrow> 'p) \<Rightarrow> 'p maker" where
  "MessageMaker P proto =
    fold (\<lambda>cmd. register_message P cmd (proto cmd REQUEST_TYPE) (proto cmd RESPONSE_TYPE))
      [CMD_HEARTBEAT, 5, 7, CMD_SESSION_CLOSE, CMD_SHUTDOWN_SESSION, 8, 9, 10, 12, 13, CMD_SESSION_OPEN]
      \<lparr>cmd_request = Map.empty, cmd_response = Map.empty, cmd_names = Map.empty\<rparr>"

definition make_request_message :: "'p pb_ops \<Rightarrow> 'p maker \<Rightarrow> u32 \<Rightarrow> 'p option" where
  "make_request_message P mk cmd = map_option (pb_new P) (cmd_request mk cmd)"

definition make_response_message :: "'p pb_ops \<Rightarrow> 'p maker \<Rightarrow> u32 \<Rightarrow> 'p option" where
  "make_response_message P mk cmd = map_option (pb_new P) (cmd_response mk cmd)"

definition make_message :: "'p pb_ops \<Rightarrow> 'p maker \<Rightarrow> u32 \<Rightarrow> u32 \<Rightarrow> 'p option" where
  "make_message P mk msg_type cmd =
    (if msg_type = REQUEST_TYPE then make_request_message P mk cmd
     else if msg_type = RESPONSE_TYPE then make_response_message P mk cmd
     else None)"

section \<open>Buffers: \<^verbatim>\<open>MessageBuffer.inl\<close>\<close>

text \<open>How the machine lays out an \<^verbatim>\<open>unsigned int\<close>; \<open>be\<close> is its byte order.\<close>

definition store32 :: "bool \<Rightarrow> u32 \<Rightarrow> u8 list" where
  "store32 be w =
    (let bytes = [ucast (drop_bit 24 w), ucast (drop_bit 16 w), ucast (drop_bit 8 w), ucast w]
     in if be then bytes else rev bytes)"

definition load32 :: "bool \<Rightarrow> u8 list \<Rightarrow> u32" where
  "load32 be p =
    (let p = (if be then p else rev p)
     in push_bit 24 (ucast (p ! 0)) OR push_bit 16 (ucast (p ! 1)) OR push_bit 8 (ucast (p ! 2)) OR ucast (p ! 3))"

record msg_buffer =
  m_header_length :: u32
  m_msg_length :: u32
  m_buffer :: "u8 list"

definition new_buffer :: "u8 list \<Rightarrow> msg_buffer" where
  "new_buffer fresh = \<lparr>m_header_length = 0, m_msg_length = 0, m_buffer = fresh\<rparr>"

text \<open>The sums are unsigned; the getters return \<^verbatim>\<open>int\<close>.\<close>

definition buffer_length :: "msg_buffer \<Rightarrow> int" where
  "buffer_length b = sint (of_nat HEADER_LENGTH + m_header_length b + m_msg_length b)"

definition header_length :: "msg_buffer \<Rightarrow> int" where
  "header_length b = sint (m_header_length b)"

definition body_length :: "msg_buffer \<Rightarrow> int" where
  "body_length b = sint (m_msg_length b)"

definition header_buffer :: "msg_buffer \<Rightarrow> nat" where
  "header_buffer b = HEADER_LENGTH"

definition body_buffer :: "msg_buffer \<Rightarrow> nat" where
  "body_buffer b = HEADER_LENGTH + unat (m_header_length b)"

text \<open>The bytes at an offset; \<open>None\<close> when they are not all inside the buffer.\<close>

definition buffer_part :: "nat \<Rightarrow> nat \<Rightarrow> msg_buffer \<Rightarrow> u8 list option" where
  "buffer_part off n b =
    (if off + n \<le> length (m_buffer b) then Some (take n (drop off (m_buffer b))) else None)"

definition put_bytes :: "nat \<Rightarrow> u8 list \<Rightarrow> msg_buffer \<Rightarrow> msg_buffer option" where
  "put_bytes off bytes b =
    (if off + length bytes \<le> length (m_buffer b)
     then Some (b\<lparr>m_buffer := write_at off bytes (m_buffer b)\<rparr>) else None)"

definition decode_header_length :: "bool \<Rightarrow> msg_buffer \<Rightarrow> msg_buffer" where
  "decode_header_length be b = b\<lparr>m_header_length := ntoh32 be (load32 be (take 4 (m_buffer b)))\<rparr>"

text \<open>\<open>Some (None, b)\<close> is the failed parse, \<open>None\<close> a read outside the buffer.\<close>

definition decode_header :: "'p pb_ops \<Rightarrow> msg_buffer \<Rightarrow> (header option \<times> msg_buffer) option" where
  "decode_header P b = do {
     bytes \<leftarrow> buffer_part HEADER_LENGTH (unat (m_header_length b)) b;
     Some (case hd_parse P bytes of
         None \<Rightarrow> (None, b)
       | Some header \<Rightarrow> (Some header, b\<lparr>m_msg_length := body_len header\<rparr>)) }"

definition decode_message :: "'p pb_ops \<Rightarrow> 'p \<Rightarrow> msg_buffer \<Rightarrow> 'p option option" where
  "decode_message P msg b = do {
     bytes \<leftarrow> buffer_part (HEADER_LENGTH + unat (m_header_length b)) (unat (m_msg_length b)) b;
     Some (pb_parse P msg bytes) }"

definition encode_header_length :: "bool \<Rightarrow> u32 \<Rightarrow> msg_buffer \<Rightarrow> msg_buffer option" where
  "encode_header_length be n b =
    put_bytes 0 (store32 be (hton32 be n)) (b\<lparr>m_header_length := n\<rparr>)"

definition encode_header :: "'p pb_ops \<Rightarrow> header \<Rightarrow> msg_buffer \<Rightarrow> msg_buffer option" where
  "encode_header P header b =
    put_bytes HEADER_LENGTH (hd_bytes P header) (b\<lparr>m_msg_length := body_len header\<rparr>)"

definition encode_message :: "'p pb_ops \<Rightarrow> 'p \<Rightarrow> msg_buffer \<Rightarrow> msg_buffer option" where
  "encode_message P msg b = put_bytes (HEADER_LENGTH + unat (m_header_length b)) (pb_bytes P msg) b"

section \<open>Responses: \<^verbatim>\<open>Message.inl\<close>\<close>

text \<open>
  What the three functions hand to \<^verbatim>\<open>m_session->send_response\<close>; \<open>None\<close> when there is no session
  to call. \<open>make_response\<close> is the method of \<^verbatim>\<open>Session.inl\<close>.
\<close>

definition stamp_response :: "'p message \<Rightarrow> 'p message \<Rightarrow> 'p message" where
  "stamp_response req response =
    response\<lparr>m_header := (m_header response)\<lparr>cmdtype := cmdtype (m_header req), msgtype := RESPONSE_TYPE,
       sequenceid := sequenceid (m_header req)\<rparr>\<rparr>"

definition send_response :: "'p message \<Rightarrow> 'p message \<Rightarrow> 'p message option" where
  "send_response req response = (if m_session req = None then None else Some (stamp_response req response))"

definition send_response_result :: "'p message \<Rightarrow> u32 \<Rightarrow> 'p option \<Rightarrow> 'p message option" where
  "send_response_result req fail_reson response =
    (if m_session req = None then None
     else Some \<lparr>m_header = new_header\<lparr>cmdtype := cmdtype (m_header req), msgtype := RESPONSE_TYPE,
            response_result := fail_reson, sequenceid := sequenceid (m_header req)\<rparr>,
          m_message = response, m_session = None\<rparr>)"

definition make_response :: "'p pb_ops \<Rightarrow> 'p maker \<Rightarrow> u32 \<Rightarrow> 'p message" where
  "make_response P mk cmd =
    \<lparr>m_header = new_header, m_message = make_message P mk RESPONSE_TYPE cmd, m_session = None\<rparr>"

definition send_failed_reason :: "'p pb_ops \<Rightarrow> 'p maker \<Rightarrow> 'p message \<Rightarrow> u32 \<Rightarrow> 'p message option" where
  "send_failed_reason P mk req fail_reson =
    (if m_session req = None then None
     else let response = make_response P mk (cmdtype (m_header req));
              response = response\<lparr>m_header := (m_header response)\<lparr>response_result := fail_reson\<rparr>\<rparr>
          in send_response req response)"

section \<open>Dispatch: \<^verbatim>\<open>MessageTask.inl\<close>\<close>

text \<open>
  What a handler does to its session while it runs: send a message, send a request whose response
  goes to callback \<open>f\<close> (on loop \<open>l\<close>, or the session's own), answer, or close.
\<close>

datatype 'p action =
    Send "'p message"
  | Request nat "nat option" "'p message"
  | Respond "'p message"
  | Close

text \<open>A handler that dereferences null or fails an assertion has no result.\<close>

type_synonym ('p, 'u) handler = "'p message \<Rightarrow> 'u \<Rightarrow> ('u \<times> 'p action list) option"

text \<open>A task: its overridable methods, the registered handlers, over a state \<open>'u\<close> of the server.\<close>

record ('p, 'u) task =
  on_session_open :: "('p, 'u) handler"
  on_session_close :: "('p, 'u) handler"
  on_heart_beat :: "('p, 'u) handler"
  on_unknown_msg :: "('p, 'u) handler"
  cmd_handler :: "u32 \<rightharpoonup> ('p, 'u) handler"

definition log_only :: "('p, 'u) handler" where
  "log_only msg u = Some (u, [])"

definition MessageTask :: "('p, 'u) task" where
  "MessageTask = \<lparr>on_session_open = log_only, on_session_close = log_only, on_heart_beat = log_only,
     on_unknown_msg = log_only, cmd_handler = Map.empty\<rparr>"

definition register_msg_handler :: "u32 \<Rightarrow> ('p, 'u) handler \<Rightarrow> ('p, 'u) task \<Rightarrow> ('p, 'u) task" where
  "register_msg_handler cmd h t = t\<lparr>cmd_handler := (cmd_handler t)(cmd \<mapsto> h)\<rparr>"

text \<open>
  \<open>hb interval\<close> is the \<^verbatim>\<open>HeartbeatResponse\<close> with that interval. The answer goes out before
  \<^verbatim>\<open>on_heart_beat\<close> runs.
\<close>

definition do_heart_beat :: "(int \<Rightarrow> 'p) \<Rightarrow> int \<Rightarrow> ('p, 'u) task \<Rightarrow> ('p, 'u) handler" where
  "do_heart_beat hb interval t msg u =
    (let res = \<lparr>m_header = new_header\<lparr>cmdtype := CMD_HEARTBEAT\<rparr>, m_message = Some (hb interval), m_session = None\<rparr>
     in do {
       r \<leftarrow> send_response msg res;
       (u, acts) \<leftarrow> on_heart_beat t msg u;
       Some (u, Respond r # acts) })"

definition do_handle_message :: "(int \<Rightarrow> 'p) \<Rightarrow> int \<Rightarrow> ('p, 'u) task \<Rightarrow> ('p, 'u) handler" where
  "do_handle_message hb interval t msg u =
    (let cmd = cmdtype (m_header msg)
     in if cmd = CMD_SESSION_OPEN then on_session_open t msg u
        else if cmd = CMD_SESSION_CLOSE then on_session_close t msg u
        else if cmd = CMD_HEARTBEAT then do_heart_beat hb interval t msg u
        else case cmd_handler t cmd of
            Some func \<Rightarrow> func msg u
          | None \<Rightarrow> on_unknown_msg t msg u)"

section \<open>Lemmas: buffers\<close>

lemma length_store32 [simp]: "length (store32 be w) = 4"
  by (cases be) (simp_all add: store32_def Let_def)

lemma load32_store32 [simp]: "load32 be (store32 be w) = w"
proof -
  have "push_bit 24 (ucast (ucast (drop_bit 24 w) :: u8)) OR push_bit 16 (ucast (ucast (drop_bit 16 w) :: u8)) OR
      push_bit 8 (ucast (ucast (drop_bit 8 w) :: u8)) OR ucast (ucast w :: u8) = w" (is "?l = w")
  proof (rule bit_word_eqI)
    fix n assume "n < LENGTH(32)"
    then consider "n < 8" | "8 \<le> n \<and> n < 16" | "16 \<le> n \<and> n < 24" | "24 \<le> n \<and> n < 32" by force
    then show "bit ?l n = bit w n"
      by cases (auto simp: bit_or_iff bit_push_bit_iff bit_ucast_iff bit_drop_bit_eq)
  qed
  then show ?thesis by (simp only: load32_def store32_def Let_def) (simp add: numeral_eq_Suc)
qed

lemma ntoh32_hton32 [simp]: "ntoh32 be (hton32 be w) = w"
  by (simp add: ntoh32_def hton32_def)

text \<open>On the wire the length is in network order whatever the machine.\<close>

lemma store32_hton32: "store32 be (hton32 be w) = store32 True w"
proof (cases be)
  case False
  have "ucast (drop_bit 24 (Swap32 w)) = (ucast w :: u8)"
    "ucast (drop_bit 16 (Swap32 w)) = (ucast (drop_bit 8 w) :: u8)"
    "ucast (drop_bit 8 (Swap32 w)) = (ucast (drop_bit 16 w) :: u8)"
    "ucast (Swap32 w) = (ucast (drop_bit 24 w) :: u8)"
    by (rule bit_word_eqI; auto simp: bit_Swap32 bit_ucast_iff bit_drop_bit_eq add.commute)+
  with False show ?thesis by (simp only: store32_def hton32_def Let_def if_False if_True rev.simps append.simps)
qed (simp add: hton32_def)

lemma put_bytesD:
  assumes "put_bytes off bytes b = Some b'"
  shows "off + length bytes \<le> length (m_buffer b)"
    and "b' = b\<lparr>m_buffer := write_at off bytes (m_buffer b)\<rparr>"
    and "length (m_buffer b') = length (m_buffer b)"
  using assms by (auto simp: put_bytes_def length_write_at split: if_splits)

lemma buffer_part_write:
  assumes "off + length bytes \<le> length (m_buffer b)"
  shows "buffer_part off (length bytes) (b\<lparr>m_buffer := write_at off bytes (m_buffer b)\<rparr>) = Some bytes"
  using assms by (simp add: buffer_part_def write_at_def)

end
