(* ===== verification/Async_Request.thy ===== *)
theory Async_Request
  imports Message_Core
begin

text \<open>
  \<^verbatim>\<open>common/libserver/AsyncRequest.inl\<close>: the requests of a session that wait for a response. Each
  has an item under its sequence number and a timer whose handler removes it. The handlers run one
  at a time on the session's loop, in any order the timers and the peer produce: a step relation
  with the log of what was accepted and of the callbacks run.
\<close>

section \<open>The code\<close>

record 'p asyn_item =
  it_loop :: "nat option"
  it_fun :: nat
  it_request :: "'p message"

text \<open>
  The completion handler of a timer wait: not due yet, due with success, or due with
  \<^verbatim>\<open>operation_aborted\<close>. Cancelling a timer only changes waits that are not due.
\<close>

datatype wait = Armed | Expired | Cancelled

record 'p areq =
  m_items :: "u64 \<rightharpoonup> 'p asyn_item"
  m_waits :: "(u64 \<times> wait) list"

definition new_areq :: "'p areq" where
  "new_areq = \<lparr>m_items = Map.empty, m_waits = []\<rparr>"

type_synonym 'p call = "'p asyn_item \<times> 'p message"

definition send_request :: "nat option \<Rightarrow> 'p message \<Rightarrow> nat \<Rightarrow> 'p areq \<Rightarrow> 'p areq" where
  "send_request io_loop request fun_id st =
    (let sid = sequenceid (m_header request)
     in case m_items st sid of
         Some it \<Rightarrow> st
       | None \<Rightarrow>
           st\<lparr>m_items := (m_items st)(sid \<mapsto> \<lparr>it_loop = io_loop, it_fun = fun_id, it_request = request\<rparr>),
              m_waits := m_waits st @ [(sid, Armed)]\<rparr>)"

definition cancel_timer :: "u64 \<Rightarrow> (u64 \<times> wait) list \<Rightarrow> (u64 \<times> wait) list" where
  "cancel_timer sid ws = map (\<lambda>(i, w). (i, if i = sid \<and> w = Armed then Cancelled else w)) ws"

text \<open>The callbacks that are started (\<^verbatim>\<open>m_fun(m_request, response)\<close>) are the last component.\<close>

definition on_response_come :: "'p message \<Rightarrow> 'p areq \<Rightarrow> 'p areq \<times> 'p call list" where
  "on_response_come response st =
    (let sid = sequenceid (m_header response)
     in case m_items st sid of
         None \<Rightarrow> (st, [])
       | Some it \<Rightarrow> (st\<lparr>m_waits := cancel_timer sid (m_waits st)\<rparr>, [(it, response)]))"

definition timeout_response :: "'p pb_ops \<Rightarrow> 'p maker \<Rightarrow> u64 \<Rightarrow> 'p message \<Rightarrow> 'p message" where
  "timeout_response P mk sid request =
    (let response = make_response P mk (cmdtype (m_header request))
     in response\<lparr>m_header := (m_header response)\<lparr>response_result := CODE_WAIT_RESP_TIMEOUT, sequenceid := sid\<rparr>\<rparr>)"

definition on_response_timeout ::
  "'p pb_ops \<Rightarrow> 'p maker \<Rightarrow> bool \<Rightarrow> u64 \<Rightarrow> 'p areq \<Rightarrow> ('p areq \<times> 'p call list) option" where
  "on_response_timeout P mk err_code sid st =
    (case m_items st sid of
       None \<Rightarrow> None
     | Some it \<Rightarrow>
         Some (st\<lparr>m_items := (m_items st)(sid := None)\<rparr>,
           if err_code then [] else [(it, timeout_response P mk sid (it_request it))]))"

text \<open>The io context: a timer becomes due; a due handler is taken off and run.\<close>

definition expire_timer :: "u64 \<Rightarrow> 'p areq \<Rightarrow> 'p areq" where
  "expire_timer sid st =
    st\<lparr>m_waits := map (\<lambda>(i, w). (i, if i = sid \<and> w = Armed then Expired else w)) (m_waits st)\<rparr>"

definition run_wait ::
  "'p pb_ops \<Rightarrow> 'p maker \<Rightarrow> u64 \<times> wait \<Rightarrow> 'p areq \<Rightarrow> ('p areq \<times> 'p call list) option" where
  "run_wait P mk w st =
    on_response_timeout P mk (snd w = Cancelled) (fst w) (st\<lparr>m_waits := remove1 w (m_waits st)\<rparr>)"

section \<open>Interleavings\<close>

datatype 'p areq_log = Sent "'p asyn_item" | Called "'p call"

definition accepted :: "nat option \<Rightarrow> 'p message \<Rightarrow> nat \<Rightarrow> 'p areq \<Rightarrow> 'p areq_log list" where
  "accepted io_loop request fun_id st =
    (if m_items st (sequenceid (m_header request)) = None
     then [Sent \<lparr>it_loop = io_loop, it_fun = fun_id, it_request = request\<rparr>] else [])"

inductive areq_reach :: "'p pb_ops \<Rightarrow> 'p maker \<Rightarrow> 'p areq \<Rightarrow> 'p areq_log list \<Rightarrow> bool"
  for P mk where
  start: "areq_reach P mk new_areq []"
| send: "areq_reach P mk st log \<Longrightarrow>
    areq_reach P mk (send_request l req f st) (log @ accepted l req f st)"
| response: "areq_reach P mk st log \<Longrightarrow> on_response_come resp st = (st', calls) \<Longrightarrow>
    areq_reach P mk st' (log @ map Called calls)"
| expire: "areq_reach P mk st log \<Longrightarrow> areq_reach P mk (expire_timer sid st) log"
| run: "areq_reach P mk st log \<Longrightarrow> w \<in> set (m_waits st) \<Longrightarrow> snd w \<noteq> Armed \<Longrightarrow>
    run_wait P mk w st = Some (st', calls) \<Longrightarrow> areq_reach P mk st' (log @ map Called calls)"

section \<open>Lemmas\<close>

text \<open>Every item has exactly one wait, under its own number, and every wait has its item.\<close>

definition areq_ok :: "'p areq \<Rightarrow> bool" where
  "areq_ok st \<longleftrightarrow> distinct (map fst (m_waits st)) \<and> fst ` set (m_waits st) = dom (m_items st) \<and>
     (\<forall>sid it. m_items st sid = Some it \<longrightarrow> sequenceid (m_header (it_request it)) = sid)"

lemma areq_ok_new: "areq_ok new_areq"
  by (simp add: areq_ok_def new_areq_def)

lemma map_waits [simp]:
  "map (fst \<circ> (\<lambda>(i, w). (i, g i w))) ws = map fst ws"
  "fst ` (\<lambda>(i, w). (i, g i w)) ` A = fst ` A"
  by (induction ws) force+

lemma areq_ok_send [sf_inv]: "areq_ok st \<Longrightarrow> areq_ok (send_request l req f st)"
  by (auto simp: areq_ok_def send_request_def Let_def domIff split: option.splits)

lemma areq_ok_response [sf_inv]: "areq_ok st \<Longrightarrow> areq_ok (fst (on_response_come resp st))"
  by (auto simp: areq_ok_def on_response_come_def cancel_timer_def Let_def split: option.splits)

lemma areq_ok_expire [sf_inv]: "areq_ok st \<Longrightarrow> areq_ok (expire_timer sid st)"
  by (simp add: areq_ok_def expire_timer_def)

lemma remove_wait:
  assumes "distinct (map fst ws)" "w \<in> set ws"
  shows "distinct (map fst (remove1 w ws))" "fst ` set (remove1 w ws) = fst ` set ws - {fst w}"
proof -
  have d: "distinct ws" using assms(1) by (simp add: distinct_map)
  show "distinct (map fst (remove1 w ws))"
    using assms(1) d by (auto simp: distinct_map inj_on_def)
  show "fst ` set (remove1 w ws) = fst ` set ws - {fst w}"
    using assms d by (auto simp: distinct_map inj_on_def)
qed

lemma run_wait_ok:
  assumes "areq_ok st" "w \<in> set (m_waits st)"
  obtains st' calls it where "run_wait P mk w st = Some (st', calls)" "areq_ok st'"
    "m_items st (fst w) = Some it" "m_items st' = (m_items st)(fst w := None)"
    "m_waits st' = remove1 w (m_waits st)"
    "calls = (if snd w = Cancelled then [] else [(it, timeout_response P mk (fst w) (it_request it))])"
proof -
  from assms have "fst w \<in> dom (m_items st)" unfolding areq_ok_def by blast
  then obtain it where it: "m_items st (fst w) = Some it" by blast
  have "areq_ok (st\<lparr>m_waits := remove1 w (m_waits st), m_items := (m_items st)(fst w := None)\<rparr>)"
    using assms remove_wait [of "m_waits st" w] by (auto simp: areq_ok_def)
  then show ?thesis
    using that it by (simp add: run_wait_def on_response_timeout_def)
qed

lemma areq_reach_ok: "areq_reach P mk st log \<Longrightarrow> areq_ok st"
proof (induction rule: areq_reach.induct)
  case (response st log resp st' calls)
  then show ?case using areq_ok_response [of st resp] by simp
next
  case (run st log w st' calls)
  then show ?case using run_wait_ok [of st w P mk] by (metis option.inject prod.inject)
qed (simp_all add: areq_ok_new areq_ok_send areq_ok_expire)

text \<open>
  Accepted requests and callbacks, counted by item. While a request is unanswered its item is in
  the table with a wait that is not cancelled.
\<close>

definition n_sent :: "'p asyn_item \<Rightarrow> 'p areq_log list \<Rightarrow> nat" where
  "n_sent it log = length (filter (\<lambda>e. e = Sent it) log)"

definition n_called :: "'p asyn_item \<Rightarrow> 'p areq_log list \<Rightarrow> nat" where
  "n_called it log = length (filter (\<lambda>e. case e of Called (i, r) \<Rightarrow> i = it | _ \<Rightarrow> False) log)"

definition waiting :: "'p asyn_item \<Rightarrow> 'p areq \<Rightarrow> bool" where
  "waiting it st \<longleftrightarrow> (let sid = sequenceid (m_header (it_request it)) in
     m_items st sid = Some it \<and> (sid, Cancelled) \<notin> set (m_waits st))"

lemma n_append [simp]:
  "n_sent it (xs @ ys) = n_sent it xs + n_sent it ys"
  "n_called it (xs @ ys) = n_called it xs + n_called it ys"
  "n_sent it [] = 0" "n_called it [] = 0"
  "n_sent it (map Called cs) = 0"
  by (simp_all add: n_sent_def n_called_def filter_map comp_def)

lemma n_called_map [simp]: "n_called it (map Called cs) = length (filter (\<lambda>c. fst c = it) cs)"
  by (simp add: n_called_def filter_map comp_def split_beta')

definition answered :: "'p areq \<Rightarrow> 'p areq_log list \<Rightarrow> bool" where
  "answered st log \<longleftrightarrow> (\<forall>it. n_sent it log \<le> n_called it log + (if waiting it st then 1 else 0))"

lemma answered_step:
  assumes "answered st log"
    and "\<And>it. n_sent it new + (if waiting it st then 1 else 0) \<le> n_called it new + (if waiting it st' then 1 else 0)"
  shows "answered st' (log @ new)"
  unfolding answered_def
proof
  fix it
  show "n_sent it (log @ new) \<le> n_called it (log @ new) + (if waiting it st' then 1 else 0)"
    using assms(1) [unfolded answered_def, rule_format, of it] assms(2) [of it] by simp
qed

lemma answered_send:
  assumes "areq_ok st" "answered st log"
  shows "answered (send_request l req f st) (log @ accepted l req f st)"
proof (cases "m_items st (sequenceid (m_header req))")
  case None
  let ?it = "\<lparr>it_loop = l, it_fun = f, it_request = req\<rparr>" and ?sid = "sequenceid (m_header req)"
  from None assms(1) have free: "\<And>w. (?sid, w) \<notin> set (m_waits st)"
    unfolding areq_ok_def by (metis domIff fst_conv image_eqI)
  have "waiting ?it (send_request l req f st)" "\<not> waiting ?it st"
    using None free by (simp_all add: waiting_def send_request_def Let_def)
  moreover have "waiting it (send_request l req f st)" if "waiting it st" for it
    using that None by (auto simp: waiting_def send_request_def Let_def)
  moreover have "n_sent it (accepted l req f st) = (if it = ?it then 1 else 0)" for it
    using None by (simp add: accepted_def n_sent_def)
  ultimately show ?thesis by (intro answered_step [OF assms(2)]) auto
next
  case (Some it)
  with assms(2) show ?thesis by (simp add: accepted_def send_request_def Let_def)
qed

lemma answered_response:
  assumes "answered st log" "on_response_come resp st = (st', calls)"
  shows "answered st' (log @ map Called calls)"
proof (cases "m_items st (sequenceid (m_header resp))")
  case None
  with assms show ?thesis by (simp add: on_response_come_def Let_def)
next
  case (Some i)
  with assms(2) have st': "st' = st\<lparr>m_waits := cancel_timer (sequenceid (m_header resp)) (m_waits st)\<rparr>"
    "calls = [(i, resp)]" by (simp_all add: on_response_come_def Let_def)
  have "waiting it st'" if "waiting it st" "it \<noteq> i" for it
  proof -
    from that Some have "sequenceid (m_header (it_request it)) \<noteq> sequenceid (m_header resp)"
      by (auto simp: waiting_def Let_def)
    with that show ?thesis by (auto simp: waiting_def st' cancel_timer_def Let_def)
  qed
  moreover have "n_called it (map Called calls) = (if it = i then 1 else 0)" for it
    by (simp only: n_called_map) (simp add: st'(2))
  ultimately show ?thesis by (intro answered_step [OF assms(1)]) auto
qed

lemma answered_expire: "answered st log \<Longrightarrow> answered (expire_timer sid st) log"
proof -
  have "waiting it (expire_timer sid st)" if "waiting it st" for it
    using that by (auto simp: waiting_def expire_timer_def Let_def split: if_splits)
  then show "answered st log \<Longrightarrow> answered (expire_timer sid st) log"
    using answered_step [of st log "[]"] by simp
qed

lemma answered_run:
  assumes "areq_ok st" "answered st log" "w \<in> set (m_waits st)" "run_wait P mk w st = Some (st', calls)"
  shows "answered st' (log @ map Called calls)"
proof -
  from run_wait_ok [OF assms(1,3), of P mk] assms(4) obtain i where
    i: "m_items st (fst w) = Some i" "m_items st' = (m_items st)(fst w := None)"
      "m_waits st' = remove1 w (m_waits st)"
      "calls = (if snd w = Cancelled then [] else [(i, timeout_response P mk (fst w) (it_request i))])"
    by (metis option.inject prod.inject)
  have d: "distinct (m_waits st)" using assms(1) by (simp add: areq_ok_def distinct_map)
  have "waiting it st'" if "waiting it st" "it \<noteq> i" for it
  proof -
    from that i(1) have "sequenceid (m_header (it_request it)) \<noteq> fst w"
      by (auto simp: waiting_def Let_def)
    with that show ?thesis using d by (auto simp: waiting_def i Let_def)
  qed
  moreover have "snd w \<noteq> Cancelled" if "waiting i st"
    using that assms(1,3) i(1) by (cases w) (auto simp: waiting_def Let_def areq_ok_def)
  ultimately show ?thesis by (intro answered_step [OF assms(2)]) (auto simp: i(4))
qed

lemma areq_reach_answered: "areq_reach P mk st log \<Longrightarrow> answered st log"
proof (induction rule: areq_reach.induct)
  case start
  then show ?case by (simp add: answered_def)
next
  case (send st log l req f)
  then show ?case by (simp add: answered_send areq_reach_ok)
next
  case (response st log resp st' calls)
  then show ?case by (metis answered_response areq_reach_ok)
next
  case (expire st log sid)
  then show ?case by (simp add: answered_expire)
next
  case (run st log w st' calls)
  then show ?case by (metis answered_run areq_reach_ok)
qed

text \<open>Callbacks belong to accepted requests and get a response with the number of the request.\<close>

definition matched :: "'p areq \<Rightarrow> 'p areq_log list \<Rightarrow> bool" where
  "matched st log \<longleftrightarrow>
     (\<forall>sid it. m_items st sid = Some it \<longrightarrow> Sent it \<in> set log) \<and>
     (\<forall>it r. Called (it, r) \<in> set log \<longrightarrow>
        Sent it \<in> set log \<and> sequenceid (m_header r) = sequenceid (m_header (it_request it)))"

lemma timeout_response_id [simp]: "sequenceid (m_header (timeout_response P mk sid req)) = sid"
  by (simp add: timeout_response_def Let_def)

lemma areq_reach_matched: "areq_reach P mk st log \<Longrightarrow> matched st log"
proof (induction rule: areq_reach.induct)
  case start
  then show ?case by (simp add: matched_def new_areq_def)
next
  case (send st log l req f)
  then show ?case
    by (auto simp: matched_def send_request_def accepted_def Let_def split: option.splits)
next
  case (response st log resp st' calls)
  then show ?case using areq_reach_ok [OF response(1)]
    by (auto simp: matched_def on_response_come_def areq_ok_def Let_def split: option.splits)
next
  case (expire st log sid)
  then show ?case by (simp add: matched_def expire_timer_def)
next
  case (run st log w st' calls)
  note ok = areq_reach_ok [OF run(1)]
  from run_wait_ok [OF ok run(2), of P mk] run(4) obtain i where
    "m_items st (fst w) = Some i" "m_items st' = (m_items st)(fst w := None)"
    "calls = (if snd w = Cancelled then [] else [(i, timeout_response P mk (fst w) (it_request i))])"
    by (metis option.inject prod.inject)
  with run.IH ok show ?case by (auto simp: matched_def areq_ok_def)
qed

section \<open>Properties\<close>

text \<open>
  C20. Every request is answered: in every interleaving of requests, responses, due timers and timer
  handlers, the assertion of the timeout handler holds for every pending timer, a request whose
  item has left the table has had its callback run at least once, and each callback run belongs to
  an accepted request and gets a response with that request's sequence number.
\<close>

theorem async_requests_answered:
  fixes P :: "'p pb_ops"
  assumes "areq_reach P mk st log"
  shows "(\<forall>w\<in>set (m_waits st). run_wait P mk w st \<noteq> None) \<and>
    (\<forall>it. m_items st (sequenceid (m_header (it_request it))) = None \<longrightarrow> n_sent it log \<le> n_called it log) \<and>
    (\<forall>it r. Called (it, r) \<in> set log \<longrightarrow>
       Sent it \<in> set log \<and> sequenceid (m_header r) = sequenceid (m_header (it_request it)))"
proof (intro conjI)
  show "\<forall>w\<in>set (m_waits st). run_wait P mk w st \<noteq> None"
    using run_wait_ok [OF areq_reach_ok [OF assms], of _ P mk] by (metis option.discI)
  show "\<forall>it. m_items st (sequenceid (m_header (it_request it))) = None \<longrightarrow> n_sent it log \<le> n_called it log"
  proof (intro allI impI)
    fix it :: "'p asyn_item"
    assume "m_items st (sequenceid (m_header (it_request it))) = None"
    then have "\<not> waiting it st" by (simp add: waiting_def Let_def)
    with areq_reach_answered [OF assms] show "n_sent it log \<le> n_called it log"
      unfolding answered_def by (metis add.right_neutral)
  qed
  show "\<forall>it r. Called (it, r) \<in> set log \<longrightarrow>
      Sent it \<in> set log \<and> sequenceid (m_header r) = sequenceid (m_header (it_request it))"
    using areq_reach_matched [OF assms] unfolding matched_def by (rule conjunct2)
qed

definition demo_pb :: "nat pb_ops" where
  "demo_pb = \<lparr>pb_new = (\<lambda>p. 0), pb_bytes = (\<lambda>p. [of_nat p]), pb_parse = (\<lambda>p bs. Some (unat (hd bs))),
     hd_bytes = (\<lambda>h. []), hd_parse = (\<lambda>bs. None)\<rparr>"

definition demo_maker :: "nat maker" where
  "demo_maker = register_message demo_pb 9 0 0
     \<lparr>cmd_request = Map.empty, cmd_response = Map.empty, cmd_names = Map.empty\<rparr>"

definition demo_message :: "nat message" where
  "demo_message = \<lparr>m_header = new_header\<lparr>cmdtype := 9, sequenceid := 7\<rparr>, m_message = Some 5, m_session = Some 1\<rparr>"

definition demo_item :: "nat asyn_item" where
  "demo_item = \<lparr>it_loop = None, it_fun = 3, it_request = demo_message\<rparr>"

lemma demo_run:
  "areq_reach demo_pb demo_maker
     \<lparr>m_items = Map.empty(7 \<mapsto> demo_item), m_waits = [(7, Cancelled)]\<rparr>
     [Sent demo_item, Called (demo_item, demo_message), Called (demo_item, demo_message)]"
proof -
  note s = areq_reach.send [OF areq_reach.start [of demo_pb demo_maker], of None demo_message 3]
  have "send_request None demo_message 3 new_areq = \<lparr>m_items = Map.empty(7 \<mapsto> demo_item), m_waits = [(7, Armed)]\<rparr>"
    "accepted None demo_message 3 new_areq = [Sent demo_item]"
    by (simp_all add: send_request_def accepted_def demo_message_def demo_item_def new_areq_def)
  with s have s1: "areq_reach demo_pb demo_maker
      \<lparr>m_items = Map.empty(7 \<mapsto> demo_item), m_waits = [(7, Armed)]\<rparr> [Sent demo_item]" by simp
  have r: "on_response_come demo_message \<lparr>m_items = Map.empty(7 \<mapsto> demo_item), m_waits = [(7, w)]\<rparr> =
      (\<lparr>m_items = Map.empty(7 \<mapsto> demo_item), m_waits = [(7, if w = Armed then Cancelled else w)]\<rparr>,
       [(demo_item, demo_message)])" for w
    by (simp add: on_response_come_def cancel_timer_def demo_message_def)
  from areq_reach.response [OF areq_reach.response [OF s1 r] r] show ?thesis by simp
qed

lemma demo_run_end:
  "areq_reach demo_pb demo_maker \<lparr>m_items = Map.empty, m_waits = []\<rparr>
     [Sent demo_item, Called (demo_item, demo_message), Called (demo_item, demo_message)]"
  using areq_reach.run [OF demo_run, of "(7, Cancelled)" "\<lparr>m_items = Map.empty(7 := None), m_waits = []\<rparr>" "[]"]
  by (simp add: run_wait_def on_response_timeout_def)

lemma async_requests_answered_witness: "n_sent demo_item [Sent demo_item, Called (demo_item, demo_message),
     Called (demo_item, demo_message)] \<le> n_called demo_item [Sent demo_item, Called (demo_item, demo_message),
     Called (demo_item, demo_message)]"
  using async_requests_answered [OF demo_run_end] by simp

text \<open>
  A second response that arrives before the cancelled timer's handler has removed the item runs
  the callback of the one request again.
\<close>

theorem async_callback_runs_twice:
  "\<exists>st log. areq_reach demo_pb demo_maker st log \<and> n_sent demo_item log = 1 \<and> n_called demo_item log = 2"
proof (intro exI conjI)
  show "n_sent demo_item [Sent demo_item, Called (demo_item, demo_message), Called (demo_item, demo_message)] = 1"
    "n_called demo_item [Sent demo_item, Called (demo_item, demo_message), Called (demo_item, demo_message)] = 2"
    by (simp_all add: n_sent_def n_called_def)
qed (rule demo_run_end)

end
