(* ===== verification/Syn_Request.thy ===== *)
theory Syn_Request
  imports Message_Core
begin

text \<open>
  \<^verbatim>\<open>common/libserver/Synrequest.inl\<close>: a thread sends a request and waits for the response. One thread
  waits at a time; the responses come on other threads. Each step is what happens between two
  synchronisations: the assignments to the atomic \<^verbatim>\<open>m_send_sequenceid\<close>, the locked parts, the wait.
  A promise is a number into a store of values, since the waiting thread keeps its future when
  \<^verbatim>\<open>m_promise\<close> is reset. \<open>None\<close> is the exception of a promise that is set twice. The request is
  posted to its session when the promise is there; a future of a promise is never deferred, so the wait
  ends with the value or the timeout.
\<close>

datatype 'p wait_phase =
    No_wait
  | Id_set "'p message"
  | In_wait "'p message" nat
  | Answered "'p message" "'p message"
  | Id_cleared "'p message" "'p message"

record 'p syn_request =
  send_sequenceid :: u64
  promise_ref :: "nat option"
  promise_value :: "nat \<rightharpoonup> 'p message"
  next_promise :: nat
  phase :: "'p wait_phase"
  checked :: "'p message list"
  returned :: "('p message \<times> 'p message) list"

definition SynRequest :: "'p syn_request" where
  "SynRequest = \<lparr>send_sequenceid = 0, promise_ref = None, promise_value = Map.empty, next_promise = 0,
     phase = No_wait, checked = [], returned = []\<rparr>"

definition syn_timeout :: "'p message \<Rightarrow> 'p message" where
  "syn_timeout msg = \<lparr>m_header = new_header\<lparr>response_result := 3, sequenceid := sequenceid (m_header msg)\<rparr>,
     m_message = None, m_session = None\<rparr>"

datatype 'p syn_step =
    Start_wait "'p message" | Make_promise | Take_response | Give_up_waiting | Clear_id | Clear_promise
  | Check_response "'p message" | Set_response "'p message"

definition enter :: "'p wait_phase \<Rightarrow> 'p syn_request \<Rightarrow> 'p syn_request option option" where
  "enter ph s = Some (Some (s\<lparr>phase := ph\<rparr>))"

definition set_value :: "'p message \<Rightarrow> 'p syn_request \<Rightarrow> 'p syn_request option" where
  "set_value m s =
    (case promise_ref s of
       None \<Rightarrow> Some s
     | Some p \<Rightarrow> if promise_value s p = None then Some (s\<lparr>promise_value := (promise_value s)(p \<mapsto> m)\<rparr>) else None)"

text \<open>The outer \<open>None\<close> is a step that is not possible in the state.\<close>

fun syn_do_step :: "'p syn_step \<Rightarrow> 'p syn_request \<Rightarrow> 'p syn_request option option" where
  "syn_do_step (Start_wait msg) s =
    (case phase s of No_wait \<Rightarrow> enter (Id_set msg) (s\<lparr>send_sequenceid := sequenceid (m_header msg)\<rparr>) | _ \<Rightarrow> None)"
| "syn_do_step Make_promise s =
    (case phase s of
       Id_set msg \<Rightarrow> enter (In_wait msg (next_promise s)) (s\<lparr>promise_ref := Some (next_promise s), next_promise := next_promise s + 1\<rparr>)
     | _ \<Rightarrow> None)"
| "syn_do_step Take_response s =
    (case phase s of
       In_wait msg p \<Rightarrow> (case promise_value s p of Some m \<Rightarrow> enter (Answered msg m) s | None \<Rightarrow> None)
     | _ \<Rightarrow> None)"
| "syn_do_step Give_up_waiting s =
    (case phase s of
       In_wait msg p \<Rightarrow> if promise_value s p = None then enter (Answered msg (syn_timeout msg)) s else None
     | _ \<Rightarrow> None)"
| "syn_do_step Clear_id s =
    (case phase s of Answered msg m \<Rightarrow> enter (Id_cleared msg m) (s\<lparr>send_sequenceid := - 1\<rparr>) | _ \<Rightarrow> None)"
| "syn_do_step Clear_promise s =
    (case phase s of
       Id_cleared msg m \<Rightarrow> enter No_wait (s\<lparr>promise_ref := None, returned := returned s @ [(msg, m)]\<rparr>)
     | _ \<Rightarrow> None)"
| "syn_do_step (Check_response m) s =
    Some (Some (if send_sequenceid s \<noteq> sequenceid (m_header m) then s else s\<lparr>checked := checked s @ [m]\<rparr>))"
| "syn_do_step (Set_response m) s =
    (if m \<in> set (checked s) then Some (set_value m (s\<lparr>checked := remove1 m (checked s)\<rparr>)) else None)"

fun from_response :: "'p syn_step \<Rightarrow> bool" where
  "from_response (Set_response m) = True"
| "from_response _ = False"

text \<open>
  Any interleaving, and the prompt ones, in which a response that has passed the test of its number is
  set before anything else happens.
\<close>

inductive syn_reach :: "bool \<Rightarrow> 'p syn_request \<Rightarrow> bool" for prompt where
  new: "syn_reach prompt SynRequest"
| step: "syn_reach prompt s \<Longrightarrow> (prompt \<and> \<not> from_response x \<longrightarrow> checked s = []) \<Longrightarrow> syn_do_step x s = Some (Some s') \<Longrightarrow>
    syn_reach prompt s'"

section \<open>Whose response it is\<close>

definition has_id :: "u64 \<Rightarrow> 'p message \<Rightarrow> bool" where
  "has_id n m \<longleftrightarrow> sequenceid (m_header m) = n"

fun phase_ok :: "'p syn_request \<Rightarrow> 'p wait_phase \<Rightarrow> bool" where
  "phase_ok s No_wait = (promise_ref s = None)"
| "phase_ok s (Id_set msg) = (promise_ref s = None \<and> has_id (send_sequenceid s) msg)"
| "phase_ok s (In_wait msg p) = (promise_ref s = Some p \<and> p < next_promise s \<and> has_id (send_sequenceid s) msg \<and>
     pred_option (has_id (send_sequenceid s)) (promise_value s p))"
| "phase_ok s (Answered msg m) = (has_id (send_sequenceid s) msg \<and> has_id (send_sequenceid s) m \<and>
     pred_option (\<lambda>p. p < next_promise s) (promise_ref s))"
| "phase_ok s (Id_cleared msg m) = ((\<exists>n. has_id n msg \<and> has_id n m) \<and> pred_option (\<lambda>p. p < next_promise s) (promise_ref s))"

definition syn_ok :: "'p syn_request \<Rightarrow> bool" where
  "syn_ok s \<longleftrightarrow> phase_ok s (phase s) \<and> (\<forall>p\<ge>next_promise s. promise_value s p = None) \<and>
     (\<forall>m\<in>set (checked s). has_id (send_sequenceid s) m) \<and>
     (\<forall>(msg, m)\<in>set (returned s). \<exists>n. has_id n msg \<and> has_id n m)"

lemma has_id_simps: "has_id (sequenceid (m_header m)) m" "has_id n (syn_timeout m) = has_id n m"
  by (simp_all add: has_id_def syn_timeout_def new_header_def)

lemma set_value_ok: "syn_ok s \<Longrightarrow> m \<in> set (checked s) \<Longrightarrow> set_value m (s\<lparr>checked := remove1 m (checked s)\<rparr>) = Some s' \<Longrightarrow> syn_ok s'"
  by (cases "phase s"; cases "promise_ref s")
    (auto simp: syn_ok_def set_value_def dest: notin_set_remove1 split: if_splits)

lemma syn_step_ok:
  assumes ok: "syn_ok s" and prompt: "\<not> from_response x \<longrightarrow> checked s = []" and step: "syn_do_step x s = Some (Some s')"
  shows "syn_ok s'"
proof (cases x)
  case (Set_response m)
  with ok step show ?thesis by (auto split: if_splits intro: set_value_ok)
next
  case (Check_response m)
  with ok prompt step show ?thesis
    by (cases "phase s") (auto simp: syn_ok_def has_id_simps split: if_splits)
next
  case Take_response
  with ok prompt step show ?thesis
    by (cases "phase s") (auto simp: syn_ok_def enter_def split: option.splits)
next
  case Give_up_waiting
  with ok prompt step show ?thesis
    by (cases "phase s") (auto simp: syn_ok_def enter_def has_id_simps split: if_splits)
qed (use ok prompt step in \<open>(cases "phase s"; auto simp: syn_ok_def enter_def has_id_simps; fail)+\<close>)

text \<open>
  When responses are set as soon as they have passed the test, every wait returns a message with the
  number of its request: the response, or the one made for a timeout.
\<close>

theorem syn_request_matches:
  assumes "syn_reach True s" "(msg, m) \<in> set (returned s)"
  shows "sequenceid (m_header m) = sequenceid (m_header msg)"
proof -
  have "syn_ok s" using assms(1)
  proof induction
    case new
    show ?case by (simp add: syn_ok_def SynRequest_def)
  next
    case (step s x s')
    then show ?case using syn_step_ok by blast
  qed
  with assms(2) show ?thesis by (fastforce simp: syn_ok_def has_id_def)
qed

definition numbered :: "u64 \<Rightarrow> nat message" where
  "numbered n = \<lparr>m_header = new_header\<lparr>sequenceid := n\<rparr>, m_message = None, m_session = None\<rparr>"

text \<open>
  In other interleavings a response that is late answers the next request: it passes the test for the
  first request, the wait runs into its timeout, and it is set when the second has its promise.
\<close>

fun syn_run :: "bool \<Rightarrow> 'p syn_step list \<Rightarrow> 'p syn_request \<Rightarrow> 'p syn_request option" where
  "syn_run prompt [] s = Some s"
| "syn_run prompt (x # xs) s =
    (if prompt \<and> \<not> from_response x \<and> checked s \<noteq> [] then None
     else case syn_do_step x s of Some (Some s') \<Rightarrow> syn_run prompt xs s' | _ \<Rightarrow> None)"

lemma syn_run_reach: "syn_run prompt xs s = Some s' \<Longrightarrow> syn_reach prompt s \<Longrightarrow> syn_reach prompt s'"
  by (induction xs arbitrary: s) (auto split: option.splits if_splits intro: syn_reach.step)

theorem syn_request_race: "\<exists>s. syn_reach False s \<and> (numbered 2, numbered 1) \<in> set (returned s)"
proof -
  let ?run = "[Start_wait (numbered 1), Make_promise, Check_response (numbered 1), Give_up_waiting, Clear_id, Clear_promise,
    Start_wait (numbered 2), Make_promise, Set_response (numbered 1), Take_response, Clear_id, Clear_promise]"
  have "\<exists>s. syn_run False ?run SynRequest = Some s \<and> (numbered 2, numbered 1) \<in> set (returned s)"
    by (simp add: SynRequest_def enter_def set_value_def numbered_def new_header_def)
  then show ?thesis using syn_run_reach [OF _ syn_reach.new] by blast
qed

text \<open>A second response to the same request throws.\<close>

theorem syn_second_response_throws:
  "\<exists>s. syn_reach True s \<and> syn_do_step (Set_response (numbered 1)) s = Some None"
proof -
  let ?run = "[Start_wait (numbered 1), Make_promise, Check_response (numbered 1), Set_response (numbered 1), Check_response (numbered 1)]"
  have "\<exists>s. syn_run True ?run SynRequest = Some s \<and> syn_do_step (Set_response (numbered 1)) s = Some None"
    by (simp add: SynRequest_def enter_def set_value_def numbered_def new_header_def)
  then show ?thesis using syn_run_reach [OF _ syn_reach.new] by blast
qed

end
