(* ===== verification/Tcp_Session.thy ===== *)
theory Tcp_Session
  imports Message_Queue Async_Request
begin

text \<open>
  \<^verbatim>\<open>common/libserver/Session.inl\<close> and \<^verbatim>\<open>TcpSession.cpp\<close>: a session on a socket. \<open>session\<close> is
  what sending, closing and the upcalls work on, \<open>reader\<close> what reading works on. Socket
  operations are asynchronous: an outstanding read is recorded in \<open>pending_read\<close>, an
  outstanding write in \<open>writing\<close>, and their completion handlers are the \<open>on_\<dots>\<close> functions.

  All of it runs on the session's loop, where \<^verbatim>\<open>IoLoop::post\<close> calls at once. What a message
  handler does to the session is the list of its \<open>action\<close>s, performed when it returns. A
  result \<open>None\<close> is an access outside a buffer, a null pointer or a failed assertion.
\<close>

section \<open>State\<close>

record ('q, 'p, 'u) session =
  s_id :: nat
  is_open :: bool
  send_buf :: msg_buffer
  send_queue :: 'q
  writing :: bool
  wire :: "u8 list list"
  next_sequenceid :: u64
  async_request :: "'p areq"
  alive_time :: int
  alive_interval :: int
  session_id :: int
  upper :: 'u

datatype read_phase = Head_len | Head | Body

record reader =
  recv_buf :: msg_buffer
  cur_header :: header
  pending_read :: "(read_phase \<times> nat \<times> nat) option"

text \<open>
  What surrounds a session: the byte order, Protocol Buffers, the maker, the ring under the queue,
  the task, the system messages it builds, the callbacks of requests (run here or posted to
  another loop), and the session manager, which may be null.
\<close>

record ('q, 'p, 'u) sess_env =
  e_be :: bool
  e_pb :: "'p pb_ops"
  e_maker :: "'p maker"
  e_ring :: "('q, 'p message) ring_ops"
  e_task :: "('p, 'u) task"
  e_heartbeat :: "int \<Rightarrow> 'p"
  e_open_request :: 'p
  e_close_request :: 'p
  e_callback :: "'p call \<Rightarrow> 'u \<Rightarrow> ('u \<times> 'p action list) option"
  e_manager :: "(nat \<Rightarrow> 'u \<Rightarrow> 'u) option"

definition new_session :: "('q, 'p, 'u) sess_env \<Rightarrow> nat \<Rightarrow> u8 list \<Rightarrow> int \<Rightarrow> 'u \<Rightarrow> ('q, 'p, 'u) session" where
  "new_session E i fresh now u =
    \<lparr>s_id = i, is_open = True, send_buf = new_buffer fresh, send_queue = MessageQueue (e_ring E),
     writing = False, wire = [], next_sequenceid = 0, async_request = new_areq,
     alive_time = sint (of_int now :: u32), alive_interval = 20, session_id = 0, upper = u\<rparr>"

definition new_reader :: "u8 list \<Rightarrow> reader" where
  "new_reader fresh = \<lparr>recv_buf = new_buffer fresh, cur_header = new_header, pending_read = None\<rparr>"

section \<open>Upcalls\<close>

text \<open>The callbacks of answered requests, in order; their actions are collected.\<close>

fun run_calls ::
  "('q, 'p, 'u) sess_env \<Rightarrow> 'p call list \<Rightarrow> ('q, 'p, 'u) session \<Rightarrow> (('q, 'p, 'u) session \<times> 'p action list) option" where
  "run_calls E [] s = Some (s, [])"
| "run_calls E (c # cs) s = do {
     (u, acts) \<leftarrow> e_callback E c (upper s);
     (s, acts') \<leftarrow> run_calls E cs (s\<lparr>upper := u\<rparr>);
     Some (s, acts @ acts') }"

definition handle_recv_message ::
  "('q, 'p, 'u) sess_env \<Rightarrow> 'p message \<Rightarrow> ('q, 'p, 'u) session \<Rightarrow> (('q, 'p, 'u) session \<times> 'p action list) option" where
  "handle_recv_message E msg s =
    (if msgtype (m_header msg) = REQUEST_TYPE then do {
       (u, acts) \<leftarrow> do_handle_message (e_heartbeat E) (alive_interval s) (e_task E) msg (upper s);
       Some (s\<lparr>upper := u\<rparr>, acts) }
     else let (a, calls) = on_response_come msg (async_request s)
          in run_calls E calls (s\<lparr>async_request := a\<rparr>))"

definition system_request :: "u32 \<Rightarrow> 'p \<Rightarrow> nat \<Rightarrow> 'p message" where
  "system_request cmd req i =
    \<lparr>m_header = new_header\<lparr>cmdtype := cmd, msgtype := REQUEST_TYPE\<rparr>, m_message = Some req, m_session = Some i\<rparr>"

section \<open>Sending\<close>

definition set_msg_sequenceid ::
  "'p message \<Rightarrow> ('q, 'p, 'u) session \<Rightarrow> 'p message \<times> ('q, 'p, 'u) session" where
  "set_msg_sequenceid msg s =
    (let h = m_header msg;
         h = (if msgtype h = 0 then h\<lparr>msgtype := REQUEST_TYPE\<rparr> else h);
         h = h\<lparr>sequenceid := next_sequenceid s\<rparr>
     in (msg\<lparr>m_header := h\<rparr>, s\<lparr>next_sequenceid := next_sequenceid s + 1\<rparr>))"

text \<open>Two \<^verbatim>\<open>int\<close>s are joined at 32 bits, then everything at the 64 bits of the sequence number.\<close>

definition header_check :: "header \<Rightarrow> u64" where
  "header_check h = scast (cmdtype h OR msgtype h) OR sequenceid h OR scast (body_len h) OR scast (response_result h)"

definition stamp_header :: "nat \<Rightarrow> header \<Rightarrow> header" where
  "stamp_header n h = (let h = h\<lparr>body_len := of_nat n\<rparr> in h\<lparr>check_result := header_check h\<rparr>)"

definition encode :: "('q, 'p, 'u) sess_env \<Rightarrow> 'p message \<Rightarrow> msg_buffer \<Rightarrow> msg_buffer option" where
  "encode E msg b = do {
     pb \<leftarrow> m_message msg;
     let h = stamp_header (length (pb_bytes (e_pb E) pb)) (m_header msg);
     b \<leftarrow> encode_header_length (e_be E) (of_nat (length (hd_bytes (e_pb E) h))) b;
     b \<leftarrow> encode_header (e_pb E) h b;
     encode_message (e_pb E) pb b }"

text \<open>Lengths reach the socket as \<^verbatim>\<open>size_t\<close>; a negative \<^verbatim>\<open>int\<close> becomes huge.\<close>

definition size_of_int :: "int \<Rightarrow> nat" where
  "size_of_int i = unat (of_int i :: u64)"

definition start_write ::
  "('q, 'p, 'u) sess_env \<Rightarrow> 'p message \<Rightarrow> ('q, 'p, 'u) session \<Rightarrow> ('q, 'p, 'u) session option" where
  "start_write E msg s = do {
     b \<leftarrow> encode E msg (send_buf s);
     bytes \<leftarrow> buffer_part 0 (size_of_int (buffer_length b)) b;
     Some (s\<lparr>send_buf := b, wire := wire s @ [bytes], writing := True\<rparr>) }"

type_synonym ('q, 'p, 'u) closer = "('q, 'p, 'u) session \<Rightarrow> ('q, 'p, 'u) session option"

text \<open>
  Writing and closing call each other: a full queue closes the session, and closing runs handlers
  that may write. \<open>close\<close> stands for \<^verbatim>\<open>do_close\<close> in the functions up to \<open>perform_with\<close>.
\<close>

definition do_write_with ::
  "('q, 'p, 'u) closer \<Rightarrow> ('q, 'p, 'u) sess_env \<Rightarrow> 'p message \<Rightarrow> ('q, 'p, 'u) closer" where
  "do_write_with close E msg s =
    (let is_in_write = \<not> mq_is_empty (e_ring E) (send_queue s);
         (pushed, q) = mq_push (e_ring E) msg (send_queue s)
     in if \<not> pushed then close s
        else let s = s\<lparr>send_queue := q\<rparr>
             in if \<not> is_in_write then (if \<not> is_open s then Some s else start_write E msg s)
                else Some s)"

definition do_send_message_with ::
  "('q, 'p, 'u) closer \<Rightarrow> ('q, 'p, 'u) sess_env \<Rightarrow> 'p message \<Rightarrow> ('q, 'p, 'u) closer" where
  "do_send_message_with close E msg s =
    (let (msg, s) = set_msg_sequenceid msg s in do_write_with close E msg s)"

definition do_send_asyn_message_with ::
  "('q, 'p, 'u) closer \<Rightarrow> ('q, 'p, 'u) sess_env \<Rightarrow> nat \<Rightarrow> nat option \<Rightarrow> 'p message \<Rightarrow> ('q, 'p, 'u) closer" where
  "do_send_asyn_message_with close E fun_id io_loop msg s =
    (let msg = msg\<lparr>m_header := (m_header msg)\<lparr>msgtype := REQUEST_TYPE\<rparr>\<rparr>;
         (msg, s) = set_msg_sequenceid msg s;
         s = s\<lparr>async_request := send_request io_loop msg fun_id (async_request s)\<rparr>
     in do_write_with close E msg s)"

definition send_pre_deal :: "'p message \<Rightarrow> bool" where
  "send_pre_deal msg \<longleftrightarrow> cmdtype (m_header msg) = CMD_SHUTDOWN_SESSION"

fun perform1_with ::
  "('q, 'p, 'u) closer \<Rightarrow> ('q, 'p, 'u) sess_env \<Rightarrow> 'p action \<Rightarrow> ('q, 'p, 'u) closer" where
  "perform1_with close E (Send msg) s =
    (if send_pre_deal msg then close s else do_send_message_with close E msg s)"
| "perform1_with close E (Request f l msg) s =
    (if send_pre_deal msg then close s else do_send_asyn_message_with close E f l msg s)"
| "perform1_with close E (Respond msg) s = do_write_with close E msg s"
| "perform1_with close E Close s = close s"

fun perform_with ::
  "('q, 'p, 'u) closer \<Rightarrow> ('q, 'p, 'u) sess_env \<Rightarrow> 'p action list \<Rightarrow> ('q, 'p, 'u) closer" where
  "perform_with close E [] s = Some s"
| "perform_with close E (a # acts) s = do { s \<leftarrow> perform1_with close E a s; perform_with close E acts s }"

text \<open>
  \<^verbatim>\<open>do_close\<close>. The handlers it runs find the socket closed, so a nested \<^verbatim>\<open>do_close\<close> returns at once.
\<close>

definition do_close :: "('q, 'p, 'u) sess_env \<Rightarrow> ('q, 'p, 'u) closer" where
  "do_close E s =
    (if is_open s then
       let s = s\<lparr>is_open := False\<rparr>;
           s = (case e_manager E of None \<Rightarrow> s | Some f \<Rightarrow> s\<lparr>upper := f (s_id s) (upper s)\<rparr>)
       in do {
         (s, acts) \<leftarrow> handle_recv_message E (system_request CMD_SESSION_CLOSE (e_close_request E) (s_id s)) s;
         perform_with Some E acts s }
     else Some s)"

definition do_write :: "('q, 'p, 'u) sess_env \<Rightarrow> 'p message \<Rightarrow> ('q, 'p, 'u) closer" where
  "do_write E = do_write_with (do_close E) E"

definition perform :: "('q, 'p, 'u) sess_env \<Rightarrow> 'p action list \<Rightarrow> ('q, 'p, 'u) closer" where
  "perform E = perform_with (do_close E) E"

definition upcall :: "('q, 'p, 'u) sess_env \<Rightarrow> 'p message \<Rightarrow> ('q, 'p, 'u) closer" where
  "upcall E msg s = do { (s, acts) \<leftarrow> handle_recv_message E msg s; perform E acts s }"

definition do_session_open :: "('q, 'p, 'u) sess_env \<Rightarrow> ('q, 'p, 'u) closer" where
  "do_session_open E s = upcall E (system_request CMD_SESSION_OPEN (e_open_request E) (s_id s)) s"

text \<open>
  The write that completes is the one of the front of the queue. \<open>err\<close> tells that the operation
  failed, was cancelled, or found the socket closed.
\<close>

definition on_write_complete :: "('q, 'p, 'u) sess_env \<Rightarrow> bool \<Rightarrow> ('q, 'p, 'u) closer" where
  "on_write_complete E err s =
    (let s = s\<lparr>writing := False\<rparr>
     in if \<not> err then do {
          _ \<leftarrow> mq_front (e_ring E) (send_queue s);
          let s = s\<lparr>send_queue := snd (mq_pop (e_ring E) (send_queue s))\<rparr>;
          if \<not> mq_is_empty (e_ring E) (send_queue s) then
            if \<not> is_open s then Some s
            else do { msg \<leftarrow> mq_front (e_ring E) (send_queue s); start_write E msg s }
          else Some s }
        else do_close E s)"

section \<open>Liveness check and timers\<close>

definition flush_alive :: "int \<Rightarrow> ('q, 'p, 'u) session \<Rightarrow> ('q, 'p, 'u) session" where
  "flush_alive now s = s\<lparr>alive_time := sint (of_int now :: u32)\<rparr>"

definition is_alive :: "int \<Rightarrow> ('q, 'p, 'u) session \<Rightarrow> bool" where
  "is_alive now s \<longleftrightarrow> alive_time s + alive_interval s > now"

definition do_check_alive :: "('q, 'p, 'u) sess_env \<Rightarrow> int \<Rightarrow> ('q, 'p, 'u) closer" where
  "do_check_alive E now s = (if \<not> is_alive now s then do_close E s else Some s)"

definition set_alive_interval :: "int \<Rightarrow> ('q, 'p, 'u) session \<Rightarrow> ('q, 'p, 'u) session" where
  "set_alive_interval seconds s = s\<lparr>alive_interval := seconds\<rparr>"

definition on_timer :: "('q, 'p, 'u) sess_env \<Rightarrow> u64 \<times> wait \<Rightarrow> ('q, 'p, 'u) closer" where
  "on_timer E w s = do {
     (a, calls) \<leftarrow> run_wait (e_pb E) (e_maker E) w (async_request s);
     (s, acts) \<leftarrow> run_calls E calls (s\<lparr>async_request := a\<rparr>);
     perform E acts s }"

section \<open>Reading\<close>

definition do_read_head_len :: "reader \<Rightarrow> reader" where
  "do_read_head_len r = r\<lparr>pending_read := Some (Head_len, 0, HEADER_LENGTH)\<rparr>"

definition do_read_head ::
  "('q, 'p, 'u) sess_env \<Rightarrow> reader \<times> ('q, 'p, 'u) session \<Rightarrow> (reader \<times> ('q, 'p, 'u) session) option" where
  "do_read_head E = (\<lambda>(r, s).
    (let b = decode_header_length (e_be E) (recv_buf r); r = r\<lparr>recv_buf := b\<rparr>
     in if header_length b > int MSG_BUF_SIZE then do { s \<leftarrow> do_close E s; Some (r, s) }
        else Some (r\<lparr>pending_read := Some (Head, header_buffer b, size_of_int (header_length b))\<rparr>, s)))"

definition on_read_head_len_complete ::
  "('q, 'p, 'u) sess_env \<Rightarrow> bool \<Rightarrow> reader \<times> ('q, 'p, 'u) session \<Rightarrow> (reader \<times> ('q, 'p, 'u) session) option" where
  "on_read_head_len_complete E err rs =
    (if \<not> err then do_read_head E rs
     else do { s \<leftarrow> do_close E (snd rs); Some (fst rs, s) })"

definition tcp_decode_header :: "'p pb_ops \<Rightarrow> reader \<Rightarrow> (bool \<times> reader) option" where
  "tcp_decode_header P r = do {
     (h, b) \<leftarrow> decode_header P (recv_buf r);
     let r = r\<lparr>recv_buf := b, cur_header := (case h of None \<Rightarrow> new_header | Some h \<Rightarrow> h)\<rparr>;
     Some (h \<noteq> None \<and> \<not> buffer_length b > int MSG_BUF_SIZE \<and>
           check_result (cur_header r) XOR header_check (cur_header r) = 0, r) }"

definition do_read_body ::
  "('q, 'p, 'u) sess_env \<Rightarrow> reader \<times> ('q, 'p, 'u) session \<Rightarrow> (reader \<times> ('q, 'p, 'u) session) option" where
  "do_read_body E = (\<lambda>(r, s). do {
     (ok, r) \<leftarrow> tcp_decode_header (e_pb E) r;
     if \<not> ok then do { s \<leftarrow> do_close E s; Some (r, s) }
     else Some (r\<lparr>pending_read := Some (Body, body_buffer (recv_buf r), size_of_int (body_length (recv_buf r)))\<rparr>, s) })"

definition on_read_head_complete ::
  "('q, 'p, 'u) sess_env \<Rightarrow> bool \<Rightarrow> reader \<times> ('q, 'p, 'u) session \<Rightarrow> (reader \<times> ('q, 'p, 'u) session) option" where
  "on_read_head_complete E err rs =
    (if \<not> err then do_read_body E rs
     else do { s \<leftarrow> do_close E (snd rs); Some (fst rs, s) })"

definition make_msg :: "('q, 'p, 'u) sess_env \<Rightarrow> nat \<Rightarrow> reader \<Rightarrow> 'p message option option" where
  "make_msg E i r =
    (case make_message (e_pb E) (e_maker E) (msgtype (cur_header r)) (cmdtype (cur_header r)) of
       None \<Rightarrow> Some None
     | Some pbmsg \<Rightarrow> do {
         parsed \<leftarrow> decode_message (e_pb E) pbmsg (recv_buf r);
         Some (map_option (\<lambda>p. \<lparr>m_header = cur_header r, m_message = Some p, m_session = Some i\<rparr>) parsed) })"

definition on_read_complete ::
  "('q, 'p, 'u) sess_env \<Rightarrow> int \<Rightarrow> bool \<Rightarrow> reader \<times> ('q, 'p, 'u) session \<Rightarrow>
   (reader \<times> ('q, 'p, 'u) session) option" where
  "on_read_complete E now err = (\<lambda>(r, s).
    (if err then do { s \<leftarrow> do_close E s; Some (r, s) }
     else do {
       made \<leftarrow> make_msg E (s_id s) r;
       (case made of
          None \<Rightarrow> do { s \<leftarrow> do_close E s; Some (r, s) }
        | Some msg \<Rightarrow> do {
            s \<leftarrow> upcall E msg (flush_alive now s);
            Some (do_read_head_len r, s) }) }))"

definition start ::
  "('q, 'p, 'u) sess_env \<Rightarrow> int \<Rightarrow> reader \<times> ('q, 'p, 'u) session \<Rightarrow> (reader \<times> ('q, 'p, 'u) session) option" where
  "start E now = (\<lambda>(r, s). do {
     s \<leftarrow> do_session_open E (flush_alive now s);
     Some (do_read_head_len r, s) })"

section \<open>Completion of reads\<close>

text \<open>
  A read completes when all its bytes have come, without error while the socket is open. The
  bytes go to the read's offset in the buffer.
\<close>

definition complete_read ::
  "('q, 'p, 'u) sess_env \<Rightarrow> int \<Rightarrow> bool \<Rightarrow> u8 list \<Rightarrow> reader \<times> ('q, 'p, 'u) session \<Rightarrow>
   (reader \<times> ('q, 'p, 'u) session) option" where
  "complete_read E now err bytes = (\<lambda>(r, s).
    (case pending_read r of
       None \<Rightarrow> Some (r, s)
     | Some (ph, off, n) \<Rightarrow> do {
         b \<leftarrow> put_bytes off bytes (recv_buf r);
         let rs = (r\<lparr>recv_buf := b, pending_read := None\<rparr>, s);
         (case ph of
            Head_len \<Rightarrow> on_read_head_len_complete E err rs
          | Head \<Rightarrow> on_read_head_complete E err rs
          | Body \<Rightarrow> on_read_complete E now err rs) }))"

text \<open>
  The stream of the peer's bytes, fed to at most \<open>k\<close> reads: it stops when the next read has not
  all its bytes yet, and fails when bytes that have come lie outside the buffer.
\<close>

fun feed ::
  "nat \<Rightarrow> ('q, 'p, 'u) sess_env \<Rightarrow> int \<Rightarrow> u8 list \<Rightarrow> reader \<times> ('q, 'p, 'u) session \<Rightarrow>
   ((reader \<times> ('q, 'p, 'u) session) \<times> u8 list) option" where
  "feed 0 E now stream rs = Some (rs, stream)"
| "feed (Suc k) E now stream rs =
    (case pending_read (fst rs) of
       None \<Rightarrow> Some (rs, stream)
     | Some (ph, off, n) \<Rightarrow>
         if \<not> is_open (snd rs) then Some (rs, stream)
         else if length (m_buffer (recv_buf (fst rs))) < off + min n (length stream) then None
         else if length stream < n then Some (rs, stream)
         else do {
           rs \<leftarrow> complete_read E now False (take n stream) rs;
           feed k E now (drop n stream) rs })"

section \<open>Frames\<close>

definition frame :: "'p pb_ops \<Rightarrow> 'p message \<Rightarrow> u8 list" where
  "frame P msg =
    (let pb = pb_bytes P (the (m_message msg)); hb = hd_bytes P (stamp_header (length pb) (m_header msg))
     in store32 True (of_nat (length hb)) @ hb @ pb)"

definition fits :: "'p pb_ops \<Rightarrow> nat \<Rightarrow> 'p message \<Rightarrow> bool" where
  "fits P n msg \<longleftrightarrow> m_message msg \<noteq> None \<and> length (frame P msg) \<le> n"

lemma sint_of_nat32: "n < 2 ^ 31 \<Longrightarrow> sint (of_nat n :: u32) = int n"
  by (simp add: signed_of_nat signed_take_bit_int_eq_self)

lemma unat_of_nat32: "n < 2 ^ 32 \<Longrightarrow> unat (of_nat n :: u32) = n"
  by (simp add: unsigned_of_nat take_bit_nat_eq_self)

lemma size_of_int_nat: "n < 2 ^ 64 \<Longrightarrow> size_of_int (int n) = n"
  by (simp add: size_of_int_def unsigned_of_nat take_bit_nat_eq_self)

lemma frame_encode:
  assumes "fits P (length (m_buffer b)) msg" "e_pb E = P" "length (m_buffer b) < 2 ^ 31"
  shows "\<exists>b'. encode E msg b = Some b' \<and> length (m_buffer b') = length (m_buffer b) \<and>
    buffer_part 0 (size_of_int (buffer_length b')) b' = Some (frame P msg)"
proof -
  from assms(1) obtain p where p: "m_message msg = Some p" by (auto simp: fits_def)
  define pb where "pb = pb_bytes P p"
  define h where "h = stamp_header (length pb) (m_header msg)"
  define hb where "hb = hd_bytes P h"
  have fr: "frame P msg = store32 True (of_nat (length hb)) @ hb @ pb"
    by (simp add: frame_def p pb_def h_def hb_def Let_def)
  with assms(1) have len: "4 + length hb + length pb \<le> length (m_buffer b)" by (simp add: fits_def)
  define b1 where "b1 = b\<lparr>m_header_length := of_nat (length hb), m_buffer := write_at 0 (store32 True (of_nat (length hb))) (m_buffer b)\<rparr>"
  define b2 where "b2 = b1\<lparr>m_msg_length := body_len h, m_buffer := write_at 4 hb (m_buffer b1)\<rparr>"
  define b3 where "b3 = b2\<lparr>m_buffer := write_at (4 + length hb) pb (m_buffer b2)\<rparr>"
  have l1: "length (m_buffer b1) = length (m_buffer b)" using len by (simp add: b1_def length_write_at)
  have l2: "length (m_buffer b2) = length (m_buffer b)" using len l1 by (simp add: b2_def length_write_at)
  have l3: "length (m_buffer b3) = length (m_buffer b)" using len l2 by (simp add: b3_def length_write_at)
  have hl: "unat (m_header_length b2) = length hb"
    using len assms(3) by (simp add: b2_def b1_def unat_of_nat32)
  have "encode E msg b = Some b3"
    using len l1 l2 hl p unfolding encode_def assms(2)
    by (simp add: p pb_def [symmetric] h_def [symmetric] hb_def [symmetric] encode_header_length_def
        encode_header_def encode_message_def put_bytes_def store32_hton32 HEADER_LENGTH_def
        b1_def b2_def b3_def Let_def)
  moreover have "size_of_int (buffer_length b3) = 4 + length hb + length pb"
  proof -
    have "buffer_length b3 = sint (of_nat (4 + length hb + length pb) :: u32)"
      by (simp add: buffer_length_def b3_def b2_def b1_def h_def stamp_header_def HEADER_LENGTH_def Let_def)
    also have "\<dots> = int (4 + length hb + length pb)"
      using len assms(3) by (intro sint_of_nat32) simp
    finally have "size_of_int (buffer_length b3) = size_of_int (int (4 + length hb + length pb))" by simp
    also have "\<dots> = 4 + length hb + length pb"
      using len assms(3) by (intro size_of_int_nat) simp
    finally show ?thesis .
  qed
  moreover have "take (4 + length hb + length pb) (m_buffer b3) = frame P msg"
  proof -
    have "take (4 + length hb + length pb) (m_buffer b3) = take (4 + length hb) (m_buffer b2) @ pb"
      using take_write_at [of "4 + length hb" pb "m_buffer b2"] len l2 by (simp add: b3_def)
    also have "take (4 + length hb) (m_buffer b2) = take 4 (m_buffer b1) @ hb"
      using take_write_at [of 4 hb "m_buffer b1"] len l1 by (simp add: b2_def)
    also have "take 4 (m_buffer b1) = store32 True (of_nat (length hb))"
      using take_write_at [of 0 "store32 True (of_nat (length hb))" "m_buffer b"] len by (simp add: b1_def)
    finally show ?thesis by (simp add: fr)
  qed
  ultimately show ?thesis using len l3 by (intro exI [of _ b3]) (simp add: buffer_part_def)
qed

lemma start_write_frame:
  assumes "fits (e_pb E) (length (m_buffer (send_buf s))) msg" "length (m_buffer (send_buf s)) < 2 ^ 31"
  shows "\<exists>b. start_write E msg s = Some (s\<lparr>send_buf := b, wire := wire s @ [frame (e_pb E) msg], writing := True\<rparr>) \<and>
    length (m_buffer b) = length (m_buffer (send_buf s))"
  using frame_encode [OF assms(1) refl assms(2)] by (auto simp: start_write_def)

section \<open>Reading frames\<close>

definition buffer_ok :: "msg_buffer \<Rightarrow> bool" where
  "buffer_ok b \<longleftrightarrow> length (m_buffer b) = MSG_BUF_SIZE + HEADER_LENGTH"

definition reader_ready :: "reader \<Rightarrow> bool" where
  "reader_ready r \<longleftrightarrow> buffer_ok (recv_buf r) \<and> pending_read r = Some (Head_len, 0, HEADER_LENGTH)"

text \<open>The message the receiver makes of a frame, and what the receiver must know to make it.\<close>

definition received :: "'p pb_ops \<Rightarrow> nat \<Rightarrow> 'p message \<Rightarrow> 'p message" where
  "received P i msg =
    msg\<lparr>m_header := stamp_header (length (pb_bytes P (the (m_message msg)))) (m_header msg), m_session := Some i\<rparr>"

definition acceptable :: "'p pb_ops \<Rightarrow> 'p maker \<Rightarrow> 'p message \<Rightarrow> bool" where
  "acceptable P mk msg \<longleftrightarrow> fits P MSG_BUF_SIZE msg \<and>
     (case make_message P mk (msgtype (m_header msg)) (cmdtype (m_header msg)) of
        None \<Rightarrow> False | Some q \<Rightarrow> pb_new P q = pb_new P (the (m_message msg)))"

lemma header_check_stamp [simp]:
  "check_result (stamp_header n h) = header_check (stamp_header n h)"
  "body_len (stamp_header n h) = of_nat n"
  "msgtype (stamp_header n h) = msgtype h" "cmdtype (stamp_header n h) = cmdtype h"
  by (simp_all add: stamp_header_def header_check_def Let_def)

lemma put_bytes_Some:
  "off + length bytes \<le> length (m_buffer b) \<Longrightarrow> put_bytes off bytes b = Some (b\<lparr>m_buffer := write_at off bytes (m_buffer b)\<rparr>)"
  by (simp add: put_bytes_def)

lemma store32_network: "store32 True w = store32 be (hton32 be w)"
  by (simp add: store32_hton32)

lemma read_frame_head_len:
  assumes "reader_ready r" "n < MSG_BUF_SIZE"
  shows "\<exists>r'. complete_read E now False (store32 True (of_nat n)) (r, s) = Some (r', s) \<and>
    buffer_ok (recv_buf r') \<and> m_header_length (recv_buf r') = of_nat n \<and>
    pending_read r' = Some (Head, HEADER_LENGTH, n)"
proof -
  let ?b = "(recv_buf r)\<lparr>m_buffer := write_at 0 (store32 True (of_nat n)) (m_buffer (recv_buf r))\<rparr>"
  have len: "4 \<le> length (m_buffer (recv_buf r))"
    using assms(1) by (simp add: reader_ready_def buffer_ok_def MSG_BUF_SIZE_def)
  have put: "put_bytes 0 (store32 True (of_nat n)) (recv_buf r) = Some ?b"
    using len by (simp add: put_bytes_Some)
  have "take 4 (m_buffer ?b) = store32 True (of_nat n)"
    using take_write_at [of 0 "store32 True (of_nat n)" "m_buffer (recv_buf r)"] len by simp
  then have dec: "decode_header_length (e_be E) ?b = ?b\<lparr>m_header_length := of_nat n\<rparr>"
    unfolding decode_header_length_def by (simp add: store32_network [of _ "e_be E"])
  have si: "sint (of_nat n :: u32) = int n" "size_of_int (int n) = n"
    using assms(2) by (auto intro!: sint_of_nat32 size_of_int_nat simp: MSG_BUF_SIZE_def)
  have "buffer_ok ?b" using assms(1) len by (simp add: reader_ready_def buffer_ok_def length_write_at)
  then show ?thesis
    using assms put by (simp add: complete_read_def reader_ready_def on_read_head_len_complete_def
        do_read_head_def dec header_length_def si header_buffer_def Let_def buffer_ok_def)
qed

lemma read_frame_head:
  assumes "protobuf (e_pb E)" "buffer_ok (recv_buf r)" "m_header_length (recv_buf r) = of_nat (length hb)"
    and "pending_read r = Some (Head, HEADER_LENGTH, length hb)"
    and "hb = hd_bytes (e_pb E) (stamp_header n h)" "4 + length hb + n \<le> MSG_BUF_SIZE"
  shows "\<exists>r'. complete_read E now False hb (r, s) = Some (r', s) \<and>
    buffer_ok (recv_buf r') \<and> m_header_length (recv_buf r') = of_nat (length hb) \<and>
    m_msg_length (recv_buf r') = of_nat n \<and> cur_header r' = stamp_header n h \<and>
    pending_read r' = Some (Body, 4 + length hb, n)"
proof -
  let ?b = "(recv_buf r)\<lparr>m_buffer := write_at 4 hb (m_buffer (recv_buf r))\<rparr>"
  have len: "4 + length hb \<le> length (m_buffer (recv_buf r))"
    using assms(2,6) by (simp add: buffer_ok_def)
  have put: "put_bytes 4 hb (recv_buf r) = Some ?b"
    using len by (simp add: put_bytes_Some)
  have hl: "unat (of_nat (length hb) :: u32) = length hb" "unat (of_nat n :: u32) = n"
    using assms(6) by (auto intro!: unat_of_nat32 simp: MSG_BUF_SIZE_def)
  have dec: "decode_header (e_pb E) ?b = Some (Some (stamp_header n h), ?b\<lparr>m_msg_length := of_nat n\<rparr>)"
    using buffer_part_write [OF len] protobuf.parse_header [OF assms(1), of "stamp_header n h"]
    by (simp add: decode_header_def assms(3,5) hl [unfolded assms(5)] HEADER_LENGTH_def)
  have bl: "buffer_length (?b\<lparr>m_msg_length := of_nat n\<rparr>) = int (4 + length hb + n)"
    using assms(6) sint_of_nat32 [of "4 + length hb + n"]
    by (simp add: buffer_length_def assms(3) HEADER_LENGTH_def MSG_BUF_SIZE_def)
  have "buffer_ok ?b" using assms(2) len by (simp add: buffer_ok_def length_write_at)
  moreover have "body_length (?b\<lparr>m_msg_length := of_nat n\<rparr>) = int n" "size_of_int (int n) = n"
    using assms(6) by (auto intro!: sint_of_nat32 size_of_int_nat simp: body_length_def MSG_BUF_SIZE_def)
  ultimately show ?thesis
    using assms(3,4,6) put bl
    by (simp add: complete_read_def on_read_head_complete_def do_read_body_def tcp_decode_header_def
        dec body_buffer_def hl HEADER_LENGTH_def buffer_ok_def)
qed

lemma read_frame_body:
  assumes "protobuf (e_pb E)" "buffer_ok (recv_buf r)" "m_header_length (recv_buf r) = of_nat k"
    and "m_msg_length (recv_buf r) = of_nat (length pb)" "pending_read r = Some (Body, 4 + k, length pb)"
    and "cur_header r = stamp_header (length pb) h" "pb = pb_bytes (e_pb E) p"
    and "4 + k + length pb \<le> MSG_BUF_SIZE"
    and "make_message (e_pb E) (e_maker E) (msgtype h) (cmdtype h) = Some q" "pb_new (e_pb E) q = pb_new (e_pb E) p"
  shows "\<exists>r'. complete_read E now False pb (r, s) =
      (case upcall E \<lparr>m_header = stamp_header (length pb) h, m_message = Some p, m_session = Some (s_id s)\<rparr> (flush_alive now s) of
         None \<Rightarrow> None | Some s' \<Rightarrow> Some (r', s')) \<and> reader_ready r'"
proof -
  let ?b = "(recv_buf r)\<lparr>m_buffer := write_at (4 + k) pb (m_buffer (recv_buf r))\<rparr>"
  have len: "4 + k + length pb \<le> length (m_buffer (recv_buf r))"
    using assms(2,8) by (simp add: buffer_ok_def)
  have put: "put_bytes (4 + k) pb (recv_buf r) = Some ?b"
    using len by (simp add: put_bytes_Some)
  have hl: "unat (of_nat k :: u32) = k" "unat (of_nat (length pb) :: u32) = length pb"
    using assms(8) by (auto intro!: unat_of_nat32 simp: MSG_BUF_SIZE_def)
  have "decode_message (e_pb E) q ?b = Some (Some p)"
    using buffer_part_write [OF len] protobuf.parse_bytes [OF assms(1,10)]
    by (simp add: decode_message_def assms(3,4) hl HEADER_LENGTH_def assms(7) [symmetric])
  then have "make_msg E (s_id s) (r\<lparr>recv_buf := ?b, pending_read := None\<rparr>) =
      Some (Some \<lparr>m_header = stamp_header (length pb) h, m_message = Some p, m_session = Some (s_id s)\<rparr>)"
    using assms(6,9) by (simp add: make_msg_def)
  moreover have "reader_ready (do_read_head_len (r\<lparr>recv_buf := ?b, pending_read := None\<rparr>))"
    using assms(2) len by (simp add: reader_ready_def do_read_head_len_def buffer_ok_def length_write_at)
  ultimately show ?thesis
    using put by (intro exI [of _ "do_read_head_len (r\<lparr>recv_buf := ?b, pending_read := None\<rparr>)"])
      (simp add: complete_read_def assms(5) on_read_complete_def split: option.splits)
qed

lemma feed_read:
  assumes "pending_read r = Some (ph, off, length xs)" "is_open s" "buffer_ok (recv_buf r)"
    and "off + length xs \<le> MSG_BUF_SIZE"
  shows "feed (Suc k) E now (xs @ rest) (r, s) =
    do { rs \<leftarrow> complete_read E now False xs (r, s); feed k E now rest rs }"
  using assms by (simp add: buffer_ok_def)

lemma feed_frame:
  assumes P: "protobuf (e_pb E)" and r: "reader_ready r" and s: "is_open s"
    and a: "acceptable (e_pb E) (e_maker E) msg"
  shows "\<exists>r'. reader_ready r' \<and> feed (Suc (Suc (Suc k))) E now (frame (e_pb E) msg @ rest) (r, s) =
    do { s \<leftarrow> upcall E (received (e_pb E) (s_id s) msg) (flush_alive now s); feed k E now rest (r', s) }"
proof -
  from a obtain p q where p: "m_message msg = Some p"
      "make_message (e_pb E) (e_maker E) (msgtype (m_header msg)) (cmdtype (m_header msg)) = Some q"
      "pb_new (e_pb E) q = pb_new (e_pb E) p"
    by (auto simp: acceptable_def fits_def split: option.splits)
  define pb where "pb = pb_bytes (e_pb E) p"
  define hb where "hb = hd_bytes (e_pb E) (stamp_header (length pb) (m_header msg))"
  have fr: "frame (e_pb E) msg = store32 True (of_nat (length hb)) @ hb @ pb"
    by (simp add: frame_def p hb_def pb_def Let_def)
  with a have len: "4 + length hb + length pb \<le> MSG_BUF_SIZE" by (simp add: acceptable_def fits_def)
  then have "length hb < MSG_BUF_SIZE" by simp
  from read_frame_head_len [OF r this, of E now s] obtain r1 where
    r1: "complete_read E now False (store32 True (of_nat (length hb))) (r, s) = Some (r1, s)"
      "buffer_ok (recv_buf r1)" "m_header_length (recv_buf r1) = of_nat (length hb)"
      "pending_read r1 = Some (Head, HEADER_LENGTH, length hb)" by blast
  from read_frame_head [OF P r1(2,3,4) hb_def len, of now s] obtain r2 where
    r2: "complete_read E now False hb (r1, s) = Some (r2, s)" "buffer_ok (recv_buf r2)"
      "m_header_length (recv_buf r2) = of_nat (length hb)" "m_msg_length (recv_buf r2) = of_nat (length pb)"
      "cur_header r2 = stamp_header (length pb) (m_header msg)"
      "pending_read r2 = Some (Body, 4 + length hb, length pb)" by blast
  from read_frame_body [OF P r2(2,3,4,6,5) pb_def len p(2,3), of now s] obtain r3 where
    r3: "complete_read E now False pb (r2, s) =
      (case upcall E \<lparr>m_header = stamp_header (length pb) (m_header msg), m_message = Some p, m_session = Some (s_id s)\<rparr>
         (flush_alive now s) of None \<Rightarrow> None | Some s' \<Rightarrow> Some (r3, s'))" "reader_ready r3" by blast
  have rcv: "received (e_pb E) (s_id s) msg =
      \<lparr>m_header = stamp_header (length pb) (m_header msg), m_message = Some p, m_session = Some (s_id s)\<rparr>"
    by (cases msg) (use p(1) in \<open>simp add: received_def pb_def\<close>)
  have "feed (Suc (Suc (Suc k))) E now (frame (e_pb E) msg @ rest) (r, s) =
      feed (Suc (Suc k)) E now (hb @ pb @ rest) (r1, s)"
    using r s len r1(1) unfolding fr append.assoc
    by (subst feed_read [of r Head_len 0]) (simp_all add: reader_ready_def HEADER_LENGTH_def)
  also have "\<dots> = feed (Suc k) E now (pb @ rest) (r2, s)"
    using s len r1 r2(1) by (subst feed_read [of r1 Head HEADER_LENGTH]) (simp_all add: HEADER_LENGTH_def)
  also have "\<dots> = do { s \<leftarrow> upcall E (received (e_pb E) (s_id s) msg) (flush_alive now s); feed k E now rest (r3, s) }"
    using s len r2 r3(1) by (subst feed_read [of r2 Body "4 + length hb"])
      (simp_all add: rcv split: option.splits)
  finally show ?thesis using r3(2) by blast
qed

text \<open>What the messages do to the session, one after the other, until one of them closes it.\<close>

fun deliver_all ::
  "('q, 'p, 'u) sess_env \<Rightarrow> int \<Rightarrow> 'p message list \<Rightarrow> ('q, 'p, 'u) session \<Rightarrow> ('q, 'p, 'u) session option" where
  "deliver_all E now [] s = Some s"
| "deliver_all E now (m # ms) s =
    (if is_open s then do {
       s \<leftarrow> upcall E (received (e_pb E) (s_id s) m) (flush_alive now s);
       deliver_all E now ms s }
     else Some s)"

lemma feed_frames:
  assumes "protobuf (e_pb E)" "\<forall>m\<in>set ms. acceptable (e_pb E) (e_maker E) m" "reader_ready r"
  shows "case deliver_all E now ms s of
      None \<Rightarrow> feed (3 * length ms) E now (concat (map (frame (e_pb E)) ms) @ rest) (r, s) = None
    | Some v \<Rightarrow> \<exists>r' left. feed (3 * length ms) E now (concat (map (frame (e_pb E)) ms) @ rest) (r, s) = Some ((r', v), left) \<and>
        (is_open v \<longrightarrow> left = rest \<and> reader_ready r')"
  using assms(2,3)
proof (induction ms arbitrary: r s)
  case Nil
  then show ?case by simp
next
  case (Cons m ms)
  have k: "3 * length (m # ms) = Suc (Suc (Suc (3 * length ms)))" by simp
  show ?case
  proof (cases "is_open s")
    case False
    have "feed (Suc n) E now stream (r, s) = Some ((r, s), stream)" for n stream
      using False by (simp split: option.splits)
    then have "feed (3 * length (m # ms)) E now stream (r, s) = Some ((r, s), stream)" for stream
      unfolding k by blast
    with False show ?thesis by (simp del: feed.simps)
  next
    case True
    let ?rest = "concat (map (frame (e_pb E)) ms) @ rest"
    from feed_frame [OF assms(1) Cons.prems(2) True, of m "3 * length ms" now ?rest] Cons.prems(1)
    obtain r' where r': "reader_ready r'"
      "feed (3 * length (m # ms)) E now (concat (map (frame (e_pb E)) (m # ms)) @ rest) (r, s) =
       do { s \<leftarrow> upcall E (received (e_pb E) (s_id s) m) (flush_alive now s);
            feed (3 * length ms) E now ?rest (r', s) }"
      unfolding k by auto
    from Cons.IH [OF _ r'(1)] Cons.prems(1) True show ?thesis
      by (cases "upcall E (received (e_pb E) (s_id s) m) (flush_alive now s)")
        (simp_all only: r'(2) deliver_all.simps if_True Option.bind.simps option.case, simp)
  qed
qed

end
