(* ===== verification/Session_Correct.thy ===== *)
theory Session_Correct
  imports Tcp_Session
begin

text \<open>
  What a session guarantees: frames are read back as the messages they were made of, messages
  leave in the order they were written with one write outstanding, and which lengths in a frame
  lead outside the receive buffer.
\<close>

section \<open>Writing in order\<close>

lemma run_calls_keeps:
  "run_calls E cs s = Some (s', acts) \<Longrightarrow> wire s' = wire s \<and> is_open s' = is_open s"
proof (induction cs arbitrary: s acts)
  case (Cons c cs)
  then show ?case by (fastforce split: bind_splits)
qed simp

lemma handle_recv_keeps:
  "handle_recv_message E msg s = Some (s', acts) \<Longrightarrow> wire s' = wire s \<and> is_open s' = is_open s"
  by (auto simp: handle_recv_message_def split_beta dest!: run_calls_keeps split: if_splits bind_splits)

lemma closed_write_keeps:
  "do_write_with Some E msg s = Some s' \<Longrightarrow> \<not> is_open s \<Longrightarrow> wire s' = wire s \<and> \<not> is_open s'"
  by (auto simp: do_write_with_def Let_def split_beta split: if_splits)

lemma closed_perform_keeps:
  "perform_with Some E acts s = Some s' \<Longrightarrow> \<not> is_open s \<Longrightarrow> wire s' = wire s \<and> \<not> is_open s'"
proof (induction acts arbitrary: s)
  case (Cons a acts)
  then obtain t where t: "perform1_with Some E a s = Some t" "perform_with Some E acts t = Some s'"
    by (auto split: bind_splits)
  have "wire t = wire s \<and> \<not> is_open t"
    using t(1) Cons.prems(2)
    by (cases a) (auto simp: do_send_message_with_def do_send_asyn_message_with_def set_msg_sequenceid_def
        Let_def dest!: closed_write_keeps split: if_splits)
  with Cons.IH [OF t(2)] show ?case by simp
qed simp

lemma do_close_keeps: "do_close E s = Some s' \<Longrightarrow> wire s' = wire s \<and> \<not> is_open s'"
  by (auto simp: do_close_def Let_def split: if_splits bind_splits option.splits
      dest!: handle_recv_keeps closed_perform_keeps)

text \<open>Write requests and the completions of the outstanding write, in any order.\<close>

datatype 'p wr_event = Write "'p message" | Written

fun written :: "'p wr_event list \<Rightarrow> 'p message list" where
  "written [] = []"
| "written (Write m # es) = m # written es"
| "written (Written # es) = written es"

fun run_writes ::
  "('q, 'p, 'u) sess_env \<Rightarrow> 'p wr_event list \<Rightarrow> ('q, 'p, 'u) session \<Rightarrow> ('q, 'p, 'u) session option" where
  "run_writes E [] s = Some s"
| "run_writes E (Write m # es) s = do { s \<leftarrow> do_write E m s; run_writes E es s }"
| "run_writes E (Written # es) s =
    (if writing s then do { s \<leftarrow> on_write_complete E False s; run_writes E es s } else run_writes E es s)"

text \<open>
  \<open>ms\<close> are the messages written so far, the first \<open>d\<close> of them are done; the queue holds the
  others and the first of those is the outstanding write. A closed session only keeps that its
  output is a prefix.
\<close>

definition wr_inv ::
  "('q, 'p, 'u) sess_env \<Rightarrow> ('q \<Rightarrow> 'p message list) \<Rightarrow> ('q \<Rightarrow> bool) \<Rightarrow> 'p message list \<Rightarrow> ('q, 'p, 'u) session \<Rightarrow> bool" where
  "wr_inv E elems ok ms s \<longleftrightarrow>
     (if is_open s then
        ok (send_queue s) \<and> buffer_ok (send_buf s) \<and> writing s = (elems (send_queue s) \<noteq> []) \<and>
        (\<exists>d\<le>length ms. elems (send_queue s) = drop d ms \<and>
           wire s = map (frame (e_pb E)) (take (d + (if writing s then 1 else 0)) ms))
      else (\<exists>k. wire s = map (frame (e_pb E)) (take k ms)))"

lemma wr_inv_closed:
  assumes "wr_inv E elems ok ms s" "wire s' = wire s" "\<not> is_open s'"
  shows "wr_inv E elems ok (ms @ ms') s'"
proof -
  from assms(1) obtain k where "wire s = map (frame (e_pb E)) (take k ms)"
    by (auto simp: wr_inv_def split: if_splits)
  then have "wire s' = map (frame (e_pb E)) (take (min k (length ms)) (ms @ ms'))"
    using assms(2) by (auto simp: min_def)
  with assms(3) show ?thesis unfolding wr_inv_def if_not_P [OF assms(3)] by blast
qed

locale session_ring = circular_buffer "e_ring E" elems cap
  for E :: "('q, 'p, 'u) sess_env" and elems :: "'q \<Rightarrow> 'p message list" and cap :: "'q \<Rightarrow> nat"
begin

lemma start_write_inv:
  assumes "start_write E m s = Some s'" "is_open s" "queue_ok (send_queue s)" "buffer_ok (send_buf s)"
    and "fits (e_pb E) (MSG_BUF_SIZE + HEADER_LENGTH) m"
    and "elems (send_queue s) = drop d ms" "d < length ms" "m = ms ! d"
    and "wire s = map (frame (e_pb E)) (take d ms)"
  shows "wr_inv E elems queue_ok ms s'"
proof -
  have "fits (e_pb E) (length (m_buffer (send_buf s))) m" "length (m_buffer (send_buf s)) < 2 ^ 31"
    using assms(4,5) by (auto simp: buffer_ok_def MSG_BUF_SIZE_def HEADER_LENGTH_def)
  from start_write_frame [OF this] assms(1) obtain b where
    s': "s' = s\<lparr>send_buf := b, wire := wire s @ [frame (e_pb E) m], writing := True\<rparr>"
    "length (m_buffer b) = length (m_buffer (send_buf s))" by auto
  show ?thesis unfolding wr_inv_def
    using assms s' by (auto simp: buffer_ok_def take_Suc_conv_app_nth intro!: exI [of _ d])
qed

lemma write_inv:
  assumes "wr_inv E elems queue_ok ms s" "do_write E m s = Some s'"
    and "fits (e_pb E) (MSG_BUF_SIZE + HEADER_LENGTH) m"
  shows "wr_inv E elems queue_ok (ms @ [m]) s'"
proof (cases "is_open s")
  case False
  then have "do_write E m s = do_write_with Some E m s"
    by (simp add: do_write_def do_write_with_def do_close_def Let_def split_beta)
  with assms(2) False show ?thesis using closed_write_keeps wr_inv_closed [OF assms(1)] by metis
next
  case True
  with assms(1) obtain d where
    inv: "queue_ok (send_queue s)" "buffer_ok (send_buf s)" "writing s = (elems (send_queue s) \<noteq> [])"
      "d \<le> length ms" "elems (send_queue s) = drop d ms"
      "wire s = map (frame (e_pb E)) (take (d + (if writing s then 1 else 0)) ms)"
    by (auto simp: wr_inv_def)
  note push = queue.push [OF inv(1), of m]
  show ?thesis
  proof (cases "fst (mq_push (e_ring E) m (send_queue s))")
    case False
    with assms(2) have "do_close E s = Some s'"
      by (simp add: do_write_def do_write_with_def Let_def split_beta)
    then show ?thesis using do_close_keeps wr_inv_closed [OF assms(1)] by metis
  next
    case pushed: True
    let ?s = "s\<lparr>send_queue := snd (mq_push (e_ring E) m (send_queue s))\<rparr>"
    have q: "elems (send_queue ?s) = drop d (ms @ [m])" "queue_ok (send_queue ?s)"
      using push pushed inv(4,5) by simp_all
    show ?thesis
    proof (cases "elems (send_queue s) = []")
      case False
      with assms(2) pushed have "s' = ?s"
        using inv(1) by (simp add: do_write_def do_write_with_def Let_def split_beta)
      moreover have "d < length ms" using False inv(5) by simp
      ultimately show ?thesis unfolding wr_inv_def
        using True inv q False by (auto intro!: exI [of _ d])
    next
      case empty: True
      with assms(2) pushed True have "start_write E m ?s = Some s'"
        using inv(1) by (simp add: do_write_def do_write_with_def Let_def split_beta)
      moreover have "d = length ms" using empty inv(4,5) by simp
      ultimately show ?thesis
        using start_write_inv [of m ?s s' d "ms @ [m]"] True inv q empty assms(3) by simp
    qed
  qed
qed

lemma written_inv:
  assumes "wr_inv E elems queue_ok ms s" "on_write_complete E False s = Some s'"
    and "writing s" "\<forall>m\<in>set ms. fits (e_pb E) (MSG_BUF_SIZE + HEADER_LENGTH) m"
  shows "wr_inv E elems queue_ok ms s'"
proof (cases "is_open s")
  case False
  with assms(2) have "wire s' = wire s \<and> \<not> is_open s'"
    by (auto simp: on_write_complete_def Let_def split: if_splits bind_splits)
  with wr_inv_closed [OF assms(1), of s' "[]"] show ?thesis by simp
next
  case True
  have "queue_ok (send_queue s) \<and> buffer_ok (send_buf s) \<and> elems (send_queue s) \<noteq> [] \<and>
      (\<exists>d\<le>length ms. elems (send_queue s) = drop d ms \<and> wire s = map (frame (e_pb E)) (take (Suc d) ms))"
    using assms(1) [unfolded wr_inv_def if_P [OF True]] assms(3) by simp
  then obtain d where
    inv: "queue_ok (send_queue s)" "buffer_ok (send_buf s)" "elems (send_queue s) \<noteq> []"
      "elems (send_queue s) = drop d ms" "wire s = map (frame (e_pb E)) (take (Suc d) ms)"
    by blast
  let ?q = "snd (mq_pop (e_ring E) (send_queue s))"
  let ?s = "s\<lparr>writing := False, send_queue := ?q\<rparr>"
  have q: "elems ?q = drop (Suc d) ms" "queue_ok ?q"
    using queue.pop [OF inv(1)] inv(4) by (simp_all add: drop_Suc tl_drop)
  have front: "mq_front (e_ring E) (send_queue s) \<noteq> None"
    using queue.front [OF inv(1)] inv(3) by (auto split: list.splits)
  show ?thesis
  proof (cases "elems ?q = []")
    case empty: True
    with assms(2) front q have "s' = ?s"
      by (auto simp: on_write_complete_def Let_def split: bind_splits)
    moreover have "d < length ms" using inv(3,4) by simp
    ultimately show ?thesis unfolding wr_inv_def
      using True inv q empty by (auto intro!: exI [of _ "Suc d"])
  next
    case False
    then have d: "Suc d < length ms" using q by simp
    then have f: "mq_front (e_ring E) ?q = Some (ms ! Suc d)"
      using queue.front [OF q(2)] q(1) by (simp add: Cons_nth_drop_Suc [symmetric])
    have "start_write E (ms ! Suc d) ?s = Some s'"
      using assms(2) front f q False True
      by (auto simp: on_write_complete_def Let_def split: bind_splits)
    then show ?thesis
      using start_write_inv [of "ms ! Suc d" ?s s' "Suc d" ms] True inv q d assms(4) by simp
  qed
qed

lemma run_writes_inv:
  assumes "wr_inv E elems queue_ok ms s" "run_writes E evs s = Some s'"
    and "\<forall>m\<in>set ms \<union> set (written evs). fits (e_pb E) (MSG_BUF_SIZE + HEADER_LENGTH) m"
  shows "wr_inv E elems queue_ok (ms @ written evs) s'"
  using assms
proof (induction evs arbitrary: ms s rule: written.induct)
  case (2 m es)
  from "2.prems"(2) obtain t where t: "do_write E m s = Some t" "run_writes E es t = Some s'"
    by (auto split: bind_splits)
  have "wr_inv E elems queue_ok (ms @ [m]) t"
    using write_inv [OF "2.prems"(1) t(1)] "2.prems"(3) by simp
  from "2.IH" [OF this t(2)] "2.prems"(3) show ?case by simp
next
  case (3 es)
  show ?case
  proof (cases "writing s")
    case True
    with "3.prems"(2) obtain t where t: "on_write_complete E False s = Some t" "run_writes E es t = Some s'"
      by (auto split: bind_splits)
    have "wr_inv E elems queue_ok ms t"
      using written_inv [OF "3.prems"(1) t(1) True] "3.prems"(3) by simp
    from "3.IH" [OF this t(2)] "3.prems"(3) show ?thesis by simp
  next
    case False
    with 3 show ?thesis by simp
  qed
qed simp

lemma wr_inv_new:
  "length fresh = MSG_BUF_SIZE + HEADER_LENGTH \<Longrightarrow>
   wr_inv E elems queue_ok [] (new_session E i fresh now u)"
  by (simp add: wr_inv_def new_session_def queue_ok_new buffer_ok_def new_buffer_def)

end

section \<open>Lengths of frames\<close>

lemma unat_lt32: "unat (w :: u32) < 2 ^ 32"
  using unsigned_less [of w, where ?'a = nat] by simp

lemma sint32: "sint (w :: u32) = (if unat w < 2 ^ 31 then int (unat w) else int (unat w) - 2 ^ 32)"
proof -
  have w: "of_nat (unat w) = w" "unat w < 2 ^ 32" by (simp, rule unat_lt32)
  have "sint (of_nat n :: u32) = (if n < 2 ^ 31 then int n else int n - 2 ^ 32)" if "n < 2 ^ 32" for n
  proof (cases "n < 2 ^ 31")
    case True
    then show ?thesis by (simp add: sint_of_nat32)
  next
    case False
    have "(of_int (int n) :: u32) = of_int (int n - 2 ^ 32)"
      by (simp only: word_of_int_eq_iff take_bit_eq_mod) simp
    then have "sint (of_nat n :: u32) = sint (of_int (int n - 2 ^ 32) :: u32)" by (simp only: of_int_of_nat_eq)
    also have "\<dots> = int n - 2 ^ 32"
      using False that by (simp only: signed_of_int) (simp add: signed_take_bit_int_eq_self)
    finally show ?thesis using False by simp
  qed
  from this [OF w(2)] show ?thesis by (simp only: w(1))
qed

lemma size_of_negative:
  assumes "2 ^ 31 \<le> unat (w :: u32)"
  shows "2 ^ 63 \<le> size_of_int (sint w)"
proof -
  have "size_of_int (sint w) = nat (take_bit 64 (int (unat w) - 2 ^ 32))"
    using assms by (simp only: sint32 size_of_int_def not_less [symmetric] if_False)
      (simp only: unsigned_of_int take_bit_nat_def nat_take_bit_eq; simp)
  also have "take_bit 64 (int (unat w) - 2 ^ 32) = int (unat w) - 2 ^ 32 + 2 ^ 64"
  proof -
    have "0 \<le> int n - 2 ^ 32 + 2 ^ 64 \<and> int n - 2 ^ 32 + 2 ^ 64 < 2 ^ 64" if "n < 2 ^ 32" for n :: nat
      using that by simp
    then have "(int (unat w) - 2 ^ 32 + 2 ^ 64) mod 2 ^ 64 = int (unat w) - 2 ^ 32 + 2 ^ 64"
      using unat_lt32 [of w] by (intro mod_pos_pos_trivial) blast+
    then show ?thesis by (simp only: take_bit_eq_mod mod_add_self2)
  qed
  finally have "size_of_int (sint w) = nat (int (unat w) - 2 ^ 32 + 2 ^ 64)" .
  moreover have "2 ^ 63 \<le> nat (int n - 2 ^ 32 + 2 ^ 64)" for n :: nat by simp
  ultimately show ?thesis by metis
qed

lemma size_of_positive: "unat (w :: u32) < 2 ^ 31 \<Longrightarrow> size_of_int (sint w) = unat w"
  by (simp only: sint32 if_True) (rule size_of_int_nat, simp)

lemma body_guard:
  fixes hl ml :: u32
  assumes "unat hl \<le> 131072" "sint (4 + hl + ml) \<le> 131072"
  shows "4 + unat hl + size_of_int (sint ml) \<le> 131076 \<longleftrightarrow> 4 + unat hl + unat ml < 2 ^ 31"
proof
  assume "4 + unat hl + size_of_int (sint ml) \<le> 131076"
  then show "4 + unat hl + unat ml < 2 ^ 31"
    using size_of_negative [of ml] size_of_positive [of ml] by (cases "unat ml < 2 ^ 31") auto
next
  assume small: "4 + unat hl + unat ml < 2 ^ 31"
  have "unat (4 + hl + ml) = 4 + unat hl + unat ml"
  proof -
    have "4 + hl + ml = of_nat (4 + unat hl + unat ml)" by simp
    moreover have "4 + unat hl + unat ml < 2 ^ 32" using small by simp
    ultimately show ?thesis by (metis unat_of_nat32)
  qed
  then have "sint (4 + hl + ml) = int (4 + unat hl + unat ml)"
    using small by (simp only: sint32 if_True)
  with assms(2) have "4 + unat hl + unat ml \<le> 131072" by linarith
  with small show "4 + unat hl + size_of_int (sint ml) \<le> 131076"
    using size_of_positive [of ml] by simp
qed

lemma head_guard:
  fixes hl :: u32
  assumes "sint hl \<le> 131072"
  shows "4 + size_of_int (sint hl) \<le> 131076 \<longleftrightarrow> unat hl < 2 ^ 31"
proof (cases "unat hl < 2 ^ 31")
  case True
  then have "sint hl = int (unat hl)" by (simp only: sint32 if_True)
  with assms have "unat hl \<le> 131072" by linarith
  with True show ?thesis by (simp only: size_of_positive) simp
next
  case False
  then show ?thesis using size_of_negative [of hl] by simp
qed

section \<open>A concrete surrounding\<close>

text \<open>
  Headers as eight 32-bit fields in network order, bodies as they are: an instance of the
  \<open>protobuf\<close> laws, and with the list ring an instance of the surrounding of a session.
\<close>

definition fixed_parse :: "u8 list \<Rightarrow> header" where
  "fixed_parse bs = \<lparr>cmdtype = load32 True (take 4 bs), msgtype = load32 True (take 4 (drop 4 bs)),
     sequenceid = push_bit 32 (ucast (load32 True (take 4 (drop 8 bs)))) OR ucast (load32 True (take 4 (drop 12 bs))),
     body_len = load32 True (take 4 (drop 16 bs)),
     check_result = push_bit 32 (ucast (load32 True (take 4 (drop 20 bs)))) OR ucast (load32 True (take 4 (drop 24 bs))),
     response_result = load32 True (take 4 (drop 28 bs))\<rparr>"

definition fixed_bytes :: "header \<Rightarrow> u8 list" where
  "fixed_bytes h = store32 True (cmdtype h) @ store32 True (msgtype h) @
     store32 True (ucast (drop_bit 32 (sequenceid h))) @ store32 True (ucast (sequenceid h)) @
     store32 True (body_len h) @
     store32 True (ucast (drop_bit 32 (check_result h))) @ store32 True (ucast (check_result h)) @
     store32 True (response_result h)"

definition fixed_pb :: "u8 list pb_ops" where
  "fixed_pb = \<lparr>pb_new = (\<lambda>p. []), pb_bytes = (\<lambda>p. p), pb_parse = (\<lambda>p bs. Some bs),
     hd_bytes = fixed_bytes, hd_parse = (\<lambda>bs. Some (fixed_parse bs))\<rparr>"

lemma join64: "push_bit 32 (ucast (ucast (drop_bit 32 w) :: u32)) OR ucast (ucast w :: u32) = (w :: u64)"
  by (rule bit_word_eqI) (auto simp: bit_or_iff bit_push_bit_iff bit_ucast_iff bit_drop_bit_eq not_less
      dest: bit_imp_le_length)

interpretation fixed: protobuf fixed_pb
proof
  show "hd_parse fixed_pb (hd_bytes fixed_pb h) = Some h" for h
    by (cases h) (simp add: fixed_pb_def fixed_parse_def fixed_bytes_def join64)
qed (simp_all add: fixed_pb_def)

definition demo_env :: "(u8 list message list \<times> nat, u8 list, u8 list message list) sess_env" where
  "demo_env = \<lparr>e_be = False, e_pb = fixed_pb,
     e_maker = register_message fixed_pb 40 [] [] \<lparr>cmd_request = Map.empty, cmd_response = Map.empty, cmd_names = Map.empty\<rparr>,
     e_ring = list_ring,
     e_task = register_msg_handler 40 (\<lambda>m u. Some (u @ [m], [])) MessageTask,
     e_heartbeat = (\<lambda>i. []), e_open_request = [], e_close_request = [],
     e_callback = (\<lambda>c u. Some (u, [])), e_manager = None\<rparr>"

interpretation demo: session_ring demo_env fst snd
  using list_ring.circular_buffer_axioms by (simp add: session_ring_def demo_env_def)

definition demo_buffer :: "u8 list" where
  "demo_buffer = replicate (MSG_BUF_SIZE + HEADER_LENGTH) 7"

definition demo_msg :: "u8 list message" where
  "demo_msg = \<lparr>m_header = new_header\<lparr>cmdtype := 40, msgtype := 1, sequenceid := 3\<rparr>, m_message = Some [10, 20],
     m_session = None\<rparr>"

definition demo_session :: "(u8 list message list \<times> nat, u8 list, u8 list message list) session" where
  "demo_session = new_session demo_env 1 demo_buffer 0 []"

definition demo_reader :: reader where
  "demo_reader = do_read_head_len (new_reader demo_buffer)"

lemma demo_ready: "reader_ready demo_reader"
  by (simp add: demo_reader_def reader_ready_def do_read_head_len_def new_reader_def new_buffer_def
      demo_buffer_def buffer_ok_def HEADER_LENGTH_def)

lemma demo_frame_length: "length (frame fixed_pb m) = 36 + length (the (m_message m))"
  by (simp add: frame_def fixed_pb_def fixed_bytes_def Let_def)

lemma demo_parts [simp]: "e_pb demo_env = fixed_pb" "e_ring demo_env = list_ring" "e_be demo_env = False"
  by (simp_all add: demo_env_def)

lemma demo_fits: "fits fixed_pb n demo_msg \<longleftrightarrow> 38 \<le> n"
  by (simp add: fits_def demo_frame_length) (simp add: demo_msg_def)

lemma demo_acceptable: "acceptable (e_pb demo_env) (e_maker demo_env) demo_msg"
proof -
  have "make_message fixed_pb (e_maker demo_env) (msgtype (m_header demo_msg)) (cmdtype (m_header demo_msg)) = Some []"
    by (simp add: demo_env_def demo_msg_def make_message_def make_request_message_def register_message_def
        REQUEST_TYPE_def fixed_pb_def)
  then show ?thesis by (simp add: acceptable_def demo_fits MSG_BUF_SIZE_def) (simp add: fixed_pb_def)
qed

section \<open>Properties\<close>

text \<open>
  C18. Frames round-trip: when the peer's bytes are the encodings of messages whose commands the
  receiver knows and that fit its buffer, a reading session takes exactly those bytes, in three reads for
  each message, and makes one upcall for each message, in order, with its body and its header (length and check
  filled in by the sender), until an upcall closes the session. How the bytes are cut into
  packets makes no difference.
\<close>

theorem frames_roundtrip:
  assumes "protobuf (e_pb E)" "\<forall>m\<in>set ms. acceptable (e_pb E) (e_maker E) m" "reader_ready r"
  shows "case deliver_all E now ms s of
      None \<Rightarrow> feed (3 * length ms) E now (concat (map (frame (e_pb E)) ms) @ rest) (r, s) = None
    | Some v \<Rightarrow> \<exists>r' left. feed (3 * length ms) E now (concat (map (frame (e_pb E)) ms) @ rest) (r, s) = Some ((r', v), left) \<and>
        (is_open v \<longrightarrow> left = rest \<and> reader_ready r')"
  using assms by (rule feed_frames)

lemma frames_roundtrip_witness:
  "\<exists>r' v. feed 3 demo_env 0 (frame fixed_pb demo_msg) (demo_reader, demo_session) = Some ((r', v), []) \<and>
     upper v = [received fixed_pb 1 demo_msg]"
proof -
  have "deliver_all demo_env 0 [demo_msg] demo_session = Some (demo_session\<lparr>upper := [received fixed_pb 1 demo_msg]\<rparr>)"
    by (simp add: demo_session_def new_session_def upcall_def handle_recv_message_def received_def demo_msg_def
        REQUEST_TYPE_def do_handle_message_def demo_env_def register_msg_handler_def MessageTask_def perform_def
        flush_alive_def CMD_SESSION_OPEN_def CMD_SESSION_CLOSE_def CMD_HEARTBEAT_def)
  moreover have "is_open demo_session" by (simp add: demo_session_def new_session_def)
  ultimately show ?thesis
    using frames_roundtrip [of demo_env "[demo_msg]" demo_reader 0 "[]" demo_session]
      demo_acceptable demo_ready fixed.protobuf_axioms by auto
qed

text \<open>
  C19. Messages leave in order, one write at a time: whatever the order of write requests and write
  completions, what a session has handed to its socket is the sequence of the encodings of the first
  messages written, none skipped, repeated or reordered; while it is open, a write is outstanding
  exactly when messages are queued, and exactly the queued messages after the first are not yet
  handed over.
\<close>

theorem messages_leave_in_order:
  fixes s' :: "('q, 'p, 'u) session"
  assumes "circular_buffer (e_ring E) elems cap" "length fresh = MSG_BUF_SIZE + HEADER_LENGTH"
    and "\<forall>m\<in>set (written evs). fits (e_pb E) (MSG_BUF_SIZE + HEADER_LENGTH) m"
    and "run_writes E evs (new_session E i fresh now u) = Some s'"
  shows "(\<exists>k. wire s' = map (frame (e_pb E)) (take k (written evs))) \<and>
    (is_open s' \<longrightarrow> writing s' = (elems (send_queue s') \<noteq> []) \<and>
       length (wire s') + length (tl (elems (send_queue s'))) = length (written evs))"
proof -
  note ring = assms(1) [folded session_ring_def [of E elems cap]]
  have inv: "wr_inv E elems (circular_buffer.queue_ok elems cap) (written evs) s'"
    using session_ring.run_writes_inv [OF ring session_ring.wr_inv_new [OF ring assms(2)] assms(4)] assms(3)
    by simp
  show ?thesis
  proof (cases "is_open s'")
    case False
    with inv show ?thesis unfolding wr_inv_def by simp
  next
    case True
    from inv [unfolded wr_inv_def if_P [OF True]] obtain d where
      d: "writing s' = (elems (send_queue s') \<noteq> [])" "d \<le> length (written evs)"
        "elems (send_queue s') = drop d (written evs)"
        "wire s' = map (frame (e_pb E)) (take (d + (if writing s' then 1 else 0)) (written evs))"
      by (elim conjE exE) (rule that)
    have "writing s' \<longleftrightarrow> d < length (written evs)"
      by (simp only: d(1) d(3) drop_eq_Nil not_le)
    moreover have "length (wire s') = min (length (written evs)) (d + (if writing s' then 1 else 0))"
      by (subst d(4)) (simp only: length_map length_take)
    moreover have "length (tl (elems (send_queue s'))) = length (written evs) - d - 1"
      by (simp only: d(3) length_tl length_drop)
    ultimately have "length (wire s') + length (tl (elems (send_queue s'))) = length (written evs)"
      using d(2) by (simp only: min_def split: if_split) arith
    with d(1,4) show ?thesis by blast
  qed
qed

lemma demo_writes: "\<exists>s'. run_writes demo_env [Write demo_msg, Write demo_msg] demo_session = Some s'"
proof -
  let ?s = "demo_session\<lparr>send_queue := ([demo_msg], 256)\<rparr>"
  have "fits (e_pb demo_env) (length (m_buffer (send_buf ?s))) demo_msg"
    "length (m_buffer (send_buf ?s)) < 2 ^ 31"
    by (simp_all add: demo_fits demo_session_def new_session_def new_buffer_def demo_buffer_def MSG_BUF_SIZE_def
        HEADER_LENGTH_def)
  from start_write_frame [OF this] obtain b where
    b: "start_write demo_env demo_msg ?s = Some (?s\<lparr>send_buf := b, wire := wire ?s @ [frame fixed_pb demo_msg], writing := True\<rparr>)"
    by auto
  have "send_queue demo_session = ([], 256)" "is_open demo_session"
    by (simp_all add: demo_session_def new_session_def MessageQueue_def list_ring_def INIT_SIZE_def)
  then show ?thesis
    using b by (simp add: do_write_def do_write_with_def mq_is_empty_def mq_push_def list_ring_def Let_def)
qed

lemma messages_leave_in_order_witness:
  "\<exists>s' k. run_writes demo_env [Write demo_msg, Write demo_msg] (new_session demo_env 1 demo_buffer 0 []) = Some s' \<and>
     wire s' = map (frame fixed_pb) (take k [demo_msg, demo_msg])"
proof -
  obtain s' where s': "run_writes demo_env [Write demo_msg, Write demo_msg] (new_session demo_env 1 demo_buffer 0 []) = Some s'"
    using demo_writes by (auto simp: demo_session_def)
  have "length demo_buffer = MSG_BUF_SIZE + HEADER_LENGTH" by (simp add: demo_buffer_def)
  from messages_leave_in_order [OF demo.circular_buffer_axioms this _ s'] show ?thesis
    using s' by (auto simp: demo_fits MSG_BUF_SIZE_def)
qed

text \<open>
  C21. Which announced lengths stay inside the receive buffer: after the length word has passed the
  test of \<^verbatim>\<open>do_read_head\<close>, the header read fits the buffer exactly when the word is below \<open>2 ^ 31\<close>; after a
  header has passed all tests of \<^verbatim>\<open>decode_header\<close>, the body read fits exactly when the true sum of the
  lengths is below \<open>2 ^ 31\<close>. The tests compare signed and wrapped values, so words and sums above that pass them.
\<close>

theorem announced_lengths_guard:
  fixes r r' :: reader
  assumes "buffer_ok (recv_buf r)" "header_length (recv_buf r) \<le> int MSG_BUF_SIZE"
  shows "(header_buffer (recv_buf r) + size_of_int (header_length (recv_buf r)) \<le> length (m_buffer (recv_buf r)) \<longleftrightarrow>
        unat (m_header_length (recv_buf r)) < 2 ^ 31) \<and>
    (tcp_decode_header P r = Some (True, r') \<longrightarrow>
      (body_buffer (recv_buf r') + size_of_int (body_length (recv_buf r')) \<le> length (m_buffer (recv_buf r')) \<longleftrightarrow>
        HEADER_LENGTH + unat (m_header_length (recv_buf r)) + unat (body_len (cur_header r')) < 2 ^ 31))"
proof (intro conjI impI)
  show "header_buffer (recv_buf r) + size_of_int (header_length (recv_buf r)) \<le> length (m_buffer (recv_buf r)) \<longleftrightarrow>
        unat (m_header_length (recv_buf r)) < 2 ^ 31"
    using assms head_guard [of "m_header_length (recv_buf r)"]
    by (simp only: header_buffer_def header_length_def buffer_ok_def HEADER_LENGTH_def MSG_BUF_SIZE_def) simp
next
  assume dec: "tcp_decode_header P r = Some (True, r')"
  then obtain h where h: "hd_parse P (take (unat (m_header_length (recv_buf r))) (drop HEADER_LENGTH (m_buffer (recv_buf r)))) = Some h"
      "r' = r\<lparr>recv_buf := (recv_buf r)\<lparr>m_msg_length := body_len h\<rparr>, cur_header := h\<rparr>"
      "HEADER_LENGTH + unat (m_header_length (recv_buf r)) \<le> length (m_buffer (recv_buf r))"
      "sint (of_nat HEADER_LENGTH + m_header_length (recv_buf r) + body_len h) \<le> int MSG_BUF_SIZE"
    by (auto simp: tcp_decode_header_def decode_header_def buffer_part_def buffer_length_def Let_def
        split: bind_splits if_splits option.splits)
  with assms body_guard [of "m_header_length (recv_buf r)" "body_len h"]
  show "body_buffer (recv_buf r') + size_of_int (body_length (recv_buf r')) \<le> length (m_buffer (recv_buf r')) \<longleftrightarrow>
        HEADER_LENGTH + unat (m_header_length (recv_buf r)) + unat (body_len (cur_header r')) < 2 ^ 31"
    by (simp only: body_buffer_def body_length_def buffer_ok_def HEADER_LENGTH_def MSG_BUF_SIZE_def) simp
qed

definition attack_header :: header where
  "attack_header = \<lparr>cmdtype = 40, msgtype = 1, sequenceid = 0, body_len = -1, check_result = -1, response_result = 0\<rparr>"

definition attack_reader :: reader where
  "attack_reader = (new_reader demo_buffer)\<lparr>recv_buf := \<lparr>m_header_length = 32, m_msg_length = 0,
     m_buffer = write_at HEADER_LENGTH (fixed_bytes attack_header) demo_buffer\<rparr>\<rparr>"

lemma length_fixed_bytes [simp]: "length (fixed_bytes h) = 32"
  by (simp add: fixed_bytes_def)

lemma length_demo_buffer: "length demo_buffer = 131076"
  by (simp add: demo_buffer_def MSG_BUF_SIZE_def HEADER_LENGTH_def)

lemma attack_buffer_ok: "buffer_ok (recv_buf attack_reader)"
  by (simp add: buffer_ok_def attack_reader_def length_write_at length_demo_buffer HEADER_LENGTH_def MSG_BUF_SIZE_def)

lemma attack_decode:
  "tcp_decode_header fixed_pb attack_reader =
     Some (True, attack_reader\<lparr>recv_buf := (recv_buf attack_reader)\<lparr>m_msg_length := -1\<rparr>, cur_header := attack_header\<rparr>)"
proof -
  have "buffer_part 4 (length (fixed_bytes attack_header)) (recv_buf attack_reader) = Some (fixed_bytes attack_header)"
    using buffer_part_write [of 4 "fixed_bytes attack_header" "\<lparr>m_header_length = 32, m_msg_length = 0, m_buffer = demo_buffer\<rparr>"]
    by (simp add: attack_reader_def length_demo_buffer HEADER_LENGTH_def)
  moreover have "hd_parse fixed_pb (fixed_bytes attack_header) = Some attack_header"
    using fixed.parse_header [of attack_header] by (simp add: fixed_pb_def)
  moreover have "m_header_length (recv_buf attack_reader) = 32" "m_msg_length (recv_buf attack_reader) = 0"
    by (simp_all add: attack_reader_def)
  moreover have "header_check attack_header = -1"
    by (simp add: header_check_def attack_header_def)
  ultimately show ?thesis
    by (simp add: tcp_decode_header_def decode_header_def HEADER_LENGTH_def buffer_length_def MSG_BUF_SIZE_def
        attack_header_def)
qed

lemma announced_lengths_guard_witness:
  "\<exists>r'. tcp_decode_header fixed_pb attack_reader = Some (True, r') \<and>
     \<not> body_buffer (recv_buf r') + size_of_int (body_length (recv_buf r')) \<le> length (m_buffer (recv_buf r'))"
proof -
  have "header_length (recv_buf attack_reader) \<le> int MSG_BUF_SIZE" "m_header_length (recv_buf attack_reader) = 32"
    by (simp_all add: attack_reader_def header_length_def MSG_BUF_SIZE_def)
  note g = announced_lengths_guard [OF attack_buffer_ok this(1), THEN conjunct2, THEN mp, OF attack_decode]
  have "unat (body_len (cur_header (attack_reader\<lparr>recv_buf := b, cur_header := attack_header\<rparr>))) = 2 ^ 32 - 1" for b
    by (simp add: attack_header_def unsigned_minus_1_eq_mask mask_eq_exp_minus_1)
  with g attack_decode show ?thesis by (intro exI conjI) (assumption, simp)
qed

end
