(* ===== verification/Server_Sessions.thy ===== *)
theory Server_Sessions
  imports SF_Prelude
begin

text \<open>
  Accepting connections: the pool of loops (\<^verbatim>\<open>common/libtools/IoLoopPool.cpp\<close>), the table of
  sessions (\<^verbatim>\<open>common/libserver/ServerSessionManager.cpp\<close>) and the acceptor (\<^verbatim>\<open>Server.cpp\<close>). Session
  objects are numbers; what the manager does to them is a list of effects, except for the session
  number it stores in them. Posted calls are run at once.
\<close>

section \<open>The pool of loops\<close>

record 'l pool =
  m_io_loops :: "'l list"
  m_next_index :: u32

definition IoLoopPool :: "'l list \<Rightarrow> 'l pool option" where
  "IoLoopPool ls = (if ls = [] then None else Some \<lparr>m_io_loops = ls, m_next_index = 0\<rparr>)"

definition get_loop_with_hash :: "u32 \<Rightarrow> 'l pool \<Rightarrow> 'l" where
  "get_loop_with_hash i p = m_io_loops p ! (unat i mod length (m_io_loops p))"

definition get_next_loop :: "'l pool \<Rightarrow> 'l \<times> 'l pool" where
  "get_next_loop p =
    (let io_loop = m_io_loops p ! unat (m_next_index p);
         p = p\<lparr>m_next_index := m_next_index p + 1\<rparr>;
         p = (if unat (m_next_index p) = length (m_io_loops p) then p\<lparr>m_next_index := 0\<rparr> else p)
     in (io_loop, p))"

fun next_loops :: "nat \<Rightarrow> 'l pool \<Rightarrow> 'l list \<times> 'l pool" where
  "next_loops 0 p = ([], p)"
| "next_loops (Suc n) p =
    (let (l, p) = get_next_loop p; (ls, p) = next_loops n p in (l # ls, p))"

section \<open>The session table\<close>

datatype effect = Start nat | Close_session nat | Check_alive nat

record manager =
  m_max_session_count :: nat
  m_current_session :: int
  m_session_all :: "(int \<times> nat) list"
  sess_ids :: "nat \<Rightarrow> int"

definition INT_MAX :: int where "INT_MAX = 2147483647"

definition m_max_session_id :: int where "m_max_session_id = INT_MAX"

definition ServerSessionManager :: "nat \<Rightarrow> manager" where
  "ServerSessionManager n =
    \<lparr>m_max_session_count = n, m_current_session = 0, m_session_all = [], sess_ids = (\<lambda>s. 0)\<rparr>"

definition is_session_over_limit :: "manager \<Rightarrow> bool" where
  "is_session_over_limit m \<longleftrightarrow> length (m_session_all m) \<ge> m_max_session_count m"

text \<open>
  \<^verbatim>\<open>m_current_session + 1 % m_max_session_id\<close>: the remainder is taken of 1. Past \<open>INT_MAX\<close> the sum
  is undefined. An \<^verbatim>\<open>insert\<close> keeps an entry that is already there.
\<close>

definition do_add_session :: "nat \<Rightarrow> manager \<Rightarrow> (manager \<times> effect list) option" where
  "do_add_session s m =
    (if is_session_over_limit m then Some (m, [Close_session s])
     else let cur = m_current_session m + 1 mod m_max_session_id
     in if INT_MAX < cur then None
        else let m = m\<lparr>m_current_session := cur, sess_ids := (sess_ids m)(s := cur)\<rparr>;
                 m = (if cur \<in> fst ` set (m_session_all m) then m
                      else m\<lparr>m_session_all := m_session_all m @ [(cur, s)]\<rparr>)
             in Some (m, [Start s]))"

definition do_close_session :: "nat \<Rightarrow> manager \<Rightarrow> manager" where
  "do_close_session s m =
    m\<lparr>m_session_all := filter (\<lambda>(i, t). i \<noteq> sess_ids m s) (m_session_all m), sess_ids := (sess_ids m)(s := -1)\<rparr>"

text \<open>The table holds weak pointers; \<open>live\<close> tells which sessions still exist.\<close>

definition check_session_alive :: "(nat \<Rightarrow> bool) \<Rightarrow> manager \<Rightarrow> manager \<times> effect list" where
  "check_session_alive live m =
    (let kept = filter (\<lambda>(i, s). live s) (m_session_all m)
     in (m\<lparr>m_session_all := kept\<rparr>, map (\<lambda>(i, s). Check_alive s) kept))"

section \<open>The acceptor\<close>

text \<open>
  \<open>waiting\<close> is the session made for the next connection, on the loop the pool gave it.
\<close>

record 'l server =
  srv_pool :: "'l pool"
  srv_manager :: manager
  waiting :: nat
  loop_of :: "nat \<Rightarrow> 'l option"

definition accept :: "nat \<Rightarrow> 'l server \<Rightarrow> 'l server" where
  "accept s srv =
    (let (l, p) = get_next_loop (srv_pool srv)
     in srv\<lparr>srv_pool := p, waiting := s, loop_of := (loop_of srv)(s \<mapsto> l)\<rparr>)"

text \<open>The manager runs on the first loop of the pool; \<^verbatim>\<open>start\<close> begins to accept.\<close>

definition Server :: "'l list \<Rightarrow> nat \<Rightarrow> 'l server option" where
  "Server ls max_session = do {
     p \<leftarrow> IoLoopPool ls;
     let (l, p) = get_next_loop p;
     Some (accept 0 \<lparr>srv_pool = p, srv_manager = ServerSessionManager max_session, waiting = 0, loop_of = Map.empty\<rparr>) }"

definition on_accept_complete :: "bool \<Rightarrow> 'l server \<Rightarrow> ('l server \<times> effect list) option" where
  "on_accept_complete err srv =
    (if \<not> err then do {
       (m, effs) \<leftarrow> do_add_session (waiting srv) (srv_manager srv);
       Some (accept (Suc (waiting srv)) (srv\<lparr>srv_manager := m\<rparr>), effs) }
     else Some (accept (Suc (waiting srv)) srv, []))"

datatype event = Accepted bool | Closed nat | Check "nat \<Rightarrow> bool"

fun server_step :: "event \<Rightarrow> 'l server \<Rightarrow> ('l server \<times> effect list) option" where
  "server_step (Accepted err) srv = on_accept_complete err srv"
| "server_step (Closed s) srv = Some (srv\<lparr>srv_manager := do_close_session s (srv_manager srv)\<rparr>, [])"
| "server_step (Check live) srv =
    (let (m, effs) = check_session_alive live (srv_manager srv) in Some (srv\<lparr>srv_manager := m\<rparr>, effs))"

text \<open>A run keeps the effects of each step.\<close>

fun server_run :: "event list \<Rightarrow> 'l server \<Rightarrow> ('l server \<times> effect list list) option" where
  "server_run [] srv = Some (srv, [])"
| "server_run (e # es) srv = do {
     (srv, effs) \<leftarrow> server_step e srv;
     (srv, effss) \<leftarrow> server_run es srv;
     Some (srv, effs # effss) }"

section \<open>Round robin\<close>

definition pool_ok :: "'l pool \<Rightarrow> bool" where
  "pool_ok p \<longleftrightarrow> unat (m_next_index p) < length (m_io_loops p) \<and> length (m_io_loops p) < 2 ^ 32"

lemma get_next_loop_ok:
  assumes "pool_ok p"
  shows "fst (get_next_loop p) = m_io_loops p ! unat (m_next_index p)"
    and "m_io_loops (snd (get_next_loop p)) = m_io_loops p"
    and "unat (m_next_index (snd (get_next_loop p))) = Suc (unat (m_next_index p)) mod length (m_io_loops p)"
proof -
  let ?i = "unat (m_next_index p)"
  have "Suc ?i < 2 ^ 32" using assms by (simp add: pool_ok_def)
  moreover have "m_next_index p + 1 = of_nat (Suc ?i)" by simp
  moreover have "take_bit LENGTH(32) (Suc ?i) = Suc ?i"
    using \<open>Suc ?i < 2 ^ 32\<close> by (simp add: take_bit_nat_eq_self_iff)
  ultimately have i: "unat (m_next_index p + 1) = Suc ?i"
    by (simp only: unsigned_of_nat of_nat_id)
  show "fst (get_next_loop p) = m_io_loops p ! ?i" "m_io_loops (snd (get_next_loop p)) = m_io_loops p"
    by (simp_all add: get_next_loop_def Let_def)
  show "unat (m_next_index (snd (get_next_loop p))) = Suc ?i mod length (m_io_loops p)"
    using assms i by (auto simp: get_next_loop_def Let_def pool_ok_def)
qed

lemma pool_ok_next: "pool_ok p \<Longrightarrow> pool_ok (snd (get_next_loop p))"
  using get_next_loop_ok [of p] unfolding pool_ok_def
  by (metis bot_nat_0.extremum_strict mod_less_divisor not_gr_zero)

lemma next_loops_ok:
  assumes "pool_ok p"
  shows "fst (next_loops n p) =
    map (\<lambda>k. m_io_loops p ! ((unat (m_next_index p) + k) mod length (m_io_loops p))) [0..<n]"
  using assms
proof (induction n arbitrary: p)
  case (Suc n)
  note g = get_next_loop_ok [OF Suc.prems]
  have i: "unat (m_next_index p) mod length (m_io_loops p) = unat (m_next_index p)"
    using Suc.prems by (simp add: pool_ok_def)
  have "fst (next_loops (Suc n) p) =
      m_io_loops p ! unat (m_next_index p) # fst (next_loops n (snd (get_next_loop p)))"
    using g(1) by (simp add: split_beta)
  also have "fst (next_loops n (snd (get_next_loop p))) =
      map (\<lambda>k. m_io_loops p ! ((Suc (unat (m_next_index p)) mod length (m_io_loops p) + k) mod length (m_io_loops p))) [0..<n]"
    using Suc.IH [OF pool_ok_next [OF Suc.prems]] g by simp
  finally show ?case
    using i by (simp add: upt_conv_Cons map_Suc_upt [symmetric] comp_def mod_simps del: upt_Suc)
qed simp

section \<open>The table\<close>

definition ids_distinct :: "(nat \<Rightarrow> int) \<Rightarrow> bool" where
  "ids_distinct f \<longleftrightarrow> (\<forall>s t. 0 < f s \<longrightarrow> f s = f t \<longrightarrow> s = t)"

lemma ids_distinctD: "ids_distinct f \<Longrightarrow> 0 < f s \<Longrightarrow> f s = f t \<Longrightarrow> s = t"
  by (simp add: ids_distinct_def)

lemma ids_distinct_upd: "ids_distinct f \<Longrightarrow> (\<And>t. f t < k) \<Longrightarrow> ids_distinct (f(s := k))"
  unfolding ids_distinct_def by (metis fun_upd_other fun_upd_same less_irrefl)

lemma ids_distinct_drop: "ids_distinct f \<Longrightarrow> k \<le> 0 \<Longrightarrow> ids_distinct (f(s := k))"
  unfolding ids_distinct_def by (metis fun_upd_other fun_upd_same not_less)

definition table_ok :: "nat \<Rightarrow> manager \<Rightarrow> bool" where
  "table_ok n m \<longleftrightarrow> distinct (map fst (m_session_all m)) \<and> 0 \<le> m_current_session m \<and>
     length (m_session_all m) \<le> m_max_session_count m \<and>
     (\<forall>(i, s)\<in>set (m_session_all m). sess_ids m s = i \<and> 0 < i \<and> s < n) \<and>
     (\<forall>s. sess_ids m s \<le> m_current_session m) \<and>
     ids_distinct (sess_ids m)"

lemma table_ok_new: "table_ok n (ServerSessionManager k)"
  by (simp add: table_ok_def ServerSessionManager_def ids_distinct_def)

lemma table_ok_mono: "table_ok n m \<Longrightarrow> n \<le> n' \<Longrightarrow> table_ok n' m"
  by (fastforce simp: table_ok_def)

lemma table_ok_filter: "table_ok n m \<Longrightarrow> table_ok n (m\<lparr>m_session_all := filter P (m_session_all m)\<rparr>)"
  by (auto simp: table_ok_def distinct_map inj_on_def intro: le_trans [OF length_filter_le])

lemma add_session_ok:
  assumes ok: "table_ok n m" and add: "do_add_session n m = Some (m', effs)"
  shows "table_ok (Suc n) m'"
    and "effs = [Close_session n] \<and> m' = m \<or> effs = [Start n] \<and> snd ` set (m_session_all m') = insert n (snd ` set (m_session_all m))"
proof -
  have "table_ok (Suc n) m' \<and> (effs = [Close_session n] \<and> m' = m \<or>
      effs = [Start n] \<and> snd ` set (m_session_all m') = insert n (snd ` set (m_session_all m)))"
  proof (cases "is_session_over_limit m")
    case True
    with add have "effs = [Close_session n]" "m' = m" by (simp_all add: do_add_session_def)
    then show ?thesis using table_ok_mono [OF ok, of "Suc n"] by simp
  next
    case False
    let ?cur = "m_current_session m + 1"
    have one: "(1 :: int) mod m_max_session_id = 1" by (simp add: m_max_session_id_def INT_MAX_def)
    have new: "?cur \<notin> fst ` set (m_session_all m)"
    proof
      assume "?cur \<in> fst ` set (m_session_all m)"
      then obtain t where "(?cur, t) \<in> set (m_session_all m)" by force
      with ok have "sess_ids m t = ?cur" "sess_ids m t \<le> m_current_session m" unfolding table_ok_def by fast+
      then show False by simp
    qed
    have m': "m' = m\<lparr>m_current_session := ?cur, sess_ids := (sess_ids m)(n := ?cur),
        m_session_all := m_session_all m @ [(?cur, n)]\<rparr>" "effs = [Start n]"
      using False add new one by (auto simp: do_add_session_def Let_def split: if_splits)
    have le: "sess_ids m t \<le> m_current_session m" for t using ok by (simp add: table_ok_def)
    have "table_ok (Suc n) m'" unfolding table_ok_def
    proof (intro conjI)
      show "distinct (map fst (m_session_all m'))" using ok new by (simp add: m' table_ok_def)
      show "0 \<le> m_current_session m'" using ok by (simp add: m' table_ok_def)
      show "length (m_session_all m') \<le> m_max_session_count m'"
        using False by (simp add: m' is_session_over_limit_def)
      show "\<forall>(i, s)\<in>set (m_session_all m'). sess_ids m' s = i \<and> 0 < i \<and> s < Suc n"
        using ok by (fastforce simp: m' table_ok_def)
      show "\<forall>s. sess_ids m' s \<le> m_current_session m'" using le by (simp add: m' add_increasing2)
      have "sess_ids m t < ?cur" for t using le [of t] by linarith
      then show "ids_distinct (sess_ids m')" using ok by (simp add: m' table_ok_def ids_distinct_upd)
    qed
    then show ?thesis by (simp add: m')
  qed
  then show "table_ok (Suc n) m'"
    and "effs = [Close_session n] \<and> m' = m \<or> effs = [Start n] \<and> snd ` set (m_session_all m') = insert n (snd ` set (m_session_all m))"
    by blast+
qed

lemma close_session_ok:
  assumes ok: "table_ok n m"
  shows "table_ok n (do_close_session s m)"
    and "snd ` set (m_session_all (do_close_session s m)) = snd ` set (m_session_all m) - {s}"
proof -
  have keep: "filter (\<lambda>(i, t). i \<noteq> sess_ids m s) (m_session_all m) = filter (\<lambda>(i, t). t \<noteq> s) (m_session_all m)"
  proof (rule filter_cong [OF refl])
    fix x assume x: "x \<in> set (m_session_all m)"
    obtain i t where it: "x = (i, t)" by (cases x)
    have "sess_ids m t = i" "0 < i" using ok x unfolding table_ok_def it by fast+
    moreover have "sess_ids m t = sess_ids m s \<Longrightarrow> 0 < sess_ids m t \<Longrightarrow> t = s"
      using ok unfolding table_ok_def by (metis ids_distinctD)
    ultimately show "(case x of (i, t) \<Rightarrow> i \<noteq> sess_ids m s) = (case x of (i, t) \<Rightarrow> t \<noteq> s)"
      by (auto simp: it)
  qed
  let ?m = "m\<lparr>m_session_all := filter (\<lambda>(i, t). t \<noteq> s) (m_session_all m)\<rparr>"
  have t: "table_ok n ?m" by (rule table_ok_filter [OF ok])
  have "-1 \<le> m_current_session m" using ok by (simp add: table_ok_def)
  with t have "table_ok n (?m\<lparr>sess_ids := (sess_ids ?m)(s := -1)\<rparr>)"
    by (auto simp: table_ok_def ids_distinct_drop)
  then show "table_ok n (do_close_session s m)" by (simp add: do_close_session_def keep)
  show "snd ` set (m_session_all (do_close_session s m)) = snd ` set (m_session_all m) - {s}"
    by (force simp: do_close_session_def keep)
qed

text \<open>The sessions that should be in the table: started, and since then neither closed nor collected.\<close>

fun tracked :: "(event \<times> effect list) list \<Rightarrow> nat set \<Rightarrow> nat set" where
  "tracked [] T = T"
| "tracked ((Accepted err, effs) # xs) T = tracked xs (T \<union> {s. Start s \<in> set effs})"
| "tracked ((Closed s, effs) # xs) T = tracked xs (T - {s})"
| "tracked ((Check live, effs) # xs) T = tracked xs {s \<in> T. live s}"

definition server_ok :: "'l server \<Rightarrow> bool" where
  "server_ok srv \<longleftrightarrow> pool_ok (srv_pool srv) \<and> table_ok (waiting srv) (srv_manager srv)"

definition in_table :: "'l server \<Rightarrow> nat set" where
  "in_table srv = snd ` set (m_session_all (srv_manager srv))"

lemma accept_ok:
  assumes "pool_ok (srv_pool srv)" "table_ok n (srv_manager srv)" "n \<le> s"
  shows "server_ok (accept s srv)" "srv_manager (accept s srv) = srv_manager srv" "waiting (accept s srv) = s"
  using assms by (auto simp: server_ok_def accept_def split_beta pool_ok_next intro: table_ok_mono)

lemma Server_ok:
  assumes "Server ls k = Some srv" "length ls < 2 ^ 32"
  shows "server_ok srv" "in_table srv = {}" "m_max_session_count (srv_manager srv) = k"
proof -
  from assms(1) have ls: "ls \<noteq> []" by (auto simp: Server_def IoLoopPool_def split: if_splits)
  let ?p = "\<lparr>m_io_loops = ls, m_next_index = 0\<rparr>"
  have p: "pool_ok ?p" using ls assms(2) by (simp add: pool_ok_def)
  have srv: "srv = accept 0 \<lparr>srv_pool = snd (get_next_loop ?p), srv_manager = ServerSessionManager k, waiting = 0, loop_of = Map.empty\<rparr>"
    using assms(1) ls by (simp add: Server_def IoLoopPool_def split_beta)
  show "server_ok srv" unfolding srv by (rule accept_ok(1) [of _ 0]) (simp_all add: pool_ok_next p table_ok_new)
  show "in_table srv = {}" "m_max_session_count (srv_manager srv) = k"
    by (simp_all add: srv in_table_def accept_def split_beta ServerSessionManager_def)
qed

lemma server_step_ok:
  assumes "server_ok srv" "server_step e srv = Some (srv', effs)"
  shows "server_ok srv' \<and> in_table srv' = tracked [(e, effs)] (in_table srv) \<and>
    m_max_session_count (srv_manager srv') = m_max_session_count (srv_manager srv)"
proof (cases e)
  case (Accepted err)
  show ?thesis
  proof (cases err)
    case True
    with assms Accepted have srv': "srv' = accept (Suc (waiting srv)) srv" "effs = []"
      by (simp_all add: on_accept_complete_def)
    note a = accept_ok [of srv "waiting srv" "Suc (waiting srv)"]
    show ?thesis using assms(1) a Accepted srv' by (simp add: server_ok_def in_table_def)
  next
    case False
    with assms Accepted obtain m where m: "do_add_session (waiting srv) (srv_manager srv) = Some (m, effs)"
      "srv' = accept (Suc (waiting srv)) (srv\<lparr>srv_manager := m\<rparr>)"
      by (auto simp: on_accept_complete_def split: bind_splits)
    have t: "table_ok (waiting srv) (srv_manager srv)" using assms(1) by (simp add: server_ok_def)
    note add = add_session_ok [OF t m(1)]
    have "m_max_session_count m = m_max_session_count (srv_manager srv)"
      using m(1) by (auto simp: do_add_session_def Let_def split: if_splits)
    moreover note accept_ok [of "srv\<lparr>srv_manager := m\<rparr>" "Suc (waiting srv)" "Suc (waiting srv)"]
    ultimately show ?thesis using assms(1) add Accepted m(2)
      by (elim disjE conjE) (simp_all add: server_ok_def in_table_def)
  qed
next
  case (Closed s)
  have "m_max_session_count (do_close_session s m) = m_max_session_count m" for m
    by (simp add: do_close_session_def)
  with assms close_session_ok [of "waiting srv" "srv_manager srv" s] Closed show ?thesis
    by (simp add: server_ok_def in_table_def) (elim conjE, hypsubst, simp)
next
  case (Check live)
  with assms have srv': "srv' = srv\<lparr>srv_manager := (srv_manager srv)\<lparr>m_session_all :=
      filter (\<lambda>(i, s). live s) (m_session_all (srv_manager srv))\<rparr>\<rparr>"
    by (simp add: check_session_alive_def Let_def)
  have "snd ` set (filter (\<lambda>(i, s). live s) xs) = {s \<in> snd ` set xs. live s}" for xs :: "(int \<times> nat) list"
    by force
  then show ?thesis using assms(1) Check table_ok_filter [of "waiting srv" "srv_manager srv"]
    by (simp add: server_ok_def in_table_def srv')
qed

lemma tracked_append: "tracked (xs @ ys) T = tracked ys (tracked xs T)"
  by (induction xs T rule: tracked.induct) simp_all

lemma server_run_ok:
  assumes "server_ok srv" "server_run evs srv = Some (srv', effss)"
  shows "server_ok srv' \<and> in_table srv' = tracked (zip evs effss) (in_table srv) \<and>
    m_max_session_count (srv_manager srv') = m_max_session_count (srv_manager srv)"
  using assms
proof (induction evs arbitrary: srv effss)
  case (Cons e es)
  from Cons.prems(2) obtain t effs rest where
    t: "server_step e srv = Some (t, effs)" "server_run es t = Some (srv', rest)" "effss = effs # rest"
    by (auto split: bind_splits)
  from server_step_ok [OF Cons.prems(1) t(1)] Cons.IH [OF _ t(2)] tracked_append [of "[(e, effs)]" "zip es rest"]
  show ?case by (simp add: t(3))
qed simp

section \<open>Properties\<close>

text \<open>
  C23. The session table is exact: after every sequence of accepted connections, closed sessions
  (closed once, twice or before they were registered) and liveness checks, the table holds exactly
  the sessions started and since then neither closed nor destroyed, each once and under the number
  stored in the session, the numbers are positive and distinct, and there are never more than the limit.
\<close>

theorem session_table_exact:
  assumes "Server ls k = Some srv" "length ls < 2 ^ 32" "server_run evs srv = Some (srv', effss)"
  shows "snd ` set (m_session_all (srv_manager srv')) = tracked (zip evs effss) {} \<and>
    (\<forall>(i, s)\<in>set (m_session_all (srv_manager srv')). sess_ids (srv_manager srv') s = i \<and> 0 < i) \<and>
    distinct (map fst (m_session_all (srv_manager srv'))) \<and> length (m_session_all (srv_manager srv')) \<le> k"
  using server_run_ok [OF Server_ok(1) [OF assms(1,2)] assms(3)] Server_ok(2,3) [OF assms(1,2)]
  unfolding server_ok_def table_ok_def in_table_def by (auto 0 4)

lemma session_table_exact_witness:
  "\<exists>srv srv' effss. Server [10 :: nat, 20] 1 = Some srv \<and>
     server_run [Accepted False, Accepted False, Closed 0, Closed 0, Accepted False] srv = Some (srv', effss) \<and>
     snd ` set (m_session_all (srv_manager srv')) = {2}"
proof -
  let ?evs = "[Accepted False, Accepted False, Closed 0, Closed 0, Accepted False]"
  obtain srv where srv: "Server [10 :: nat, 20] 1 = Some srv" by (auto simp: Server_def IoLoopPool_def split_beta)
  have "srv_manager srv = ServerSessionManager 1" "waiting srv = 0"
    using srv by (auto simp: Server_def IoLoopPool_def accept_def split_beta)
  then have "\<exists>srv'. server_run ?evs srv = Some (srv', [[Start 0], [Close_session 1], [], [], [Start 2]])"
    by (simp add: on_accept_complete_def accept_def split_beta do_add_session_def is_session_over_limit_def
        do_close_session_def ServerSessionManager_def m_max_session_id_def INT_MAX_def Let_def)
  then obtain srv' where run: "server_run ?evs srv = Some (srv', [[Start 0], [Close_session 1], [], [], [Start 2]])" ..
  have "tracked (zip ?evs [[Start 0], [Close_session 1], [], [], [Start 2]]) {} = {2}" by simp
  with session_table_exact [OF srv _ run] srv run show ?thesis by auto
qed

text \<open>
  Connections are spread evenly: \<open>n\<close> calls of \<^verbatim>\<open>get_next_loop\<close> on a new pool return its loops in
  turn, from the first, starting over after the last.
\<close>

theorem loops_round_robin:
  assumes "IoLoopPool ls = Some p" "length ls < 2 ^ 32"
  shows "fst (next_loops n p) = map (\<lambda>k. ls ! (k mod length ls)) [0..<n]"
proof -
  from assms(1) have "p = \<lparr>m_io_loops = ls, m_next_index = 0\<rparr>" "ls \<noteq> []"
    by (auto simp: IoLoopPool_def split: if_splits)
  with assms(2) next_loops_ok [of p n] show ?thesis by (simp add: pool_ok_def)
qed

lemma loops_round_robin_witness: "\<exists>p. IoLoopPool [5 :: nat, 6, 7] = Some p \<and> fst (next_loops 5 p) = [5, 6, 7, 5, 6]"
proof -
  obtain p where p: "IoLoopPool [5 :: nat, 6, 7] = Some p" by (simp add: IoLoopPool_def)
  have "[0..<5] = [0, 1, 2, 3, 4]" by (simp add: upt_rec)
  with loops_round_robin [OF p, of 5] p show ?thesis by simp
qed

text \<open>The sequence of numbers does not wrap: after \<open>INT_MAX\<close> sessions the addition overflows.\<close>

theorem session_numbers_overflow:
  "\<not> is_session_over_limit m \<Longrightarrow> m_current_session m = INT_MAX \<Longrightarrow> do_add_session s m = None"
  by (simp add: do_add_session_def INT_MAX_def m_max_session_id_def)

end
