(* ===== verification/Tcp_Client.thy ===== *)
theory Tcp_Client
  imports SF_Prelude
begin

text \<open>
  \<^verbatim>\<open>common/libserver/Client.cpp\<close>: a client that connects, reconnects and sends heartbeats. Sockets
  are numbers. \<open>m_socket\<close> is the socket being connected and \<open>socket_open\<close> whether it still is open;
  \<open>connects\<close> are the sockets whose connect has not completed. A session the client has made is open
  until it closes itself; closing it calls the client's \<^verbatim>\<open>close_session\<close> at once, on the same
  loop. Each timer is the list of its outstanding waits, oldest first.

  A result \<open>None\<close> is the use of a null pointer.
\<close>

section \<open>State\<close>

datatype timer_wait = Pending | Due | Aborted

datatype client_output = Connect_failed | Heartbeat | Alive_check | New_session nat

record client =
  session_ref :: "nat option"
  sess_open :: bool
  m_socket :: "nat option"
  socket_open :: bool
  next_socket :: nat
  connects :: "nat list"
  m_endpoint :: "string \<times> u16"
  reconnect_waits :: "timer_wait list"
  connect_waits :: "timer_wait list"
  heart_waits :: "timer_wait list"
  alive_waits :: "timer_wait list"
  m_auto_reconnect :: bool
  m_is_connecting :: bool
  m_is_wait_connect :: bool
  m_is_connected :: bool
  m_session_id :: nat
  outputs :: "client_output list"

definition new_client :: client where
  "new_client = \<lparr>session_ref = None, sess_open = False, m_socket = None, socket_open = False, next_socket = 0,
     connects = [], m_endpoint = ([], 0), reconnect_waits = [], connect_waits = [], heart_waits = [], alive_waits = [],
     m_auto_reconnect = False, m_is_connecting = False, m_is_wait_connect = False, m_is_connected = False,
     m_session_id = 0, outputs = []\<rparr>"

text \<open>
  \<^verbatim>\<open>cancel\<close> aborts the waits that are not due; \<^verbatim>\<open>expires_after\<close> does the same before a new wait.
\<close>

definition cancel :: "timer_wait list \<Rightarrow> timer_wait list" where
  "cancel ws = map (\<lambda>w. if w = Pending then Aborted else w) ws"

definition arm :: "timer_wait list \<Rightarrow> timer_wait list" where
  "arm ws = cancel ws @ [Pending]"

section \<open>The code\<close>

definition register_connect_timer :: "client \<Rightarrow> client" where
  "register_connect_timer c = c\<lparr>m_is_wait_connect := True, reconnect_waits := arm (reconnect_waits c)\<rparr>"

definition register_heart_beat_timer :: "client \<Rightarrow> client" where
  "register_heart_beat_timer c = c\<lparr>heart_waits := arm (heart_waits c)\<rparr>"

definition register_alive_timer :: "client \<Rightarrow> client" where
  "register_alive_timer c = c\<lparr>alive_waits := arm (alive_waits c)\<rparr>"

text \<open>\<^verbatim>\<open>m_socket.reset\<close> destroys the socket that was there; its connect then completes with an error.\<close>

definition connect :: "client \<Rightarrow> client" where
  "connect c =
    (let n = next_socket c
     in c\<lparr>m_socket := Some n, socket_open := True, next_socket := Suc n, connect_waits := arm (connect_waits c),
          connects := connects c @ [n], m_is_connecting := True\<rparr>)"

definition close_session :: "client \<Rightarrow> client" where
  "close_session c =
    connect (c\<lparr>m_is_connected := False, heart_waits := cancel (heart_waits c), alive_waits := cancel (alive_waits c)\<rparr>)"

text \<open>\<^verbatim>\<open>m_session_ref.lock()->close()\<close>.\<close>

definition session_close :: "client \<Rightarrow> client option" where
  "session_close c =
    (case session_ref c of
       None \<Rightarrow> None
     | Some s \<Rightarrow> Some (if sess_open c then close_session (c\<lparr>sess_open := False\<rparr>) else c))"

definition on_connet_complete :: "bool \<Rightarrow> client \<Rightarrow> client option" where
  "on_connet_complete err_code c =
    (let c = c\<lparr>m_is_connecting := False, connect_waits := cancel (connect_waits c)\<rparr>
     in case m_socket c of
         None \<Rightarrow> None
       | Some n \<Rightarrow>
           if \<not> socket_open c \<or> err_code then
             let c = c\<lparr>outputs := outputs c @ [Connect_failed], m_socket := None\<rparr>
             in Some (if m_auto_reconnect c then register_connect_timer c else c)
           else
             Some (register_alive_timer (register_heart_beat_timer
               (c\<lparr>m_is_connected := True, session_ref := Some n, sess_open := True, m_socket := None,
                  m_session_id := Suc (m_session_id c), outputs := outputs c @ [New_session (Suc (m_session_id c))]\<rparr>))))"

definition on_send_heart_beat :: "bool \<Rightarrow> client \<Rightarrow> client option" where
  "on_send_heart_beat err c =
    (if \<not> err then
       if \<not> m_is_connected c then Some c
       else Some (register_heart_beat_timer
         (if session_ref c \<noteq> None then c\<lparr>outputs := outputs c @ [Heartbeat]\<rparr> else c))
     else Some c)"

definition on_check_alive :: "bool \<Rightarrow> client \<Rightarrow> client option" where
  "on_check_alive err c =
    (if \<not> err then
       if \<not> m_is_connected c then Some c
       else if session_ref c \<noteq> None then Some (register_alive_timer (c\<lparr>outputs := outputs c @ [Alive_check]\<rparr>))
       else Some c
     else Some c)"

definition on_wait_reconnect :: "bool \<Rightarrow> client \<Rightarrow> client option" where
  "on_wait_reconnect err c =
    (let c = c\<lparr>m_is_wait_connect := False\<rparr> in Some (if \<not> err then connect c else c))"

definition on_connect_timeout :: "bool \<Rightarrow> client \<Rightarrow> client option" where
  "on_connect_timeout err c =
    Some (if \<not> err \<and> m_socket c \<noteq> None \<and> socket_open c then c\<lparr>socket_open := False\<rparr> else c)"

definition close_socket :: "client \<Rightarrow> client option" where
  "close_socket c = (if m_socket c = None then None else Some (c\<lparr>socket_open := False\<rparr>))"

definition do_connect :: "string \<Rightarrow> u16 \<Rightarrow> client \<Rightarrow> client option" where
  "do_connect ip port_num c =
    (let c = c\<lparr>m_auto_reconnect := True, m_endpoint := (ip, port_num)\<rparr>
     in if m_is_connected c then session_close c
        else if m_is_connecting c then close_socket c
        else Some (connect (if m_is_wait_connect c
               then c\<lparr>reconnect_waits := cancel (reconnect_waits c), m_is_wait_connect := False\<rparr> else c)))"

definition do_close_client :: "client \<Rightarrow> client option" where
  "do_close_client c = do {
     let c = c\<lparr>m_auto_reconnect := False\<rparr>;
     c \<leftarrow> (if m_is_connected c then session_close c
           else if m_is_connecting c then close_socket c
           else if m_is_wait_connect c
           then Some (c\<lparr>m_is_wait_connect := False, reconnect_waits := cancel (reconnect_waits c)\<rparr>)
           else Some c);
     Some (c\<lparr>connect_waits := cancel (connect_waits c), heart_waits := cancel (heart_waits c),
        alive_waits := cancel (alive_waits c)\<rparr>) }"

text \<open>\<^verbatim>\<open>send_message\<close> hands the message to the session, if there is one.\<close>

definition send_message :: "client \<Rightarrow> bool" where
  "send_message c \<longleftrightarrow> session_ref c \<noteq> None"

section \<open>Runs\<close>

datatype timer = Reconnect | Connect_timeout | Heart | Alive

fun waits :: "timer \<Rightarrow> client \<Rightarrow> timer_wait list" where
  "waits Reconnect c = reconnect_waits c"
| "waits Connect_timeout c = connect_waits c"
| "waits Heart c = heart_waits c"
| "waits Alive c = alive_waits c"

fun set_waits :: "timer \<Rightarrow> timer_wait list \<Rightarrow> client \<Rightarrow> client" where
  "set_waits Reconnect ws c = c\<lparr>reconnect_waits := ws\<rparr>"
| "set_waits Connect_timeout ws c = c\<lparr>connect_waits := ws\<rparr>"
| "set_waits Heart ws c = c\<lparr>heart_waits := ws\<rparr>"
| "set_waits Alive ws c = c\<lparr>alive_waits := ws\<rparr>"

fun handler :: "timer \<Rightarrow> bool \<Rightarrow> client \<Rightarrow> client option" where
  "handler Reconnect err c = on_wait_reconnect err c"
| "handler Connect_timeout err c = on_connect_timeout err c"
| "handler Heart err c = on_send_heart_beat err c"
| "handler Alive err c = on_check_alive err c"

text \<open>
  The handlers that are ready to run: those of waits that are due or aborted, and of connects whose
  socket was closed or destroyed.
\<close>

definition connect_broken :: "client \<Rightarrow> nat \<Rightarrow> bool" where
  "connect_broken c n \<longleftrightarrow> m_socket c \<noteq> Some n \<or> \<not> socket_open c"

definition calm :: "client \<Rightarrow> bool" where
  "calm c \<longleftrightarrow> (\<forall>t. set (waits t c) \<subseteq> {Pending}) \<and> (\<forall>n\<in>set (connects c). \<not> connect_broken c n)"

datatype step =
    Do_connect string u16 | Do_close_client | Session_lost
  | Connected bool | Timer_due timer | Run_wait timer timer_wait | Connect_aborted nat

text \<open>
  A step: the calls of the user, the session closing, the connect of the current socket completing,
  a timer becoming due, and the ready handlers. The result of a step is \<open>None\<close> inside when the
  handler uses a null pointer, and \<open>None\<close> outside when the step is not possible in the state.
\<close>

fun do_step :: "step \<Rightarrow> client \<Rightarrow> client option option" where
  "do_step (Do_connect ip port) c = Some (do_connect ip port c)"
| "do_step Do_close_client c = Some (do_close_client c)"
| "do_step Session_lost c = (if sess_open c then Some (Some (close_session (c\<lparr>sess_open := False\<rparr>))) else None)"
| "do_step (Connected err) c =
    (case m_socket c of
       Some n \<Rightarrow> if n \<in> set (connects c) \<and> socket_open c
                 then Some (on_connet_complete err (c\<lparr>connects := remove1 n (connects c)\<rparr>)) else None
     | None \<Rightarrow> None)"
| "do_step (Timer_due t) c =
    (if Pending \<in> set (waits t c) then Some (Some (set_waits t (map (\<lambda>w. if w = Pending then Due else w) (waits t c)) c))
     else None)"
| "do_step (Run_wait t w) c =
    (if w \<in> set (waits t c) \<and> w \<noteq> Pending
     then Some (handler t (w = Aborted) (set_waits t (remove1 w (waits t c)) c)) else None)"
| "do_step (Connect_aborted n) c =
    (if n \<in> set (connects c) \<and> connect_broken c n
     then Some (on_connet_complete True (c\<lparr>connects := remove1 n (connects c)\<rparr>)) else None)"

text \<open>Calls from outside and completions come from outside the loop; the other steps run ready handlers.\<close>

fun outside :: "step \<Rightarrow> bool" where
  "outside (Run_wait t w) = False"
| "outside (Connect_aborted n) = False"
| "outside _ = True"

text \<open>
  Any interleaving, and the calm ones: there, what comes from outside finds no handler ready, so
  that every ready handler runs before anything else happens.
\<close>

inductive reach :: "bool \<Rightarrow> client \<Rightarrow> bool" for calm_only where
  init: "reach calm_only new_client"
| step: "reach calm_only c \<Longrightarrow> (calm_only \<and> outside s \<longrightarrow> calm c) \<Longrightarrow> do_step s c = Some (Some c') \<Longrightarrow>
    reach calm_only c'"

section \<open>Calm runs\<close>

definition reconnect_ok :: "client \<Rightarrow> bool" where
  "reconnect_ok c \<longleftrightarrow>
     (if m_is_wait_connect c then reconnect_waits c = [Pending] \<or> reconnect_waits c = [Due]
      else reconnect_waits c = [] \<or>
        reconnect_waits c = [Aborted] \<and> (m_socket c = None \<or> socket_open c) \<and> Due \<notin> set (connect_waits c))"

definition client_ok :: "client \<Rightarrow> bool" where
  "client_ok c \<longleftrightarrow>
     (m_is_connected c \<longrightarrow> \<not> m_is_connecting c \<and> \<not> m_is_wait_connect c) \<and>
     (m_is_connecting c \<longrightarrow> \<not> m_is_wait_connect c) \<and>
     (if m_is_connecting c then \<exists>n. m_socket c = Some n \<and> connects c = [n] else m_socket c = None \<and> connects c = []) \<and>
     m_is_connected c = sess_open c \<and> (sess_open c \<longrightarrow> session_ref c \<noteq> None) \<and>
     reconnect_ok c \<and>
     (m_auto_reconnect c \<longrightarrow> m_is_connected c \<or> m_is_connecting c \<or> m_is_wait_connect c)"

lemma client_ok_new: "client_ok new_client"
  by (simp add: client_ok_def reconnect_ok_def new_client_def)

lemma cancel_simps [simp]: "cancel [] = []" "cancel [Pending] = [Aborted]" "cancel [Aborted] = [Aborted]"
    "cancel [Due] = [Due]" "arm [] = [Pending]" "Due \<in> set (cancel ws) \<longleftrightarrow> Due \<in> set ws"
    "Due \<in> set (arm ws) \<longleftrightarrow> Due \<in> set ws"
  by (auto simp: cancel_def arm_def)

lemma calm_waits: "calm c \<Longrightarrow> Due \<notin> set (waits t c) \<and> Aborted \<notin> set (waits t c)"
  unfolding calm_def by (metis singletonD subsetD timer_wait.distinct(1,3))

lemma calm_reconnect:
  assumes "calm c" "client_ok c"
  shows "reconnect_waits c = (if m_is_wait_connect c then [Pending] else [])" "Due \<notin> set (connect_waits c)"
  using assms calm_waits [OF assms(1), of Reconnect] calm_waits [OF assms(1), of Connect_timeout]
  by (auto simp: client_ok_def reconnect_ok_def split: if_splits)

lemma calm_connect: "calm c \<Longrightarrow> client_ok c \<Longrightarrow> m_is_connecting c \<Longrightarrow> socket_open c"
  by (auto simp: client_ok_def calm_def connect_broken_def)

lemmas client_steps = do_connect_def do_close_client_def session_close_def close_session_def connect_def
  close_socket_def on_connet_complete_def register_connect_timer_def register_heart_beat_timer_def
  register_alive_timer_def on_wait_reconnect_def on_connect_timeout_def on_send_heart_beat_def on_check_alive_def Let_def

lemma close_connected_ok:
  assumes "client_ok c" "m_is_connected c" "reconnect_waits c = []"
  shows "client_ok (close_session (c\<lparr>sess_open := False\<rparr>))"
    and "connect_waits (close_session (c\<lparr>sess_open := False\<rparr>)) = arm (connect_waits c)"
  using assms by (simp_all add: client_ok_def close_session_def connect_def Let_def reconnect_ok_def)

lemma client_ok_phases:
  assumes "client_ok c"
  obtains (connected) n where "m_is_connected c" "\<not> m_is_connecting c" "\<not> m_is_wait_connect c" "sess_open c"
      "session_ref c = Some n" "m_socket c = None" "connects c = []" "reconnect_ok c"
    | (connecting) n where "\<not> m_is_connected c" "m_is_connecting c" "\<not> m_is_wait_connect c" "\<not> sess_open c"
      "m_socket c = Some n" "connects c = [n]" "reconnect_ok c"
    | (waiting) "\<not> m_is_connected c" "\<not> m_is_connecting c" "m_is_wait_connect c" "\<not> sess_open c"
      "m_socket c = None" "connects c = []" "reconnect_ok c"
    | (idle) "\<not> m_is_connected c" "\<not> m_is_connecting c" "\<not> m_is_wait_connect c" "\<not> sess_open c"
      "m_socket c = None" "connects c = []" "reconnect_ok c" "\<not> m_auto_reconnect c"
proof (cases "m_is_connected c")
  case True
  with assms obtain n where "session_ref c = Some n" by (auto simp: client_ok_def)
  with assms True show ?thesis by (intro connected [of n]) (auto simp: client_ok_def)
next
  case False
  note not_connected = this
  show ?thesis
  proof (cases "m_is_connecting c")
    case True
    with assms not_connected obtain n where "m_socket c = Some n" "connects c = [n]" by (auto simp: client_ok_def)
    with assms not_connected True show ?thesis by (intro connecting [of n]) (auto simp: client_ok_def)
  next
    case False
    with assms not_connected show ?thesis
      by (cases "m_is_wait_connect c") (intro waiting idle; simp add: client_ok_def)+
  qed
qed

lemma do_connect_ok:
  assumes "client_ok c" "calm c"
  shows "\<exists>c'. do_connect ip port c = Some c' \<and> client_ok c'"
proof -
  note r = calm_reconnect [OF assms(2,1)] and o = calm_connect [OF assms(2,1)]
  show ?thesis using assms(1)
  proof (cases rule: client_ok_phases)
    case (connected n)
    with r show ?thesis by (simp add: client_steps client_ok_def reconnect_ok_def)
  next
    case (connecting n)
    with r show ?thesis by (simp add: client_steps client_ok_def reconnect_ok_def)
  next
    case waiting
    with r show ?thesis by (simp add: client_steps client_ok_def reconnect_ok_def)
  next
    case idle
    with r show ?thesis by (simp add: client_steps client_ok_def reconnect_ok_def)
  qed
qed

lemma do_close_client_ok:
  assumes "client_ok c" "calm c"
  shows "\<exists>c'. do_close_client c = Some c' \<and> client_ok c'"
proof -
  note r = calm_reconnect [OF assms(2,1)] and o = calm_connect [OF assms(2,1)]
  show ?thesis using assms(1)
  proof (cases rule: client_ok_phases)
    case (connected n)
    with r show ?thesis by (simp add: client_steps client_ok_def reconnect_ok_def)
  next
    case (connecting n)
    with r show ?thesis by (simp add: client_steps client_ok_def reconnect_ok_def)
  next
    case waiting
    with r show ?thesis by (simp add: client_steps client_ok_def reconnect_ok_def)
  next
    case idle
    with r show ?thesis by (simp add: client_steps client_ok_def reconnect_ok_def)
  qed
qed

lemma connect_complete_ok:
  assumes "client_ok c" "m_is_connecting c" "reconnect_waits c = []" "n \<in> set (connects c)"
  shows "\<exists>c'. on_connet_complete err (c\<lparr>connects := remove1 n (connects c)\<rparr>) = Some c' \<and> client_ok c'"
  using assms(1)
proof (cases rule: client_ok_phases)
  case (connecting m)
  with assms show ?thesis by (simp add: client_steps client_ok_def reconnect_ok_def)
qed (use assms in simp_all)

lemma session_lost_ok:
  assumes "client_ok c" "calm c" "sess_open c"
  shows "client_ok (close_session (c\<lparr>sess_open := False\<rparr>))"
proof (rule close_connected_ok(1) [OF assms(1)])
  show "m_is_connected c" using assms by (simp add: client_ok_def)
  with assms show "reconnect_waits c = []"
    by (simp add: calm_reconnect(1) client_ok_def)
qed

lemma timer_due_ok:
  assumes "client_ok c" "calm c"
  shows "client_ok (set_waits t (map (\<lambda>w. if w = Pending then Due else w) (waits t c)) c)"
proof -
  note r = calm_reconnect [OF assms(2,1)]
  show ?thesis using assms(1) r
    by (cases t; cases "m_is_connected c"; cases "m_is_connecting c"; cases "m_is_wait_connect c")
      (simp_all add: client_ok_def reconnect_ok_def)
qed

lemma run_reconnect_ok:
  assumes "client_ok c" "w \<in> set (reconnect_waits c)" "w \<noteq> Pending"
  shows "\<exists>c'. on_wait_reconnect (w = Aborted) (c\<lparr>reconnect_waits := remove1 w (reconnect_waits c)\<rparr>) = Some c' \<and> client_ok c'"
  using assms(1)
proof (cases rule: client_ok_phases)
  case (connected n)
  with assms show ?thesis by (auto simp: client_steps client_ok_def reconnect_ok_def)
next
  case (connecting n)
  with assms show ?thesis by (auto simp: client_steps client_ok_def reconnect_ok_def)
next
  case waiting
  with assms show ?thesis by (auto simp: client_steps client_ok_def reconnect_ok_def)
next
  case idle
  with assms show ?thesis by (auto simp: client_steps client_ok_def reconnect_ok_def)
qed

lemma run_timeout_ok:
  assumes "client_ok c" "w \<in> set (connect_waits c)" "w \<noteq> Pending"
  shows "\<exists>c'. on_connect_timeout (w = Aborted) (c\<lparr>connect_waits := remove1 w (connect_waits c)\<rparr>) = Some c' \<and> client_ok c'"
proof (cases w)
  case Due
  with assms have "reconnect_waits c \<noteq> [Aborted]" by (auto simp: client_ok_def reconnect_ok_def split: if_splits)
  with assms(1) Due show ?thesis
    by (cases rule: client_ok_phases [OF assms(1)]) (auto simp: on_connect_timeout_def client_ok_def reconnect_ok_def)
next
  case Aborted
  have "Due \<in> set (remove1 w (connect_waits c)) \<Longrightarrow> Due \<in> set (connect_waits c)" by (metis notin_set_remove1)
  with assms(1) Aborted show ?thesis by (auto simp: on_connect_timeout_def client_ok_def reconnect_ok_def)
qed (use assms in simp)

lemma run_heart_ok:
  "client_ok c \<Longrightarrow> \<exists>c'. on_send_heart_beat err (c\<lparr>heart_waits := ws\<rparr>) = Some c' \<and> client_ok c'"
  "client_ok c \<Longrightarrow> \<exists>c'. on_check_alive err (c\<lparr>alive_waits := ws\<rparr>) = Some c' \<and> client_ok c'"
  unfolding client_ok_def reconnect_ok_def on_send_heart_beat_def on_check_alive_def register_heart_beat_timer_def
    register_alive_timer_def by (simp; argo)+

lemma connect_aborted_ok:
  assumes "client_ok c" "n \<in> set (connects c)" "connect_broken c n"
  shows "m_is_connecting c \<and> reconnect_waits c = []"
  using assms(1)
proof (cases rule: client_ok_phases)
  case (connecting m)
  with assms show ?thesis by (auto simp: connect_broken_def reconnect_ok_def)
qed (use assms in simp_all)

lemma client_step_ok:
  assumes "client_ok c" "outside s \<longrightarrow> calm c" "do_step s c = Some r"
  shows "\<exists>c'. r = Some c' \<and> client_ok c'"
proof (cases s)
  case (Do_connect ip port)
  with assms show ?thesis using do_connect_ok by auto
next
  case Do_close_client
  with assms show ?thesis using do_close_client_ok by auto
next
  case Session_lost
  with assms show ?thesis using session_lost_ok by (auto split: if_splits)
next
  case (Connected err)
  with assms obtain n where n: "m_socket c = Some n" "n \<in> set (connects c)" "calm c"
    "r = on_connet_complete err (c\<lparr>connects := remove1 n (connects c)\<rparr>)" by (auto split: option.splits if_splits)
  with assms(1) have "m_is_connecting c" by (auto simp: client_ok_def split: if_splits)
  moreover from this assms(1) have "\<not> m_is_wait_connect c" by (simp add: client_ok_def)
  with calm_reconnect(1) [OF n(3) assms(1)] have "reconnect_waits c = []" by simp
  ultimately show ?thesis using connect_complete_ok [OF assms(1)] n by simp
next
  case (Timer_due t)
  with assms show ?thesis using timer_due_ok by (auto split: if_splits)
next
  case (Run_wait t w)
  with assms show ?thesis using run_reconnect_ok run_timeout_ok run_heart_ok
    by (cases t) (auto split: if_splits)
next
  case (Connect_aborted n)
  with assms show ?thesis using connect_aborted_ok connect_complete_ok [OF assms(1)] by (auto split: if_splits)
qed

lemma calm_runs_ok: "reach True c \<Longrightarrow> client_ok c"
  by (induction rule: reach.induct) (use client_ok_new client_step_ok in blast)+

section \<open>Properties\<close>




section \<open>Other interleavings\<close>

definition steps :: "step list \<Rightarrow> client \<Rightarrow> client option" where
  "steps ss c = fold (\<lambda>s r. case r of None \<Rightarrow> None | Some c \<Rightarrow> (case do_step s c of Some (Some c') \<Rightarrow> Some c' | _ \<Rightarrow> None)) ss (Some c)"

lemma steps_simps [simp]:
  "steps [] c = Some c"
  "steps (s # ss) c = (case do_step s c of Some (Some c') \<Rightarrow> steps ss c' | _ \<Rightarrow> None)"
proof -
  have "fold (\<lambda>s r. case r of None \<Rightarrow> None | Some c \<Rightarrow> (case do_step s c of Some (Some c') \<Rightarrow> Some c' | _ \<Rightarrow> None)) ss None = None"
    by (induction ss) simp_all
  then show "steps (s # ss) c = (case do_step s c of Some (Some c') \<Rightarrow> steps ss c' | _ \<Rightarrow> None)"
    by (simp add: steps_def split: option.splits)
qed (simp add: steps_def)

lemma steps_reach: "reach False c \<Longrightarrow> steps ss c = Some c' \<Longrightarrow> reach False c'"
  by (induction ss arbitrary: c) (auto split: option.splits intro: reach.step)

text \<open>
  Without calm the client can fail: the reconnect timer becomes due, the user connects before its
  handler has run, the handler replaces the socket that is connecting, and the second of the two
  aborted connects finds no socket.
\<close>

theorem client_race_null_socket:
  "\<exists>c. reach False c \<and> do_step (Connect_aborted 2) c = Some None"
proof -
  let ?ip = "''127.0.0.1''"
  obtain c where c: "steps [Do_connect ?ip 8000, Connected True, Timer_due Reconnect, Do_connect ?ip 8000,
      Run_wait Reconnect Due, Connect_aborted 1] new_client = Some c"
    by (simp add: client_steps new_client_def arm_def connect_broken_def cancel_def)
  then have "do_step (Connect_aborted 2) c = Some None"
    by (auto simp: client_steps new_client_def arm_def connect_broken_def cancel_def)
  with steps_reach [OF reach.init c] show ?thesis by blast
qed

text \<open>
  Closing a connected client connects it again, since \<^verbatim>\<open>close_session\<close> does so whatever
  \<^verbatim>\<open>m_auto_reconnect\<close> says; and the connect timer is cancelled.
\<close>

theorem close_client_reconnects:
  assumes "reach True c" "m_is_connected c"
  shows "\<exists>c'. do_close_client c = Some c' \<and> \<not> m_auto_reconnect c' \<and> m_is_connecting c' \<and>
    connects c' = [next_socket c] \<and> Pending \<notin> set (connect_waits c')"
proof -
  from calm_runs_ok [OF assms(1)] show ?thesis
    by (cases rule: client_ok_phases)
      (use assms(2) in \<open>auto simp: client_steps client_ok_def cancel_def\<close>)
qed

end
