(* ===== verification/Player_Registry.thy ===== *)
theory Player_Registry
  imports Message_Core
begin

text \<open>
  What the two player managers (\<^verbatim>\<open>server/LobbyServer\<close> and \<^verbatim>\<open>server/gamesvr\<close>) have in common: a
  table of player objects by user and a table of the same objects by session. The specification is
  a pair of maps, users to the sessions they are on and sessions to the users they act for; the
  locale \<open>registry\<close> states what logging in and closing a session do to the two tables, and its
  lemmas, proved once for both servers, show that the tables follow the specification in every run.

  When no session changes its user the two maps are each other's inverse and the specification is
  a single map (\<open>spec_fair\<close>); a session that does change its user leaves the first user behind.

  Player objects are shared pointers and are numbered in the order they are made; a pointer to a
  session is its number, or \<open>None\<close> when it is null.
\<close>

type_synonym session_ptr = "nat option"

section \<open>Specification\<close>

datatype reg_event = Logged_in int nat | Session_closed nat

type_synonym seating = "(int \<rightharpoonup> nat) \<times> (nat \<rightharpoonup> int)"

text \<open>
  A login gives the session to the user and takes the user's former session from whoever it acts
  for; a close ends the login of the user the session acts for.
\<close>

fun spec_step :: "reg_event \<Rightarrow> seating \<Rightarrow> seating" where
  "spec_step (Logged_in u s) (M, H) =
    (M(u \<mapsto> s), (case M u of None \<Rightarrow> H | Some old \<Rightarrow> H(old := None))(s \<mapsto> u))"
| "spec_step (Session_closed s) (M, H) =
    (case H s of None \<Rightarrow> (M, H) | Some u \<Rightarrow> (M(u := None), H(s := None)))"

definition spec_run :: "reg_event list \<Rightarrow> seating" where
  "spec_run es = fold spec_step es (Map.empty, Map.empty)"

text \<open>A session serves one user: it may log in again only as the user it is already on.\<close>

fun seat_step :: "reg_event \<Rightarrow> (int \<rightharpoonup> nat) \<Rightarrow> (int \<rightharpoonup> nat)" where
  "seat_step (Logged_in u s) M = M(u \<mapsto> s)"
| "seat_step (Session_closed s) M = (\<lambda>u. if M u = Some s then None else M u)"

fun fair_event :: "reg_event \<Rightarrow> (int \<rightharpoonup> nat) \<Rightarrow> bool" where
  "fair_event (Logged_in u s) M = (\<forall>v. M v = Some s \<longrightarrow> v = u)"
| "fair_event (Session_closed s) M = True"

fun fair_run :: "reg_event list \<Rightarrow> (int \<rightharpoonup> nat) \<Rightarrow> bool" where
  "fair_run [] M = True"
| "fair_run (e # es) M = (fair_event e M \<and> fair_run es (seat_step e M))"

definition seat_run :: "reg_event list \<Rightarrow> (int \<rightharpoonup> nat)" where
  "seat_run es = fold seat_step es Map.empty"

definition mutual :: "seating \<Rightarrow> bool" where
  "mutual T \<longleftrightarrow> (\<forall>u s. fst T u = Some s \<longleftrightarrow> snd T s = Some u)"

lemma spec_step_fair:
  assumes "mutual (M, H)" "fair_event e M"
  shows "fst (spec_step e (M, H)) = seat_step e M \<and> mutual (spec_step e (M, H))"
proof (cases e)
  case (Logged_in u s)
  have m: "M v = Some t \<longleftrightarrow> H t = Some v" for v t using assms(1) by (simp add: mutual_def)
  have fair: "M v = Some s \<Longrightarrow> v = u" for v using assms(2) Logged_in by simp
  have "H t \<noteq> Some u" if "M u = None" for t using that m [of u t] by simp
  then show ?thesis using Logged_in m fair
    by (auto simp: mutual_def split: option.split) (metis option.inject)+
next
  case (Session_closed s)
  have m: "M v = Some t \<longleftrightarrow> H t = Some v" for v t using assms(1) by (simp add: mutual_def)
  show ?thesis
  proof (cases "H s")
    case None
    then have "M v \<noteq> Some s" for v by (simp add: m)
    with None Session_closed assms(1) show ?thesis by (auto simp: fun_eq_iff)
  next
    case (Some u)
    then have alone: "M v = Some s \<longleftrightarrow> v = u" for v using m [of v s] by auto
    have other: "H t = Some u \<longleftrightarrow> t = s" for t using m [of u t] alone [of u] by auto
    have "(M(u := None)) v = Some t \<longleftrightarrow> (H(s := None)) t = Some v" for v t
      using m [of v t] alone [of v] other [of t] by auto
    moreover have "seat_step e M = M(u := None)" using alone by (auto simp: Session_closed fun_eq_iff)
    ultimately show ?thesis using Some Session_closed by (simp add: mutual_def)
  qed
qed

theorem spec_fair:
  assumes "fair_run es Map.empty"
  shows "fst (spec_run es) = seat_run es \<and> mutual (spec_run es)"
proof -
  have "fst (fold spec_step es T) = fold seat_step es (fst T) \<and> mutual (fold spec_step es T)"
    if "mutual T" "fair_run es (fst T)" for T
    using that
  proof (induction es arbitrary: T)
    case (Cons e es)
    obtain M H where T: "T = (M, H)" by fastforce
    with spec_step_fair [of M H e] Cons.prems Cons.IH [of "spec_step e (M, H)"] show ?case by simp
  qed simp
  moreover have "mutual (Map.empty, Map.empty)" by (simp add: mutual_def)
  ultimately show ?thesis unfolding spec_run_def seat_run_def using assms by (metis fst_conv)
qed

section \<open>The interface\<close>

locale registry =
  fixes login :: "'r \<Rightarrow> int \<rightharpoonup> nat"
    and online :: "'r \<Rightarrow> session_ptr \<rightharpoonup> nat"
    and user_of :: "'r \<Rightarrow> nat \<Rightarrow> int"
    and session_of :: "'r \<Rightarrow> nat \<Rightarrow> session_ptr"
    and fresh :: "'r \<Rightarrow> nat"
    and stays :: "'r \<Rightarrow> nat \<Rightarrow> bool"
    and add :: "int \<Rightarrow> session_ptr \<Rightarrow> 'r \<Rightarrow> 'r"
    and close :: "session_ptr \<Rightarrow> 'r \<Rightarrow> 'r option"
  assumes add_known: "login r u = Some p \<Longrightarrow>
      login (add u s r) = login r \<and> online (add u s r) = (online r)(session_of r p := None, s \<mapsto> p) \<and>
      user_of (add u s r) = user_of r \<and> session_of (add u s r) = (session_of r)(p := s) \<and>
      fresh (add u s r) = fresh r"
    and add_new: "login r u = None \<Longrightarrow>
      login (add u s r) = (login r)(u \<mapsto> fresh r) \<and> online (add u s r) = (online r)(s \<mapsto> fresh r) \<and>
      user_of (add u s r) = (user_of r)(fresh r := u) \<and> session_of (add u s r) = (session_of r)(fresh r := s) \<and>
      fresh (add u s r) = Suc (fresh r)"
    and close_unknown: "online r s = None \<Longrightarrow>
      \<exists>r'. close s r = Some r' \<and> login r' = login r \<and> online r' = online r \<and> user_of r' = user_of r \<and>
        session_of r' = session_of r \<and> fresh r' = fresh r"
    and close_known: "online r s = Some p \<Longrightarrow> login r (user_of r p) = Some p \<Longrightarrow>
      \<exists>r'. close s r = Some r' \<and> login r' = (if stays r p then login r else (login r)(user_of r p := None)) \<and>
        online r' = (online r)(s := None) \<and> user_of r' = user_of r \<and>
        session_of r' = (session_of r)(p := None) \<and> fresh r' = fresh r"
begin

text \<open>The session a user is on.\<close>

definition seat :: "'r \<Rightarrow> int \<rightharpoonup> nat" where
  "seat r u = (case login r u of None \<Rightarrow> None | Some p \<Rightarrow> session_of r p)"

text \<open>What holds whatever logs in: the table by session lists objects that are also in the table by user.\<close>

definition tables_ok :: "'r \<Rightarrow> bool" where
  "tables_ok r \<longleftrightarrow>
     (\<forall>u p. login r u = Some p \<longrightarrow> p < fresh r \<and> user_of r p = u) \<and>
     (\<forall>k p. online r k = Some p \<longrightarrow>
        k \<noteq> None \<and> session_of r p = k \<and> login r (user_of r p) = Some p)"

text \<open>The user a session acts for, and the pair that the specification speaks about.\<close>

definition holder :: "'r \<Rightarrow> nat \<rightharpoonup> int" where
  "holder r s = map_option (user_of r) (online r (Some s))"

definition seating :: "'r \<Rightarrow> seating" where
  "seating r = (seat r, holder r)"

lemma tables_okD:
  assumes "tables_ok r"
  shows "login r u = Some p \<Longrightarrow> p < fresh r" "login r u = Some p \<Longrightarrow> user_of r p = u"
    and "online r k = Some p \<Longrightarrow> session_of r p = k" "online r k = Some p \<Longrightarrow> login r (user_of r p) = Some p"
    and "online r None = None"
  using assms unfolding tables_ok_def by (blast, blast, blast, blast, metis option.exhaust)

lemma add_tables_ok:
  assumes ok: "tables_ok r"
  shows "tables_ok (add u (Some s) r)"
proof (cases "login r u")
  case None
  note a = add_new [OF None, of "Some s"]
  show ?thesis unfolding tables_ok_def
  proof (intro conjI allI impI)
    fix v p assume "login (add u (Some s) r) v = Some p"
    then show "p < fresh (add u (Some s) r)" "user_of (add u (Some s) r) p = v"
      using a tables_okD(1,2) [OF ok] by (auto split: if_splits dest: less_SucI)
  next
    fix k p assume k: "online (add u (Some s) r) k = Some p"
    show "k \<noteq> None" using k a tables_okD(5) [OF ok] by (cases k) auto
    have old: "p \<noteq> fresh r \<and> user_of r p \<noteq> u" if "online r k = Some p"
      using tables_okD(1,4) [OF ok] that None by fastforce
    show "session_of (add u (Some s) r) p = k"
      and "login (add u (Some s) r) (user_of (add u (Some s) r) p) = Some p"
      using k a old tables_okD(3,4) [OF ok] by (auto split: if_splits)
  qed
next
  case (Some q)
  note a = add_known [OF Some, of "Some s"]
  show ?thesis unfolding tables_ok_def
  proof (intro conjI allI impI)
    fix v p assume "login (add u (Some s) r) v = Some p"
    then show "p < fresh (add u (Some s) r)" "user_of (add u (Some s) r) p = v"
      using a tables_okD(1,2) [OF ok] by auto
  next
    fix k p assume k: "online (add u (Some s) r) k = Some p"
    show "k \<noteq> None" using k a tables_okD(5) [OF ok] by (cases k) (auto split: if_splits)
    show "session_of (add u (Some s) r) p = k"
      and "login (add u (Some s) r) (user_of (add u (Some s) r) p) = Some p"
      using k a Some tables_okD(2,3,4) [OF ok] by (auto split: if_splits)
  qed
qed

text \<open>In particular the assertions in the code that closes a session hold.\<close>

lemma close_tables_ok:
  assumes ok: "tables_ok r"
  shows "\<exists>r'. close (Some s) r = Some r' \<and> tables_ok r'"
proof (cases "online r (Some s)")
  case None
  from close_unknown [OF this] ok show ?thesis by (fastforce simp: tables_ok_def)
next
  case (Some p)
  have lp: "login r (user_of r p) = Some p" using ok Some by (rule tables_okD(4))
  from close_known [OF Some lp] obtain r' where r': "close (Some s) r = Some r'"
      "login r' = (if stays r p then login r else (login r)(user_of r p := None))"
      "online r' = (online r)(Some s := None)" "user_of r' = user_of r" "session_of r' = (session_of r)(p := None)"
      "fresh r' = fresh r" by blast
  have other: "q \<noteq> p" if "online r k = Some q" "k \<noteq> Some s" for k q
    using that Some tables_okD(3) [OF ok] by metis
  have user: "user_of r q \<noteq> user_of r p" if "online r k = Some q" "q \<noteq> p" for k q
    using that lp tables_okD(4) [OF ok] by fastforce
  have "tables_ok r'" unfolding tables_ok_def
  proof (intro conjI allI impI)
    fix u q assume "login r' u = Some q"
    then show "q < fresh r'" "user_of r' q = u"
      using r' tables_okD(1,2) [OF ok] by (auto split: if_splits)
  next
    fix k q assume "online r' k = Some q"
    then have k: "online r k = Some q" "k \<noteq> Some s" using r' by (auto split: if_splits)
    then show "k \<noteq> None" using tables_okD(5) [OF ok] by (cases k) auto
    show "session_of r' q = k" "login r' (user_of r' q) = Some q"
      using k other [OF k] user [OF k(1) other [OF k]] r' tables_okD(3,4) [OF ok] by auto
  qed
  with r' show ?thesis by blast
qed

lemma seat_iff: "seat r u = Some s \<longleftrightarrow> (\<exists>p. login r u = Some p \<and> session_of r p = Some s)"
  by (simp add: seat_def split: option.split)

lemma add_seat: "tables_ok r \<Longrightarrow> seat (add u (Some s) r) = (seat r)(u \<mapsto> s)"
proof (rule ext)
  fix v assume ok: "tables_ok r"
  show "seat (add u (Some s) r) v = ((seat r)(u \<mapsto> s)) v"
  proof (cases "login r u")
    case None
    from add_new [OF this, of "Some s"] show ?thesis
      using tables_okD(1) [OF ok, of v] by (auto simp: seat_def split: option.split)
  next
    case (Some p)
    have "login r v = Some q \<Longrightarrow> v \<noteq> u \<Longrightarrow> q \<noteq> p" for q using Some tables_okD(2) [OF ok] by metis
    with Some add_known [OF Some, of "Some s"] show ?thesis by (auto simp: seat_def split: option.split)
  qed
qed

lemma add_holder:
  assumes ok: "tables_ok r"
  shows "holder (add u (Some s) r) = (case seat r u of None \<Rightarrow> holder r | Some old \<Rightarrow> (holder r)(old := None))(s \<mapsto> u)"
proof (cases "login r u")
  case None
  then have "seat r u = None" by (simp add: seat_def)
  moreover have "online r k = Some p \<Longrightarrow> p \<noteq> fresh r" for k p using tables_okD(1,4) [OF ok] by blast
  ultimately show ?thesis using add_new [OF None, of "Some s"]
    by (intro ext) (auto simp: holder_def split: option.split intro!: option.map_cong)
next
  case (Some p)
  have "user_of r p = u" using ok Some by (rule tables_okD(2))
  with Some add_known [OF Some, of "Some s"] tables_okD(5) [OF ok] show ?thesis
    by (intro ext) (auto simp: holder_def seat_def split: option.split)
qed

lemma close_seating:
  assumes ok: "tables_ok r" and c: "close (Some s) r = Some r'"
  shows "seating r' = spec_step (Session_closed s) (seating r)"
proof (cases "online r (Some s)")
  case None
  from close_unknown [OF None] c
  have "login r' = login r" "online r' = online r" "user_of r' = user_of r" "session_of r' = session_of r" by auto
  with None show ?thesis by (simp add: seating_def seat_def [abs_def] holder_def [abs_def] cong: option.case_cong)
next
  case (Some p)
  have lp: "login r (user_of r p) = Some p" using ok Some by (rule tables_okD(4))
  from close_known [OF Some lp] c have r':
      "login r' = (if stays r p then login r else (login r)(user_of r p := None))"
      "online r' = (online r)(Some s := None)" "user_of r' = user_of r" "session_of r' = (session_of r)(p := None)" by auto
  have other: "u \<noteq> user_of r p \<Longrightarrow> login r u = Some q \<Longrightarrow> q \<noteq> p" for u q using lp tables_okD(2) [OF ok] by metis
  have "seat r' u = ((seat r)(user_of r p := None)) u" for u
    using r' lp other [of u] by (auto simp: seat_def split: option.split)
  then have "seat r' = (seat r)(user_of r p := None)" ..
  moreover have "holder r' = (holder r)(s := None)" using r' by (intro ext) (simp add: holder_def)
  ultimately show ?thesis using Some by (simp add: seating_def holder_def)
qed

text \<open>One event, and then a run of them.\<close>

definition reg_step :: "reg_event \<Rightarrow> 'r \<Rightarrow> 'r option" where
  "reg_step e r = (case e of Logged_in u s \<Rightarrow> Some (add u (Some s) r) | Session_closed s \<Rightarrow> close (Some s) r)"

lemma reg_step_ok: "tables_ok r \<Longrightarrow> \<exists>r'. reg_step e r = Some r' \<and> tables_ok r'"
  using add_tables_ok close_tables_ok by (cases e) (auto simp: reg_step_def)

lemma add_seating: "tables_ok r \<Longrightarrow> seating (add u (Some s) r) = spec_step (Logged_in u s) (seating r)"
  by (simp add: seating_def add_seat add_holder)

theorem reg_step_refines:
  "tables_ok r \<Longrightarrow> reg_step e r = Some r' \<Longrightarrow> seating r' = spec_step e (seating r)"
  by (cases e) (auto simp: reg_step_def add_seating close_seating)

end

end
