(* ===== verification/Json_Value.thy ===== *)
theory Json_Value
  imports Complex_Main "HOL-Library.AList" SF_Prelude
begin

text \<open>
  What the servers use of \<^verbatim>\<open>common/libtools/Json.hpp\<close>: JSON values, the tests on them, element
  access and conversion. Parsing and printing are parameters where they are used. \<open>None\<close> is a thrown
  \<^verbatim>\<open>type_error\<close> or a failed assertion; neither is caught anywhere. A floating-point number is the
  rational it stands for. The order of the members of an object is not observable in the servers.
\<close>

datatype json =
    JNull
  | JBool bool
  | JInt int
  | JUnsigned nat
  | JFloat rat
  | JString string
  | JArray "json list"
  | JObject "(string \<times> json) list"

fun is_valid :: "json \<Rightarrow> bool" where
  "is_valid JNull = False"
| "is_valid _ = True"

fun is_object :: "json \<Rightarrow> bool" where
  "is_object (JObject m) = True"
| "is_object _ = False"

fun is_number :: "json \<Rightarrow> bool" where
  "is_number (JInt i) = True"
| "is_number (JUnsigned n) = True"
| "is_number (JFloat q) = True"
| "is_number _ = False"

fun is_string :: "json \<Rightarrow> bool" where
  "is_string (JString s) = True"
| "is_string _ = False"

text \<open>
  \<^verbatim>\<open>operator[]\<close> on a constant value asserts that the key is there; on a variable it creates a null
  member, and an object from null. \<open>json_ref\<close> is the first; \<open>json_index\<close> the second, with the
  changed value; \<open>json_put\<close> the assignment through it.
\<close>

fun json_ref :: "json \<Rightarrow> string \<Rightarrow> json option" where
  "json_ref (JObject m) k = map_of m k"
| "json_ref _ k = None"

fun json_put :: "json \<Rightarrow> string \<Rightarrow> json \<Rightarrow> json option" where
  "json_put JNull k v = Some (JObject [(k, v)])"
| "json_put (JObject m) k v = Some (JObject (AList.update k v m))"
| "json_put _ k v = None"

definition json_index :: "json \<Rightarrow> string \<Rightarrow> (json \<times> json) option" where
  "json_index j k =
    (case j of
       JObject m \<Rightarrow> (case map_of m k of Some v \<Rightarrow> Some (v, j) | None \<Rightarrow> map_option (Pair JNull) (json_put j k JNull))
     | _ \<Rightarrow> map_option (Pair JNull) (json_put j k JNull))"

text \<open>
  \<^verbatim>\<open>get<int>\<close> casts: integers are reduced to 32 bits, a floating-point number is truncated and
  undefined outside the range.
\<close>

definition to_int32 :: "int \<Rightarrow> int" where
  "to_int32 i = sint (word_of_int i :: u32)"

definition truncate_rat :: "rat \<Rightarrow> int" where
  "truncate_rat q = (if 0 \<le> q then \<lfloor>q\<rfloor> else \<lceil>q\<rceil>)"

fun get_int :: "json \<Rightarrow> int option" where
  "get_int (JInt i) = Some (to_int32 i)"
| "get_int (JUnsigned n) = Some (to_int32 (int n))"
| "get_int (JFloat q) =
    (let i = truncate_rat q in if - 2147483648 \<le> i \<and> i \<le> 2147483647 then Some i else None)"
| "get_int (JBool b) = Some (if b then 1 else 0)"
| "get_int _ = None"

fun get_string :: "json \<Rightarrow> string option" where
  "get_string (JString s) = Some s"
| "get_string _ = None"

text \<open>The values a range-based loop visits.\<close>

fun json_elements :: "json \<Rightarrow> json list" where
  "json_elements JNull = []"
| "json_elements (JArray vs) = vs"
| "json_elements (JObject m) = map snd m"
| "json_elements j = [j]"

lemma json_ref_put:
  "json_put j k v = Some j' \<Longrightarrow> json_ref j' k' = (if k' = k then Some v else json_ref j k')"
  by (cases "(j, k, v)" rule: json_put.cases) (auto simp: update_conv')

lemma json_put_object: "json_put (JObject m) k v = Some (JObject (AList.update k v m))"
  by simp

lemma to_int32_eq: "to_int32 i = signed_take_bit 31 i"
  unfolding to_int32_def by (simp add: sint_sbintrunc')

lemma to_int32_id: "- 2147483648 \<le> i \<Longrightarrow> i \<le> 2147483647 \<Longrightarrow> to_int32 i = i"
  unfolding to_int32_eq by (rule signed_take_bit_int_eq_self) simp_all

lemma to_int32_range: "- 2147483648 \<le> to_int32 i" "to_int32 i \<le> 2147483647"
  unfolding to_int32_eq
  using signed_take_bit_int_greater_eq_minus_exp [of 31 i] signed_take_bit_int_less_exp [of 31 i] by simp_all

end
