(* ===== verification/Server_Env.thy ===== *)
theory Server_Env
  imports Player_Registry Json_Value Aes_Bt
begin

text \<open>
  What the lobby and the game server share beside the registry: the world they run in, and the
  messages they send on their own. The generated message classes are parameters: how a request is
  read from a body (\<open>None\<close> is the failed \<^verbatim>\<open>dynamic_cast\<close>) and how a body is made. \<open>junk\<close>, \<open>fresh_mem\<close>
  and \<open>decode_pos\<close> are the memory that decoding a token leaves unwritten or reads.
\<close>

record 'p server_env =
  env_pb :: "'p pb_ops"
  env_maker :: "'p maker"
  token_request :: "'p \<Rightarrow> u8 list option"
  kick_request :: "'p \<Rightarrow> (int \<times> int \<times> u8 list) option"
  shutdown_body :: 'p
  elsewhere_body :: "int \<Rightarrow> u8 list \<Rightarrow> 'p"
  notify_body :: "int \<Rightarrow> 'p"
  json_parse :: "u8 list \<Rightarrow> json option"
  junk :: "nat \<Rightarrow> u32"
  fresh_mem :: "nat \<Rightarrow> u8 list"
  decode_pos :: u8

definition CODE_SUCCESS :: u32 where "CODE_SUCCESS = 0"
definition CODE_PARAMETER_INVALID :: u32 where "CODE_PARAMETER_INVALID = 2"
definition CODE_SYSTEM_ERROR :: u32 where "CODE_SYSTEM_ERROR = 4"
definition CODE_CHECK_GAME_TOKEN_FAILED :: u32 where "CODE_CHECK_GAME_TOKEN_FAILED = 1000"
definition CODE_SESSION_HAV_NO_USER :: u32 where "CODE_SESSION_HAV_NO_USER = 1001"

definition CMD_PLAYER_LOGIN_ELSEWHERE :: u32 where "CMD_PLAYER_LOGIN_ELSEWHERE = 2025"

text \<open>A message of a command with a body, as \<^verbatim>\<open>FULL_MSG\<close> makes it.\<close>

definition full_msg :: "u32 \<Rightarrow> 'p \<Rightarrow> session_ptr \<Rightarrow> 'p message" where
  "full_msg cmd body s = \<lparr>m_header = new_header\<lparr>cmdtype := cmd\<rparr>, m_message = Some body, m_session = s\<rparr>"

text \<open>\<^verbatim>\<open>send_failed_reason\<close> as an action of the handler.\<close>

definition failed_reason :: "'p server_env \<Rightarrow> 'p message \<Rightarrow> u32 \<Rightarrow> 'p action list option" where
  "failed_reason E msg code = map_option (\<lambda>r. [Respond r]) (send_failed_reason (env_pb E) (env_maker E) msg code)"

text \<open>The body of a message as a class; \<open>None\<close> also when there is no body.\<close>

definition pbmessage :: "('p \<Rightarrow> 'q option) \<Rightarrow> 'p message \<Rightarrow> 'q option" where
  "pbmessage read msg = Option.bind (m_message msg) read"

text \<open>The four tests of a token, as both servers write them; the key of each must be there.\<close>

definition token_tests :: "json \<Rightarrow> bool option" where
  "token_tests user_token =
    (if \<not> is_valid user_token then Some False
     else do {
       user_id \<leftarrow> json_ref user_token ''user_id'';
       if \<not> is_number user_id then Some False
       else do {
         user_account \<leftarrow> json_ref user_token ''user_account'';
         if \<not> is_string user_account then Some False
         else do {
           user_type \<leftarrow> json_ref user_token ''user_type'';
           Some (is_number user_type) } } })"

lemma failed_reason_Some:
  "m_session msg = Some s \<Longrightarrow> \<exists>r. failed_reason E msg code = Some [Respond r] \<and>
     response_result (m_header r) = code \<and> cmdtype (m_header r) = cmdtype (m_header msg)"
  by (simp add: failed_reason_def send_failed_reason_def send_response_def stamp_response_def Let_def)

lemma failed_reason_None [simp]: "failed_reason E msg code = None \<longleftrightarrow> m_session msg = None"
  by (simp add: failed_reason_def send_failed_reason_def send_response_def Let_def)

text \<open>
  A world for examples: bodies are byte strings and the token request is the token; every decoded
  text parses as the given value.
\<close>

definition demo_server :: "json \<Rightarrow> u8 list server_env" where
  "demo_server j =
    \<lparr>env_pb = \<lparr>pb_new = (\<lambda>p. p), pb_bytes = (\<lambda>p. p), pb_parse = (\<lambda>_ b. Some b), hd_bytes = (\<lambda>_. []), hd_parse = (\<lambda>_. None)\<rparr>,
     env_maker = \<lparr>cmd_request = Map.empty, cmd_response = Map.empty, cmd_names = Map.empty\<rparr>,
     token_request = Some, kick_request = (\<lambda>_. None), shutdown_body = [], elsewhere_body = (\<lambda>_ d. d),
     notify_body = (\<lambda>_. []), json_parse = (\<lambda>_. Some j), junk = (\<lambda>_. 0), fresh_mem = (\<lambda>n. replicate n 0), decode_pos = 0\<rparr>"

text \<open>Some text that both decryptions accept.\<close>

lemma demo_token:
  "\<exists>token. AES_ecb128_decrypt (junk (demo_server j)) (fresh_mem (demo_server j)) (decode_pos (demo_server j)) token = Some [120]"
  "\<exists>token. AES_ecb128_decrypt_seed (junk (demo_server j)) (fresh_mem (demo_server j)) (decode_pos (demo_server j)) token seed = Some [120]"
proof -
  have "\<exists>e. decrypt_with (\<lambda>_. 0) (\<lambda>n. replicate n 0) 0 e key = Some [120]" for key
    using decrypt_encrypt_with [of "\<lambda>n. replicate n 0" "\<lambda>_. 0" "[120]" key "\<lambda>_. 0" 0] by (auto simp: c_string_def)
  then show "\<exists>token. AES_ecb128_decrypt (junk (demo_server j)) (fresh_mem (demo_server j)) (decode_pos (demo_server j)) token = Some [120]"
    and "\<exists>token. AES_ecb128_decrypt_seed (junk (demo_server j)) (fresh_mem (demo_server j)) (decode_pos (demo_server j)) token seed = Some [120]"
    by (simp_all add: AES_ecb128_decrypt_def AES_ecb128_decrypt_seed_def demo_server_def)
qed

end
