(* ===== verification/Lobby_Server.thy ===== *)
theory Lobby_Server
  imports Server_Env "HOL-Library.Signed_Division"
begin

text \<open>
  \<^verbatim>\<open>server/LobbyServer\<close>: the player manager (\<^verbatim>\<open>PlayerManager.cpp\<close>, \<^verbatim>\<open>Player.cpp\<close>), the routing of
  requests to the other servers (\<^verbatim>\<open>LobbyModule.cpp\<close>) and the task that ties them to the sessions
  (\<^verbatim>\<open>LobbyTask.cpp\<close>). The handlers have the type of \<open>Message_Core\<close> and run under its dispatcher.
  Times are nanoseconds of the steady clock, those of players seconds.
\<close>

section \<open>State\<close>

record lobby_player =
  pl_user_id :: int
  pl_session :: session_ptr
  online_check_time :: int

record 'p mq_request =
  mq_cmd :: u32
  mq_exchange :: string
  mq_route :: string
  mq_body :: "'p option"
  mq_origin :: "'p message option"

datatype route_fun =
    NormalRout string string
  | HashRout int string string
  | RoomRout int int string string
  | No_route

record msg_rout =
  m_cmd_begin :: int
  m_cmd_end :: int
  m_route_fun :: route_fun

record 'p lobby =
  m_login_user :: "int \<rightharpoonup> nat"
  m_online_user :: "session_ptr \<rightharpoonup> nat"
  m_session_time :: "session_ptr \<rightharpoonup> int"
  players :: "nat \<Rightarrow> lobby_player"
  next_player :: nat
  m_msg_route :: "msg_rout list"
  mq_session :: bool
  sent :: "(nat \<times> 'p message) list"
  mq_sent :: "'p mq_request list"

definition new_lobby :: "msg_rout list \<Rightarrow> 'p lobby" where
  "new_lobby routes = \<lparr>m_login_user = Map.empty, m_online_user = Map.empty, m_session_time = Map.empty,
     players = (\<lambda>_. \<lparr>pl_user_id = -1, pl_session = None, online_check_time = 0\<rparr>), next_player = 0,
     m_msg_route = routes, mq_session = True, sent = [], mq_sent = []\<rparr>"

definition MAX_LOGIN_SEC :: int where "MAX_LOGIN_SEC = 5"

section \<open>\<^verbatim>\<open>PlayerManager.cpp\<close>\<close>

definition user_of_player :: "'p lobby \<Rightarrow> nat \<Rightarrow> int" where
  "user_of_player l p = pl_user_id (players l p)"

definition session_of_player :: "'p lobby \<Rightarrow> nat \<Rightarrow> session_ptr" where
  "session_of_player l p = pl_session (players l p)"

definition set_session :: "nat \<Rightarrow> session_ptr \<Rightarrow> 'p lobby \<Rightarrow> 'p lobby" where
  "set_session p s l = l\<lparr>players := (players l)(p := (players l p)\<lparr>pl_session := s\<rparr>)\<rparr>"

definition flush_online_time :: "nat \<Rightarrow> int \<Rightarrow> 'p lobby \<Rightarrow> 'p lobby" where
  "flush_online_time p now l = l\<lparr>players := (players l)(p := (players l p)\<lparr>online_check_time := now\<rparr>)\<rparr>"

definition make_shared_player :: "int \<Rightarrow> session_ptr \<Rightarrow> int \<Rightarrow> 'p lobby \<Rightarrow> nat \<times> 'p lobby" where
  "make_shared_player user_id s now l =
    (next_player l,
     l\<lparr>players := (players l)(next_player l := \<lparr>pl_user_id = user_id, pl_session = s, online_check_time = now\<rparr>),
       next_player := Suc (next_player l)\<rparr>)"

definition send_to :: "session_ptr \<Rightarrow> 'p message \<Rightarrow> 'p lobby \<Rightarrow> 'p lobby option" where
  "send_to s msg l = (case s of None \<Rightarrow> None | Some n \<Rightarrow> Some (l\<lparr>sent := sent l @ [(n, msg)]\<rparr>))"

definition on_session_open_lobby :: "session_ptr \<Rightarrow> int \<Rightarrow> 'p lobby \<Rightarrow> 'p lobby" where
  "on_session_open_lobby s now l = l\<lparr>m_session_time := (m_session_time l)(s \<mapsto> now)\<rparr>"

definition on_session_close_lobby :: "session_ptr \<Rightarrow> 'p lobby \<Rightarrow> 'p lobby" where
  "on_session_close_lobby s l =
    (let l = l\<lparr>m_session_time := (m_session_time l)(s := None)\<rparr>
     in case m_online_user l s of
         None \<Rightarrow> l
       | Some player \<Rightarrow>
           let l = set_session player None l;
               l = l\<lparr>m_online_user := (m_online_user l)(s := None)\<rparr>
           in l\<lparr>m_login_user := (m_login_user l)(user_of_player l player := None)\<rparr>)"

definition on_timeout_lobby :: "int \<Rightarrow> 'p lobby \<Rightarrow> 'p lobby" where
  "on_timeout_lobby tnow l =
    l\<lparr>m_session_time := (\<lambda>s. case m_session_time l s of
        Some t \<Rightarrow> if tnow < t + MAX_LOGIN_SEC * 1000000000 then Some t else None
      | None \<Rightarrow> None)\<rparr>"

definition shutdown_user_session :: "'p server_env \<Rightarrow> session_ptr \<Rightarrow> 'p lobby \<Rightarrow> 'p lobby option" where
  "shutdown_user_session E s l = send_to s (full_msg CMD_SHUTDOWN_SESSION (shutdown_body E) s) l"

definition send_player_login_elsewhere ::
  "'p server_env \<Rightarrow> session_ptr \<Rightarrow> int \<Rightarrow> u8 list \<Rightarrow> 'p lobby \<Rightarrow> 'p lobby option" where
  "send_player_login_elsewhere E s reason description l =
     send_to s (full_msg CMD_PLAYER_LOGIN_ELSEWHERE (elsewhere_body E reason description) s) l"

definition add_user_session :: "'p server_env \<Rightarrow> int \<Rightarrow> int \<Rightarrow> session_ptr \<Rightarrow> 'p lobby \<Rightarrow> 'p lobby" where
  "add_user_session E now user_id s l =
    (case m_login_user l user_id of
       Some player \<Rightarrow>
         let old_session = session_of_player l player;
             l = set_session player s l;
             l = l\<lparr>m_online_user := (m_online_user l)(old_session := None, s \<mapsto> player)\<rparr>
         in if old_session \<noteq> None \<and> old_session \<noteq> s
            then (case shutdown_user_session E old_session l of Some l \<Rightarrow> l | None \<Rightarrow> l) else l
     | None \<Rightarrow>
         let (player, l) = make_shared_player user_id s now l
         in l\<lparr>m_login_user := (m_login_user l)(user_id \<mapsto> player), m_online_user := (m_online_user l)(s \<mapsto> player)\<rparr>)"

definition recv_session :: "int \<Rightarrow> 'p lobby \<Rightarrow> session_ptr" where
  "recv_session user_id l =
    (case m_login_user l user_id of None \<Rightarrow> None | Some player \<Rightarrow> session_of_player l player)"

definition make_player :: "int \<Rightarrow> int \<Rightarrow> session_ptr \<Rightarrow> 'p lobby \<Rightarrow> nat \<times> 'p lobby" where
  "make_player now player_id s l =
    (case m_login_user l player_id of
       None \<Rightarrow>
         let (player, l) = make_shared_player player_id s now l
         in (player, l\<lparr>m_login_user := (m_login_user l)(player_id \<mapsto> player), m_online_user := (m_online_user l)(s \<mapsto> player)\<rparr>)
     | Some player \<Rightarrow> (player, flush_online_time player now l))"

definition destory_player :: "nat \<Rightarrow> 'p lobby \<Rightarrow> 'p lobby option" where
  "destory_player player l =
    (case m_login_user l (user_of_player l player) of
       None \<Rightarrow> None
     | Some found \<Rightarrow>
         Some (l\<lparr>m_online_user := (m_online_user l)(session_of_player l found := None),
            m_login_user := (m_login_user l)(user_of_player l player := None)\<rparr>))"


definition check_user_token :: "json \<Rightarrow> bool option" where
  "check_user_token user_token = token_tests user_token"


definition on_kick_out_user :: "'p server_env \<Rightarrow> 'p message \<Rightarrow> 'p lobby \<Rightarrow> 'p lobby option" where
  "on_kick_out_user E msg l = do {
     (userid, reason, description) \<leftarrow> pbmessage (kick_request E) msg;
     let recvses = recv_session userid l;
     if recvses = None then Some l
     else do {
       l \<leftarrow> send_player_login_elsewhere E recvses reason description l;
       shutdown_user_session E recvses l } }"

definition flush_user_online :: "int \<Rightarrow> session_ptr \<Rightarrow> 'p lobby \<Rightarrow> 'p lobby" where
  "flush_user_online now s l =
    (case m_online_user l s of Some player \<Rightarrow> flush_online_time player now l | None \<Rightarrow> l)"

definition check_user_msg :: "int \<Rightarrow> 'p message \<Rightarrow> 'p lobby \<Rightarrow> int option \<times> 'p lobby" where
  "check_user_msg now msg l =
    (case m_online_user l (m_session msg) of
       None \<Rightarrow> (None, l)
     | Some player \<Rightarrow> (Some (user_of_player l player), flush_user_online now (m_session msg) l))"

text \<open>\<^verbatim>\<open>MqClient::send_message\<close>, with or without a callback, fails when there is no session.\<close>

definition mq_send_message ::
  "u32 \<Rightarrow> 'p option \<Rightarrow> string \<Rightarrow> string \<Rightarrow> 'p message option \<Rightarrow> 'p lobby \<Rightarrow> bool \<times> 'p lobby" where
  "mq_send_message cmd body exch route origin l =
    (if mq_session l
     then (True, l\<lparr>mq_sent := mq_sent l @
       [\<lparr>mq_cmd = cmd, mq_exchange = exch, mq_route = route, mq_body = body, mq_origin = origin\<rparr>]\<rparr>)
     else (False, l))"

definition tell_user_login_lobby :: "'p server_env \<Rightarrow> int \<Rightarrow> 'p lobby \<Rightarrow> 'p lobby" where
  "tell_user_login_lobby E user_id l =
     snd (mq_send_message 4047 (Some (notify_body E user_id)) ''lobby.topic'' ''token_login'' None l)"

definition player_token_login ::
  "'p server_env \<Rightarrow> int \<Rightarrow> 'p message \<Rightarrow> 'p lobby \<Rightarrow> (bool \<times> 'p lobby \<times> 'p action list) option" where
  "player_token_login E now msg l = do {
     usertoken \<leftarrow> pbmessage (token_request E) msg;
     decode_token \<leftarrow> AES_ecb128_decrypt (junk E) (fresh_mem E) (decode_pos E) usertoken;
     jv \<leftarrow> json_parse E decode_token;
     passed \<leftarrow> check_user_token jv;
     if \<not> passed then do {
       acts \<leftarrow> failed_reason E msg CODE_CHECK_GAME_TOKEN_FAILED;
       Some (False, l, acts @ [Send (full_msg CMD_SHUTDOWN_SESSION (shutdown_body E) None)]) }
     else do {
       (id, _) \<leftarrow> json_index jv ''user_id'';
       user_id \<leftarrow> get_int id;
       if m_session msg = None then None
       else do {
         let l = tell_user_login_lobby E user_id l;
         acts \<leftarrow> failed_reason E msg CODE_SUCCESS;
         Some (True, add_user_session E now user_id (m_session msg) l, acts) } } }"

section \<open>\<^verbatim>\<open>LobbyModule.cpp\<close>\<close>

definition is_cmd_match :: "int \<Rightarrow> msg_rout \<Rightarrow> bool" where
  "is_cmd_match msg_cmd r \<longleftrightarrow> m_cmd_begin r \<le> msg_cmd \<and> msg_cmd < m_cmd_end r"

text \<open>
  Division by zero and the quotient of the least \<^verbatim>\<open>int\<close> by -1 are undefined; calling an empty
  \<^verbatim>\<open>std::function\<close> throws. The room number is the constant of the code.
\<close>

definition route_key :: "string \<Rightarrow> int \<Rightarrow> string" where
  "route_key route n = route @ ''-'' @ int_to_string n"

fun get_ex_route :: "int \<Rightarrow> route_fun \<Rightarrow> (string \<times> string) option" where
  "get_ex_route user_id (NormalRout exch route) = Some (exch, route)"
| "get_ex_route user_id (HashRout n exch route) =
    (if n = 0 \<or> n = -1 \<and> user_id = -2147483648 then None
     else Some (exch, route_key route (user_id smod n)))"
| "get_ex_route user_id (RoomRout room_begin per_svr exch route) =
    (if per_svr = 0 then None else Some (exch, route_key route (1000 sdiv per_svr)))"
| "get_ex_route user_id No_route = None"

definition dispatch_app_msg ::
  "'p server_env \<Rightarrow> int \<Rightarrow> 'p message \<Rightarrow> 'p lobby \<Rightarrow> ('p lobby \<times> 'p action list) option" where
  "dispatch_app_msg E user_id msg l =
    (case find (is_cmd_match (sint (cmdtype (m_header msg)))) (m_msg_route l) of
       None \<Rightarrow> map_option (Pair l) (failed_reason E msg CODE_PARAMETER_INVALID)
     | Some r \<Rightarrow> do {
         (exch, route) \<leftarrow> get_ex_route user_id (m_route_fun r);
         let (ok, l) = mq_send_message (cmdtype (m_header msg)) (m_message msg) exch route (Some msg) l;
         if ok then Some (l, []) else map_option (Pair l) (failed_reason E msg CODE_SYSTEM_ERROR) })"

text \<open>The callback of the request: the response of the other server goes back to the session.\<close>

definition on_app_response :: "'p message \<Rightarrow> 'p message \<Rightarrow> 'p message option" where
  "on_app_response msg response = send_response_result msg (response_result (m_header response)) (m_message response)"

definition string_atoi :: "json \<Rightarrow> string \<Rightarrow> int option" where
  "string_atoi j k = do { v \<leftarrow> json_ref j k; s \<leftarrow> get_string v; Some (atoi s) }"

definition MsgRout :: "int \<Rightarrow> int \<Rightarrow> string \<Rightarrow> string \<Rightarrow> int \<Rightarrow> json \<Rightarrow> msg_rout option" where
  "MsgRout cmd_begin cmd_end exch route route_type special_json =
    map_option (\<lambda>f. \<lparr>m_cmd_begin = cmd_begin, m_cmd_end = cmd_end, m_route_fun = f\<rparr>)
      (if route_type = 0 then Some (NormalRout exch route)
       else if route_type = 1 then do {
         n \<leftarrow> string_atoi special_json ''total_count'';
         Some (HashRout n exch route) }
       else if route_type = 2 then do {
         room_begin \<leftarrow> string_atoi special_json ''room_begin'';
         per_svr \<leftarrow> string_atoi special_json ''count_per_svr'';
         Some (RoomRout room_begin per_svr exch route) }
       else Some No_route)"

definition parse_one_route :: "json \<Rightarrow> msg_rout option" where
  "parse_one_route jv_one = do {
     begin_json \<leftarrow> json_ref jv_one ''cmd_begin'';
     cmd_begin \<leftarrow> get_int begin_json;
     cmd_end \<leftarrow> string_atoi jv_one ''cmd_end'';
     exch_json \<leftarrow> json_ref jv_one ''exchange'';
     exch \<leftarrow> get_string exch_json;
     route_json \<leftarrow> json_ref jv_one ''route'';
     route \<leftarrow> get_string route_json;
     route_type \<leftarrow> string_atoi jv_one ''type'';
     special \<leftarrow> json_ref jv_one ''special'';
     MsgRout cmd_begin cmd_end exch route route_type special }"

definition parse_route_config :: "json \<Rightarrow> 'p lobby \<Rightarrow> 'p lobby option" where
  "parse_route_config route_json l =
    map_option (\<lambda>rs. l\<lparr>m_msg_route := m_msg_route l @ rs\<rparr>)
      (those (map parse_one_route (json_elements route_json)))"

section \<open>\<^verbatim>\<open>LobbyTask.cpp\<close>\<close>

definition CMD_USER_TOKEN_LOGIN :: u32 where "CMD_USER_TOKEN_LOGIN = 1003"

definition on_heart_beat_lobby :: "int \<Rightarrow> ('p, 'p lobby) handler" where
  "on_heart_beat_lobby now msg l = Some (flush_user_online now (m_session msg) l, [])"

definition on_token_login :: "'p server_env \<Rightarrow> int \<Rightarrow> ('p, 'p lobby) handler" where
  "on_token_login E now msg l = map_option snd (player_token_login E now msg l)"

definition on_unknown_msg_lobby :: "'p server_env \<Rightarrow> int \<Rightarrow> ('p, 'p lobby) handler" where
  "on_unknown_msg_lobby E now msg l =
    (let (user_id, l) = check_user_msg now msg l
     in case user_id of
         None \<Rightarrow> map_option (Pair l) (failed_reason E msg CODE_SESSION_HAV_NO_USER)
       | Some user_id \<Rightarrow> dispatch_app_msg E user_id msg l)"

definition LobbyTask :: "'p server_env \<Rightarrow> int \<Rightarrow> ('p, 'p lobby) task" where
  "LobbyTask E now = register_msg_handler CMD_USER_TOKEN_LOGIN (on_token_login E now)
     (MessageTask\<lparr>on_session_close := (\<lambda>msg l. Some (on_session_close_lobby (m_session msg) l, [])),
        on_heart_beat := on_heart_beat_lobby now, on_unknown_msg := on_unknown_msg_lobby E now\<rparr>)"

section \<open>The tables\<close>

lemmas lobby_defs = set_session_def user_of_player_def session_of_player_def flush_online_time_def
  make_shared_player_def

interpretation lobby_reg: registry m_login_user m_online_user user_of_player session_of_player next_player
  "\<lambda>l p. False" "add_user_session E now" "\<lambda>s l. Some (on_session_close_lobby s l)" for E now
proof unfold_locales
  fix l :: "'a lobby" and u s p
  assume "m_login_user l u = Some p"
  then show "m_login_user (add_user_session E now u s l) = m_login_user l \<and>
      m_online_user (add_user_session E now u s l) = (m_online_user l)(session_of_player l p := None, s \<mapsto> p) \<and>
      user_of_player (add_user_session E now u s l) = user_of_player l \<and>
      session_of_player (add_user_session E now u s l) = (session_of_player l)(p := s) \<and>
      next_player (add_user_session E now u s l) = next_player l"
    by (auto simp: add_user_session_def Let_def lobby_defs shutdown_user_session_def send_to_def
        fun_eq_iff split: option.splits)
next
  fix l :: "'a lobby" and u s
  assume "m_login_user l u = None"
  then show "m_login_user (add_user_session E now u s l) = (m_login_user l)(u \<mapsto> next_player l) \<and>
      m_online_user (add_user_session E now u s l) = (m_online_user l)(s \<mapsto> next_player l) \<and>
      user_of_player (add_user_session E now u s l) = (user_of_player l)(next_player l := u) \<and>
      session_of_player (add_user_session E now u s l) = (session_of_player l)(next_player l := s) \<and>
      next_player (add_user_session E now u s l) = Suc (next_player l)"
    by (auto simp: add_user_session_def lobby_defs fun_eq_iff)
next
  fix l :: "'a lobby" and s
  assume "m_online_user l s = None"
  then show "\<exists>r'. Some (on_session_close_lobby s l) = Some r' \<and> m_login_user r' = m_login_user l \<and>
      m_online_user r' = m_online_user l \<and> user_of_player r' = user_of_player l \<and>
      session_of_player r' = session_of_player l \<and> next_player r' = next_player l"
    by (simp add: on_session_close_lobby_def lobby_defs fun_eq_iff)
next
  fix l :: "'a lobby" and s p
  assume "m_online_user l s = Some p" "m_login_user l (user_of_player l p) = Some p"
  then show "\<exists>r'. Some (on_session_close_lobby s l) = Some r' \<and>
      m_login_user r' = (if False then m_login_user l else (m_login_user l)(user_of_player l p := None)) \<and>
      m_online_user r' = (m_online_user l)(s := None) \<and> user_of_player r' = user_of_player l \<and>
      session_of_player r' = (session_of_player l)(p := None) \<and> next_player r' = next_player l"
    by (simp add: on_session_close_lobby_def lobby_defs fun_eq_iff Let_def)
qed

lemma seat_recv_session: "lobby_reg.seat l = (\<lambda>u. recv_session u l)"
  by (simp add: lobby_reg.seat_def recv_session_def fun_eq_iff)

text \<open>What leaves the tables alone.\<close>

definition same_config :: "'p lobby \<Rightarrow> 'p lobby \<Rightarrow> bool" where
  "same_config l l' \<longleftrightarrow> m_msg_route l' = m_msg_route l \<and> mq_session l' = mq_session l \<and>
     m_session_time l' = m_session_time l"

definition same_tables :: "'p lobby \<Rightarrow> 'p lobby \<Rightarrow> bool" where
  "same_tables l l' \<longleftrightarrow> same_config l l' \<and> m_login_user l' = m_login_user l \<and> m_online_user l' = m_online_user l \<and>
     user_of_player l' = user_of_player l \<and> session_of_player l' = session_of_player l \<and>
     next_player l' = next_player l"

lemma same_tablesD:
  assumes "same_tables l l'"
  shows "lobby_reg.tables_ok l' = lobby_reg.tables_ok l" "lobby_reg.seating l' = lobby_reg.seating l"
  using assms unfolding same_tables_def lobby_reg.tables_ok_def lobby_reg.seating_def lobby_reg.seat_def [abs_def]
    lobby_reg.holder_def [abs_def]
  by (simp_all cong: option.case_cong)

lemma same_tables_refl [simp]: "same_tables l l"
  by (simp add: same_tables_def same_config_def)

lemma same_tables_flush [simp]: "same_tables l (flush_user_online now s l)"
  by (auto simp: same_tables_def same_config_def flush_user_online_def lobby_defs fun_eq_iff split: option.split)

lemma same_tables_mq: "same_tables l (snd (mq_send_message cmd body exch route origin l))"
  by (simp add: same_tables_def same_config_def mq_send_message_def lobby_defs fun_eq_iff)

lemma same_tables_trans: "same_tables l l' \<Longrightarrow> same_tables l' l'' \<Longrightarrow> same_tables l l''"
  by (simp add: same_tables_def same_config_def)

lemma same_config_add: "same_config l (add_user_session E now u s l)"
  by (auto simp: same_config_def add_user_session_def Let_def lobby_defs shutdown_user_session_def send_to_def
      split: option.splits)

lemma same_tables_dispatch:
  assumes "dispatch_app_msg E u msg l = Some (l', acts)" shows "same_tables l l'"
proof (cases "find (is_cmd_match (sint (cmdtype (m_header msg)))) (m_msg_route l)")
  case (Some r)
  with assms obtain exch route where "get_ex_route u (m_route_fun r) = Some (exch, route)"
      "l' = snd (mq_send_message (cmdtype (m_header msg)) (m_message msg) exch route (Some msg) l)"
    by (cases "get_ex_route u (m_route_fun r)") (auto simp: dispatch_app_msg_def split_beta split: if_splits)
  then show ?thesis by (simp add: same_tables_mq)
qed (use assms in \<open>auto simp: dispatch_app_msg_def\<close>)

lemma same_tables_unknown:
  assumes "on_unknown_msg_lobby E now msg l = Some (l', acts)" shows "same_tables l l'"
  using assms same_tables_trans [OF same_tables_flush same_tables_dispatch]
  by (auto simp: on_unknown_msg_lobby_def check_user_msg_def split: option.splits)

section \<open>Runs of the dispatcher\<close>

text \<open>The user a message logs in, and what a message means to the registry.\<close>

definition token_user :: "'p server_env \<Rightarrow> 'p message \<Rightarrow> int option" where
  "token_user E msg = do {
     usertoken \<leftarrow> pbmessage (token_request E) msg;
     decode_token \<leftarrow> AES_ecb128_decrypt (junk E) (fresh_mem E) (decode_pos E) usertoken;
     jv \<leftarrow> json_parse E decode_token;
     passed \<leftarrow> check_user_token jv;
     if passed then do { (id, _) \<leftarrow> json_index jv ''user_id''; get_int id } else None }"

definition lobby_events :: "'p server_env \<Rightarrow> 'p message \<Rightarrow> reg_event list" where
  "lobby_events E msg =
    (case m_session msg of None \<Rightarrow> [] | Some s \<Rightarrow>
       if cmdtype (m_header msg) = CMD_SESSION_CLOSE then [Session_closed s]
       else if cmdtype (m_header msg) = CMD_USER_TOKEN_LOGIN
       then (case token_user E msg of Some u \<Rightarrow> [Logged_in u s] | None \<Rightarrow> [])
       else [])"

fun lobby_run :: "'p server_env \<Rightarrow> (int \<Rightarrow> 'p) \<Rightarrow> int \<Rightarrow> (int \<times> 'p message) list \<Rightarrow> 'p lobby \<Rightarrow> 'p lobby option" where
  "lobby_run E hb interval [] l = Some l"
| "lobby_run E hb interval ((now, msg) # msgs) l = do {
     (l, acts) \<leftarrow> do_handle_message hb interval (LobbyTask E now) msg l;
     lobby_run E hb interval msgs l }"

lemma player_token_loginD:
  assumes "player_token_login E now msg l = Some (ok, l', acts)"
  shows "if ok then \<exists>u s. token_user E msg = Some u \<and> m_session msg = Some s \<and>
        l' = add_user_session E now u (Some s) (tell_user_login_lobby E u l)
      else token_user E msg = None \<and> l' = l"
proof -
  from assms obtain usertoken where ut: "pbmessage (token_request E) msg = Some usertoken"
    by (auto simp: player_token_login_def bind_eq_Some_conv)
  with assms obtain dt where dt: "AES_ecb128_decrypt (junk E) (fresh_mem E) (decode_pos E) usertoken = Some dt"
    by (auto simp: player_token_login_def bind_eq_Some_conv)
  with assms ut obtain jv where jv: "json_parse E dt = Some jv"
    by (auto simp: player_token_login_def bind_eq_Some_conv)
  with assms ut dt obtain passed where p: "check_user_token jv = Some passed"
    by (auto simp: player_token_login_def bind_eq_Some_conv)
  have tu: "token_user E msg = (if passed then do { (id, _) \<leftarrow> json_index jv ''user_id''; get_int id } else None)"
    by (simp add: token_user_def ut dt jv p)
  show ?thesis
  proof (cases passed)
    case False
    with assms ut dt jv p tu show ?thesis
      by (auto simp: player_token_login_def bind_eq_Some_conv)
  next
    case True
    with assms ut dt jv p obtain id j u s where "json_index jv ''user_id'' = Some (id, j)" "get_int id = Some u"
        "m_session msg = Some s" "ok" "l' = add_user_session E now u (Some s) (tell_user_login_lobby E u l)"
      by (auto simp: player_token_login_def bind_eq_Some_conv Let_def split: if_splits)
    with tu True show ?thesis by simp
  qed
qed

lemma cmds_distinct:
  "CMD_USER_TOKEN_LOGIN \<noteq> CMD_SESSION_CLOSE" "CMD_USER_TOKEN_LOGIN \<noteq> CMD_SESSION_OPEN"
  "CMD_USER_TOKEN_LOGIN \<noteq> CMD_HEARTBEAT" "CMD_SESSION_CLOSE \<noteq> CMD_SESSION_OPEN"
  "CMD_SESSION_CLOSE \<noteq> CMD_HEARTBEAT" "CMD_SESSION_OPEN \<noteq> CMD_HEARTBEAT"
  by (simp_all add: CMD_USER_TOKEN_LOGIN_def CMD_SESSION_CLOSE_def CMD_SESSION_OPEN_def CMD_HEARTBEAT_def)

lemma lobby_step_cases:
  assumes step: "do_handle_message hb interval (LobbyTask E now) msg l = Some (l', acts)" and s: "m_session msg = Some s"
  obtains (closed) "lobby_events E msg = [Session_closed s]" "l' = on_session_close_lobby (Some s) l"
    | (login) u l1 where "lobby_events E msg = [Logged_in u s]" "same_tables l l1"
        "l' = add_user_session E now u (Some s) l1"
    | (other) "lobby_events E msg = []" "same_tables l l'"
proof -
  let ?cmd = "cmdtype (m_header msg)"
  consider "?cmd = CMD_SESSION_OPEN" | "?cmd = CMD_SESSION_CLOSE" | "?cmd = CMD_HEARTBEAT" | "?cmd = CMD_USER_TOKEN_LOGIN"
    | "?cmd \<notin> {CMD_SESSION_OPEN, CMD_SESSION_CLOSE, CMD_HEARTBEAT, CMD_USER_TOKEN_LOGIN}" by blast
  then show thesis
  proof cases
    case 1
    with step s cmds_distinct show thesis
      by (intro other) (auto simp: do_handle_message_def LobbyTask_def register_msg_handler_def MessageTask_def
          log_only_def lobby_events_def)
  next
    case 2
    with step s cmds_distinct show thesis
      by (intro closed) (auto simp: do_handle_message_def LobbyTask_def register_msg_handler_def lobby_events_def)
  next
    case 3
    with step s cmds_distinct show thesis
      by (intro other) (auto simp: do_handle_message_def LobbyTask_def register_msg_handler_def lobby_events_def
          do_heart_beat_def on_heart_beat_lobby_def send_response_def Let_def)
  next
    case 4
    with step cmds_distinct obtain ok where ok: "player_token_login E now msg l = Some (ok, l', acts)"
      by (auto simp: do_handle_message_def LobbyTask_def register_msg_handler_def on_token_login_def)
    show thesis
    proof (cases ok)
      case True
      with player_token_loginD [OF ok] s obtain u where
        u: "token_user E msg = Some u" "l' = add_user_session E now u (Some s) (tell_user_login_lobby E u l)" by auto
      show thesis
      proof (rule login [OF _ _ u(2)])
        show "lobby_events E msg = [Logged_in u s]" using 4 s u cmds_distinct by (simp add: lobby_events_def)
        show "same_tables l (tell_user_login_lobby E u l)" by (simp add: tell_user_login_lobby_def same_tables_mq)
      qed
    next
      case False
      with player_token_loginD [OF ok] 4 s cmds_distinct show thesis by (intro other) (simp_all add: lobby_events_def)
    qed
  next
    case 5
    with step have "on_unknown_msg_lobby E now msg l = Some (l', acts)"
      by (auto simp: do_handle_message_def LobbyTask_def register_msg_handler_def MessageTask_def)
    with 5 s show thesis by (intro other) (auto simp: lobby_events_def dest: same_tables_unknown)
  qed
qed

lemma lobby_step_ok:
  assumes "do_handle_message hb interval (LobbyTask E now) msg l = Some (l', acts)" "m_session msg = Some s"
    and "lobby_reg.tables_ok l"
  shows "lobby_reg.tables_ok l'"
  using assms(1,2)
proof (cases rule: lobby_step_cases)
  case closed
  with lobby_reg.close_tables_ok [OF assms(3)] show ?thesis by simp
next
  case (login u l1)
  with assms(3) same_tablesD(1) [OF login(2)] show ?thesis by (simp add: lobby_reg.add_tables_ok)
next
  case other
  with assms(3) same_tablesD(1) [OF other(2)] show ?thesis by simp
qed

lemma lobby_step_refines:
  assumes "do_handle_message hb interval (LobbyTask E now) msg l = Some (l', acts)" "m_session msg = Some s"
    and ok: "lobby_reg.tables_ok l"
  shows "lobby_reg.seating l' = fold spec_step (lobby_events E msg) (lobby_reg.seating l)"
  using assms(1,2)
proof (cases rule: lobby_step_cases)
  case closed
  with lobby_reg.close_seating [OF ok] show ?thesis by simp
next
  case (login u l1)
  with lobby_reg.add_seating [of l1 E now u s] ok same_tablesD [OF login(2)] show ?thesis by simp
next
  case other
  with same_tablesD [OF other(2)] show ?thesis by simp
qed

lemma new_lobby_ok: "lobby_reg.tables_ok (new_lobby rs)" "lobby_reg.seating (new_lobby rs) = (Map.empty, Map.empty)"
  by (simp_all add: lobby_reg.tables_ok_def lobby_reg.seating_def lobby_reg.seat_def lobby_reg.holder_def new_lobby_def fun_eq_iff)

lemma lobby_run_refines:
  assumes "lobby_run E hb interval msgs l = Some l'" "\<forall>(now, msg)\<in>set msgs. m_session msg \<noteq> None"
    and "lobby_reg.tables_ok l"
  shows "lobby_reg.seating l' = fold spec_step (concat (map (lobby_events E \<circ> snd) msgs)) (lobby_reg.seating l) \<and>
    lobby_reg.tables_ok l'"
  using assms
proof (induction msgs arbitrary: l)
  case (Cons x msgs)
  obtain now msg where x: "x = (now, msg)" by fastforce
  from Cons.prems(2) x obtain s where s: "m_session msg = Some s" by auto
  from Cons.prems(1) x obtain l1 acts where l1: "do_handle_message hb interval (LobbyTask E now) msg l = Some (l1, acts)"
      "lobby_run E hb interval msgs l1 = Some l'" by (auto simp: bind_eq_Some_conv)
  from lobby_step_refines [OF l1(1) s Cons.prems(3)] lobby_step_ok [OF l1(1) s Cons.prems(3)]
    Cons.IH [OF l1(2)] Cons.prems(2) show ?case by (simp add: x o_def)
qed simp

section \<open>What the runs keep\<close>

lemma lobby_step_config:
  assumes "do_handle_message hb interval (LobbyTask E now) msg l = Some (l', acts)" "m_session msg = Some s"
  shows "m_msg_route l' = m_msg_route l" "mq_session l' = mq_session l"
    and "m_session_time l = Map.empty \<Longrightarrow> m_session_time l' = Map.empty"
proof -
  have "same_config l l' \<or> l' = on_session_close_lobby (Some s) l" using assms
  proof (cases rule: lobby_step_cases)
    case (login u l1)
    then show ?thesis using same_config_add [of l1 E now u "Some s"] by (auto simp: same_tables_def same_config_def)
  qed (simp_all add: same_tables_def)
  then show "m_msg_route l' = m_msg_route l" "mq_session l' = mq_session l"
    and "m_session_time l = Map.empty \<Longrightarrow> m_session_time l' = Map.empty"
    by (auto simp: same_config_def on_session_close_lobby_def lobby_defs Let_def split: option.splits)
qed

lemma lobby_run_config:
  assumes "lobby_run E hb interval msgs l = Some l'" "\<forall>(now, msg)\<in>set msgs. m_session msg \<noteq> None"
  shows "m_msg_route l' = m_msg_route l \<and> mq_session l' = mq_session l \<and>
    (m_session_time l = Map.empty \<longrightarrow> m_session_time l' = Map.empty)"
  using assms
proof (induction msgs arbitrary: l)
  case (Cons x msgs)
  obtain now msg where x: "x = (now, msg)" by fastforce
  from Cons.prems(2) x obtain s where s: "m_session msg = Some s" by auto
  from Cons.prems(1) x obtain l1 acts where l1: "do_handle_message hb interval (LobbyTask E now) msg l = Some (l1, acts)"
      "lobby_run E hb interval msgs l1 = Some l'" by (auto simp: bind_eq_Some_conv)
  from lobby_step_config [OF l1(1) s] Cons.IH [OF l1(2)] Cons.prems(2) show ?case by auto
qed simp

text \<open>The messages of a run as events of the registry.\<close>

definition run_events :: "'p server_env \<Rightarrow> (int \<times> 'p message) list \<Rightarrow> reg_event list" where
  "run_events E msgs = concat (map (lobby_events E \<circ> snd) msgs)"

lemma new_lobby_run:
  assumes "lobby_run E hb interval msgs (new_lobby rs) = Some l" "\<forall>(now, msg)\<in>set msgs. m_session msg \<noteq> None"
  shows "recv_session u l = fst (spec_run (run_events E msgs)) u"
    and "map_option (user_of_player l) (m_online_user l (Some s)) = snd (spec_run (run_events E msgs)) s"
    and "m_msg_route l = rs" "mq_session l"
proof -
  from lobby_run_refines [OF assms new_lobby_ok(1)]
  have r: "spec_run (run_events E msgs) = lobby_reg.seating l"
    by (simp add: run_events_def spec_run_def new_lobby_ok(2))
  have "fst (spec_run (run_events E msgs)) = lobby_reg.seat l" "snd (spec_run (run_events E msgs)) = lobby_reg.holder l"
    by (simp_all add: r lobby_reg.seating_def)
  then show "recv_session u l = fst (spec_run (run_events E msgs)) u"
    and "map_option (user_of_player l) (m_online_user l (Some s)) = snd (spec_run (run_events E msgs)) s"
    by (simp_all add: seat_recv_session lobby_reg.holder_def)
  from lobby_run_config [OF assms] show "m_msg_route l = rs" "mq_session l" by (simp_all add: new_lobby_def)
qed


text \<open>A token of user 7.\<close>

definition demo_user :: json where
  "demo_user = JObject [(''user_id'', JInt 7), (''user_account'', JString ''a''), (''user_type'', JInt 1)]"

definition demo_msg :: "u32 \<Rightarrow> u8 list \<Rightarrow> nat \<Rightarrow> u8 list message" where
  "demo_msg cmd body s = full_msg cmd body (Some s)"

lemma lobby_demo_events:
  assumes "AES_ecb128_decrypt (junk (demo_server demo_user)) (fresh_mem (demo_server demo_user))
    (decode_pos (demo_server demo_user)) token = Some [120]"
  shows "lobby_events (demo_server demo_user) (demo_msg CMD_USER_TOKEN_LOGIN token s) = [Logged_in 7 s]"
    and "lobby_events (demo_server demo_user) (demo_msg CMD_SESSION_CLOSE body s) = [Session_closed s]"
proof -
  have "token_user (demo_server demo_user) (demo_msg CMD_USER_TOKEN_LOGIN token s) = Some 7"
    unfolding token_user_def pbmessage_def using assms
    by (simp add: demo_msg_def full_msg_def demo_server_def demo_user_def check_user_token_def token_tests_def
        json_index_def to_int32_id)
  then show "lobby_events (demo_server demo_user) (demo_msg CMD_USER_TOKEN_LOGIN token s) = [Logged_in 7 s]"
    and "lobby_events (demo_server demo_user) (demo_msg CMD_SESSION_CLOSE body s) = [Session_closed s]"
    using cmds_distinct by (simp_all add: lobby_events_def demo_msg_def full_msg_def)
qed

lemma lobby_demo_login:
  assumes "AES_ecb128_decrypt (junk (demo_server demo_user)) (fresh_mem (demo_server demo_user))
    (decode_pos (demo_server demo_user)) token = Some [120]"
  shows "\<exists>acts. do_handle_message hb interval (LobbyTask (demo_server demo_user) now)
      (demo_msg CMD_USER_TOKEN_LOGIN token s) l =
    Some (add_user_session (demo_server demo_user) now 7 (Some s) (tell_user_login_lobby (demo_server demo_user) 7 l), acts)"
proof -
  have m: "m_session (demo_msg CMD_USER_TOKEN_LOGIN token s) = Some s"
    "cmdtype (m_header (demo_msg CMD_USER_TOKEN_LOGIN token s)) = CMD_USER_TOKEN_LOGIN"
    "pbmessage (token_request (demo_server demo_user)) (demo_msg CMD_USER_TOKEN_LOGIN token s) = Some token"
    "json_parse (demo_server demo_user) [120] = Some demo_user" "check_user_token demo_user = Some True"
    "json_index demo_user ''user_id'' = Some (JInt 7, demo_user)"
    by (simp_all add: demo_msg_def full_msg_def demo_server_def pbmessage_def check_user_token_def token_tests_def
        demo_user_def json_index_def)
  obtain r where "failed_reason (demo_server demo_user) (demo_msg CMD_USER_TOKEN_LOGIN token s) CODE_SUCCESS = Some r"
    using failed_reason_None m(1) by fastforce
  with m assms cmds_distinct show ?thesis
    by (simp add: do_handle_message_def LobbyTask_def register_msg_handler_def on_token_login_def
        player_token_login_def to_int32_id Let_def)
qed

lemma lobby_demo_close:
  "do_handle_message hb interval (LobbyTask E now) (demo_msg CMD_SESSION_CLOSE body s) l =
    Some (on_session_close_lobby (Some s) l, [])"
  using cmds_distinct
  by (simp add: do_handle_message_def LobbyTask_def register_msg_handler_def demo_msg_def full_msg_def)

text \<open>User 7 logs in on session 3, then on session 4; session 3 closes.\<close>

lemma lobby_demo_run:
  "\<exists>l msgs. lobby_run (demo_server demo_user) hb interval msgs (new_lobby rs) = Some l \<and> length msgs = 3 \<and>
     (\<forall>(now, msg)\<in>set msgs. m_session msg \<noteq> None) \<and>
     run_events (demo_server demo_user) msgs = [Logged_in 7 3, Logged_in 7 4, Session_closed 3]"
proof -
  let ?E = "demo_server demo_user"
  obtain token where t: "AES_ecb128_decrypt (junk ?E) (fresh_mem ?E) (decode_pos ?E) token = Some [120]"
    using demo_token(1) by blast
  let ?msgs = "[(1, demo_msg CMD_USER_TOKEN_LOGIN token 3), (2, demo_msg CMD_USER_TOKEN_LOGIN token 4),
    (3, demo_msg CMD_SESSION_CLOSE [] 3)]"
  let ?login = "\<lambda>now s l. add_user_session ?E now 7 (Some s) (tell_user_login_lobby ?E 7 l)"
  obtain acts1 where 1: "do_handle_message hb interval (LobbyTask ?E 1) (demo_msg CMD_USER_TOKEN_LOGIN token 3)
      (new_lobby rs) = Some (?login 1 3 (new_lobby rs), acts1)" using lobby_demo_login [OF t] by blast
  obtain acts2 where 2: "do_handle_message hb interval (LobbyTask ?E 2) (demo_msg CMD_USER_TOKEN_LOGIN token 4)
      (?login 1 3 (new_lobby rs)) = Some (?login 2 4 (?login 1 3 (new_lobby rs)), acts2)" using lobby_demo_login [OF t] by blast
  have "\<exists>l. lobby_run ?E hb interval ?msgs (new_lobby rs) = Some l" by (simp add: 1 2 lobby_demo_close)
  then obtain l where "lobby_run ?E hb interval ?msgs (new_lobby rs) = Some l" ..
  moreover have "run_events ?E ?msgs = [Logged_in 7 3, Logged_in 7 4, Session_closed 3]"
    by (simp add: run_events_def lobby_demo_events [OF t])
  moreover have "\<forall>(now, msg)\<in>set ?msgs. m_session msg \<noteq> None" by (simp add: demo_msg_def full_msg_def)
  ultimately show ?thesis by (intro exI [of _ l] exI [of _ ?msgs] conjI) simp_all
qed

lemma lobby_demo_fair: "fair_run [Logged_in 7 3, Logged_in 7 4, Session_closed 3] Map.empty"
    "seat_run [Logged_in 7 3, Logged_in 7 4, Session_closed 3] 7 = Some 4"
    "snd (spec_run [Logged_in 7 3, Logged_in 7 4, Session_closed 3]) 4 = Some 7"
  by (simp_all add: seat_run_def spec_run_def)


text \<open>
  C26. What becomes of a request, after any such run: a message of a command that is not the
  lobby's own is answered with an error, and nothing else happens, when its session acts for no user;
  from a session that acts for a user it is answered with an error when no route covers its command,
  and otherwise it is passed on exactly once, with its body, under the exchange and key the first
  matching route gives for the user. The handler aborts exactly when that route cannot be computed.
\<close>

theorem lobby_request_outcome:
  assumes "lobby_run E hb interval msgs (new_lobby rs) = Some l" "\<forall>(now, msg)\<in>set msgs. m_session msg \<noteq> None"
    and "m_session msg = Some s"
    and "cmdtype (m_header msg) \<notin> {CMD_SESSION_OPEN, CMD_SESSION_CLOSE, CMD_HEARTBEAT, CMD_USER_TOKEN_LOGIN}"
  shows "case snd (spec_run (run_events E msgs)) s of
      None \<Rightarrow> \<exists>r. do_handle_message hb interval (LobbyTask E now) msg l = Some (l, [Respond r]) \<and>
        response_result (m_header r) = CODE_SESSION_HAV_NO_USER
    | Some u \<Rightarrow>
      (case find (\<lambda>rt. m_cmd_begin rt \<le> sint (cmdtype (m_header msg)) \<and> sint (cmdtype (m_header msg)) < m_cmd_end rt) rs of
         None \<Rightarrow> \<exists>l' r. do_handle_message hb interval (LobbyTask E now) msg l = Some (l', [Respond r]) \<and>
           response_result (m_header r) = CODE_PARAMETER_INVALID \<and> mq_sent l' = mq_sent l
       | Some rt \<Rightarrow>
           (case get_ex_route u (m_route_fun rt) of
              None \<Rightarrow> do_handle_message hb interval (LobbyTask E now) msg l = None
            | Some (exch, route) \<Rightarrow>
                \<exists>l'. do_handle_message hb interval (LobbyTask E now) msg l = Some (l', []) \<and>
                  mq_sent l' = mq_sent l @
                    [\<lparr>mq_cmd = cmdtype (m_header msg), mq_exchange = exch, mq_route = route,
                      mq_body = m_message msg, mq_origin = Some msg\<rparr>]))"
proof (cases "m_online_user l (Some s)")
  case None
  then have "snd (spec_run (run_events E msgs)) s = None" using new_lobby_run(2) [OF assms(1,2), of s] by simp
  moreover have "do_handle_message hb interval (LobbyTask E now) msg l = on_unknown_msg_lobby E now msg l"
    using assms(4) by (auto simp: do_handle_message_def LobbyTask_def register_msg_handler_def MessageTask_def)
  ultimately show ?thesis using None failed_reason_Some [OF assms(3), of E CODE_SESSION_HAV_NO_USER] assms(3)
    by (auto simp: on_unknown_msg_lobby_def check_user_msg_def)
next
  case (Some p)
  define u where "u = user_of_player l p"
  have user: "snd (spec_run (run_events E msgs)) s = Some u"
    using new_lobby_run(2) [OF assms(1,2), of s] Some by (simp add: u_def)
  let ?l = "flush_user_online now (Some s) l"
  have flushed: "m_msg_route ?l = rs" "mq_session ?l" "mq_sent ?l = mq_sent l"
    using new_lobby_run(3,4) [OF assms(1,2)]
    by (auto simp: flush_user_online_def flush_online_time_def split: option.split)
  have "do_handle_message hb interval (LobbyTask E now) msg l = on_unknown_msg_lobby E now msg l"
    using assms(4) by (auto simp: do_handle_message_def LobbyTask_def register_msg_handler_def MessageTask_def)
  then have "do_handle_message hb interval (LobbyTask E now) msg l = dispatch_app_msg E u msg ?l"
    using Some assms(3) by (simp add: on_unknown_msg_lobby_def check_user_msg_def u_def)
  moreover have "is_cmd_match c = (\<lambda>rt. m_cmd_begin rt \<le> c \<and> c < m_cmd_end rt)" for c
    by (simp add: is_cmd_match_def fun_eq_iff)
  ultimately show ?thesis using user flushed failed_reason_Some [OF assms(3), of E CODE_PARAMETER_INVALID]
    by (auto simp: dispatch_app_msg_def mq_send_message_def split: option.split)
qed

lemma lobby_request_outcome_witness:
  "\<exists>l l' msgs. lobby_run (demo_server demo_user) (\<lambda>_. []) 0 msgs
       (new_lobby [\<lparr>m_cmd_begin = 2000, m_cmd_end = 3000, m_route_fun = RoomRout 1000 100 ''g'' ''r''\<rparr>]) = Some l \<and>
     do_handle_message (\<lambda>_. []) 0 (LobbyTask (demo_server demo_user) 9) (demo_msg 2500 [1] 4) l = Some (l', []) \<and>
     mq_route (last (mq_sent l')) = ''r-10''"
proof -
  let ?rs = "[\<lparr>m_cmd_begin = 2000, m_cmd_end = 3000, m_route_fun = RoomRout 1000 100 ''g'' ''r''\<rparr>]"
  obtain l msgs where r: "lobby_run (demo_server demo_user) (\<lambda>_. []) 0 msgs (new_lobby ?rs) = Some l"
      "\<forall>(now, msg)\<in>set msgs. m_session msg \<noteq> None"
      "run_events (demo_server demo_user) msgs = [Logged_in 7 3, Logged_in 7 4, Session_closed 3]"
    using lobby_demo_run [of "\<lambda>_. []" 0 ?rs] by blast
  have m: "m_session (demo_msg 2500 [1] 4) = Some 4" "cmdtype (m_header (demo_msg 2500 [1] 4)) = 2500"
    by (simp_all add: demo_msg_def full_msg_def)
  have "cmdtype (m_header (demo_msg 2500 [1] 4)) \<notin>
      {CMD_SESSION_OPEN, CMD_SESSION_CLOSE, CMD_HEARTBEAT, CMD_USER_TOKEN_LOGIN}"
    unfolding m(2) CMD_SESSION_OPEN_def CMD_SESSION_CLOSE_def CMD_HEARTBEAT_def CMD_USER_TOKEN_LOGIN_def by simp
  from lobby_request_outcome [OF r(1,2) m(1) this, unfolded r(3), of 9] lobby_demo_fair(3)
  obtain l' where "do_handle_message (\<lambda>_. []) 0 (LobbyTask (demo_server demo_user) 9) (demo_msg 2500 [1] 4) l = Some (l', [])"
      "mq_route (last (mq_sent l')) = route_key ''r'' 10"
    by (auto simp: m(2) signed_divide_int_def)
  moreover have "route_key ''r'' 10 = ''r-10''"
    by code_simp
  ultimately show ?thesis using r(1) by metis
qed

section \<open>Limits\<close>

text \<open>
  A session that logs in as two users breaks the tables: when it closes, the first user stays
  logged in, and online, on the session that is gone.
\<close>

theorem lobby_second_user_stale:
  fixes l :: "'p lobby"
  assumes "m_login_user l = Map.empty" "m_online_user l = Map.empty"
  shows "recv_session 1 (on_session_close_lobby (Some s) (add_user_session E now 2 (Some s)
      (add_user_session E now 1 (Some s) l))) = Some s"
  using assms by (simp add: recv_session_def on_session_close_lobby_def add_user_session_def lobby_defs Let_def)

text \<open>
  The limit on the time to log in is never set: \<^verbatim>\<open>LobbyTask::on_session_open\<close> does not call the
  player manager, so the table of open times stays empty.
\<close>

theorem login_deadline_never_set:
  assumes "lobby_run E hb interval msgs (new_lobby rs) = Some l" "\<forall>(now, msg)\<in>set msgs. m_session msg \<noteq> None"
  shows "m_session_time l = Map.empty"
  using lobby_run_config [OF assms] by (simp add: new_lobby_def)

lemma those_map_None: "v \<in> set vs \<Longrightarrow> f v = None \<Longrightarrow> those (map f vs) = None"
  by (induction vs) (auto split: option.split)

text \<open>
  The route configuration is read with \<^verbatim>\<open>cmd_begin\<close> as a number, but the configuration that comes
  with the lobby has it, like the other numbers, as a string; reading it throws.
\<close>

theorem route_config_string_rejected:
  assumes "v \<in> set (json_elements j)" "json_ref v ''cmd_begin'' = Some (JString x)"
  shows "parse_route_config j l = None"
proof -
  have "parse_one_route v = None" using assms(2) by (simp add: parse_one_route_def)
  with assms(1) have "those (map parse_one_route (json_elements j)) = None" by (rule those_map_None)
  then show ?thesis by (simp add: parse_route_config_def)
qed

text \<open>Hash routes: one of the \<open>n\<close> servers for a user id that is not negative.\<close>

lemma hash_route_server:
  "0 \<le> u \<Longrightarrow> 0 < n \<Longrightarrow> get_ex_route u (HashRout n exch route) = Some (exch, route_key route (u mod n))"
  by (cases "u = 0") (simp_all add: signed_modulo_int_def)

end
