(* ===== verification/Game_Server.thy ===== *)
theory Game_Server
  imports Server_Env
begin

text \<open>
  \<^verbatim>\<open>server/gamesvr\<close>: players (\<^verbatim>\<open>Player.cpp\<close>), the player manager (\<^verbatim>\<open>PlayerManager.cpp\<close>), rooms
  (\<^verbatim>\<open>GameRoom.cpp\<close>) and the table of rooms (\<^verbatim>\<open>RoomManager.cpp\<close>). A player who is in a room stays
  registered when his session closes. Player objects and room objects are numbered; \<open>None\<close> is a null
  pointer, and as a result a failed assertion, an exception or the use of a null pointer. A new
  player's status and broadcast flag are not initialised by the constructor; they are a parameter.
\<close>

section \<open>State\<close>

record game_player =
  gp_user_id :: int
  gp_session :: session_ptr
  gp_room :: "nat option"
  gp_status :: int
  gp_recv_broadcast :: bool
  gp_check_time :: int

text \<open>The players of a room, in the order its hash table has them.\<close>

record game_room =
  m_room_id :: int
  m_all_player :: "(int \<times> nat) list"

record 'p game =
  g_login_user :: "int \<rightharpoonup> nat"
  g_online_user :: "session_ptr \<rightharpoonup> nat"
  g_players :: "nat \<Rightarrow> game_player"
  g_next_player :: nat
  g_rooms :: "nat \<Rightarrow> game_room"
  g_next_room :: nat
  m_game_room :: "int \<rightharpoonup> nat"
  g_sent :: "(nat \<times> 'p message) list"

definition new_game :: "'p game" where
  "new_game = \<lparr>g_login_user = Map.empty, g_online_user = Map.empty,
     g_players = (\<lambda>_. \<lparr>gp_user_id = -1, gp_session = None, gp_room = None, gp_status = 0, gp_recv_broadcast = False,
       gp_check_time = 0\<rparr>), g_next_player = 0,
     g_rooms = (\<lambda>_. \<lparr>m_room_id = 0, m_all_player = []\<rparr>), g_next_room = 0, m_game_room = Map.empty, g_sent = []\<rparr>"

section \<open>\<^verbatim>\<open>Player.cpp\<close>\<close>

definition PLAYER_MASK :: u32 where "PLAYER_MASK = 0x000F"
definition PLAYER_TRUSTEED :: u32 where "PLAYER_TRUSTEED = 0x0080"
definition PLAYER_OFFLINE :: u32 where "PLAYER_OFFLINE = 0x0100"

definition get_status_name :: "u32 \<Rightarrow> string" where
  "get_status_name status =
    (let name = (if status AND PLAYER_TRUSTEED \<noteq> 0 then ''PLAYER_TRUSTEED|'' else []);
         name = (if status AND PLAYER_OFFLINE \<noteq> 0 then name @ ''PLAYER_OFFLINE|'' else name);
         status = status AND PLAYER_MASK
     in name @
       (if status = 1 then ''PLAYER_WAIT_NEXT_GAME''
        else if status = 2 then ''PLAYER_UNREADY''
        else if status = 3 then ''PLAYER_PLAYING''
        else if status = 4 then ''PLAYER_DROP''
        else if status = 6 then ''PLAYER_STAND_UP''
        else ''UNKNOWN:'' @ int_to_string (sint status)))"

definition user_of_gp :: "'p game \<Rightarrow> nat \<Rightarrow> int" where
  "user_of_gp g p = gp_user_id (g_players g p)"

definition session_of_gp :: "'p game \<Rightarrow> nat \<Rightarrow> session_ptr" where
  "session_of_gp g p = gp_session (g_players g p)"

definition room_of_gp :: "'p game \<Rightarrow> nat \<Rightarrow> nat option" where
  "room_of_gp g p = gp_room (g_players g p)"

definition make_shared_gp :: "game_player \<Rightarrow> int \<Rightarrow> session_ptr \<Rightarrow> 'p game \<Rightarrow> nat \<times> 'p game" where
  "make_shared_gp fresh user_id s g =
    (g_next_player g,
     g\<lparr>g_players := (g_players g)(g_next_player g := fresh\<lparr>gp_user_id := user_id, gp_session := s, gp_room := None\<rparr>),
       g_next_player := Suc (g_next_player g)\<rparr>)"

definition set_session_gp :: "nat \<Rightarrow> session_ptr \<Rightarrow> 'p game \<Rightarrow> 'p game" where
  "set_session_gp p s g = g\<lparr>g_players := (g_players g)(p := (g_players g p)\<lparr>gp_session := s\<rparr>)\<rparr>"

definition set_room_gp :: "nat \<Rightarrow> nat option \<Rightarrow> 'p game \<Rightarrow> 'p game" where
  "set_room_gp p r g = g\<lparr>g_players := (g_players g)(p := (g_players g p)\<lparr>gp_room := r\<rparr>)\<rparr>"

definition flush_time_gp :: "nat \<Rightarrow> int \<Rightarrow> 'p game \<Rightarrow> 'p game" where
  "flush_time_gp p now g = g\<lparr>g_players := (g_players g)(p := (g_players g p)\<lparr>gp_check_time := now\<rparr>)\<rparr>"

definition send_gp :: "session_ptr \<Rightarrow> 'p message \<Rightarrow> 'p game \<Rightarrow> 'p game option" where
  "send_gp s msg g = (case s of None \<Rightarrow> None | Some n \<Rightarrow> Some (g\<lparr>g_sent := g_sent g @ [(n, msg)]\<rparr>))"

text \<open>\<^verbatim>\<open>send_request\<close> by command: the session wraps the body. A player without a session gets nothing.\<close>

definition send_request_gp :: "nat \<Rightarrow> u32 \<Rightarrow> 'p \<Rightarrow> 'p game \<Rightarrow> bool \<times> 'p game" where
  "send_request_gp p cmd body g =
    (case session_of_gp g p of
       None \<Rightarrow> (False, g)
     | Some n \<Rightarrow> (True, g\<lparr>g_sent := g_sent g @ [(n, full_msg cmd body None)]\<rparr>))"

section \<open>\<^verbatim>\<open>PlayerManager.cpp\<close>\<close>

definition on_session_close_game :: "session_ptr \<Rightarrow> 'p game \<Rightarrow> 'p game option" where
  "on_session_close_game s g =
    (case g_online_user g s of
       None \<Rightarrow> Some g
     | Some player \<Rightarrow>
         let g = set_session_gp player None g;
             g = g\<lparr>g_online_user := (g_online_user g)(s := None)\<rparr>
         in if room_of_gp g player = None
            then (case g_login_user g (user_of_gp g player) of
                    Some _ \<Rightarrow> Some (g\<lparr>g_login_user := (g_login_user g)(user_of_gp g player := None)\<rparr>)
                  | None \<Rightarrow> None)
            else Some g)"

definition shutdown_session_game :: "'p server_env \<Rightarrow> session_ptr \<Rightarrow> 'p game \<Rightarrow> 'p game option" where
  "shutdown_session_game E s g = send_gp s (full_msg CMD_SHUTDOWN_SESSION (shutdown_body E) s) g"

definition login_elsewhere_game ::
  "'p server_env \<Rightarrow> session_ptr \<Rightarrow> int \<Rightarrow> u8 list \<Rightarrow> 'p game \<Rightarrow> 'p game option" where
  "login_elsewhere_game E s reason description g =
     send_gp s (full_msg CMD_PLAYER_LOGIN_ELSEWHERE (elsewhere_body E reason description) s) g"

definition add_user_session_game ::
  "'p server_env \<Rightarrow> game_player \<Rightarrow> int \<Rightarrow> session_ptr \<Rightarrow> 'p game \<Rightarrow> 'p game" where
  "add_user_session_game E fresh user_id s g =
    (case g_login_user g user_id of
       Some player \<Rightarrow>
         let old_session = session_of_gp g player;
             g = set_session_gp player s g;
             g = g\<lparr>g_online_user := (g_online_user g)(old_session := None, s \<mapsto> player)\<rparr>
         in if old_session \<noteq> None \<and> old_session \<noteq> s
            then (case shutdown_session_game E old_session g of Some g \<Rightarrow> g | None \<Rightarrow> g) else g
     | None \<Rightarrow>
         let (player, g) = make_shared_gp fresh user_id s g
         in g\<lparr>g_login_user := (g_login_user g)(user_id \<mapsto> player), g_online_user := (g_online_user g)(s \<mapsto> player)\<rparr>)"

definition recv_session_game :: "int \<Rightarrow> 'p game \<Rightarrow> session_ptr" where
  "recv_session_game user_id g =
    (case g_login_user g user_id of None \<Rightarrow> None | Some player \<Rightarrow> session_of_gp g player)"

definition make_player_game ::
  "game_player \<Rightarrow> int \<Rightarrow> int \<Rightarrow> session_ptr \<Rightarrow> 'p game \<Rightarrow> nat option \<times> 'p game" where
  "make_player_game fresh now player_id s g =
    (case g_login_user g player_id of
       None \<Rightarrow>
         let (player, g) = make_shared_gp fresh player_id s g
         in (Some player, g\<lparr>g_login_user := (g_login_user g)(player_id \<mapsto> player),
              g_online_user := (g_online_user g)(s \<mapsto> player)\<rparr>)
     | Some player \<Rightarrow>
         if room_of_gp g player = None then (Some player, flush_time_gp player now g) else (None, g))"

definition destory_player_game :: "nat \<Rightarrow> 'p game \<Rightarrow> 'p game option" where
  "destory_player_game player g =
    (case g_login_user g (user_of_gp g player) of
       None \<Rightarrow> None
     | Some found \<Rightarrow>
         Some (g\<lparr>g_online_user := (g_online_user g)(session_of_gp g found := None),
            g_login_user := (g_login_user g)(user_of_gp g player := None)\<rparr>))"

definition is_player_online_game :: "int \<Rightarrow> 'p game \<Rightarrow> bool" where
  "is_player_online_game user_id g \<longleftrightarrow> recv_session_game user_id g \<noteq> None"

definition check_user_token_game :: "json \<Rightarrow> bool option" where
  "check_user_token_game user_token = token_tests user_token"

definition check_player_session_game :: "int \<Rightarrow> session_ptr \<Rightarrow> 'p game \<Rightarrow> bool" where
  "check_player_session_game user_id s g =
    (case g_login_user g user_id of None \<Rightarrow> False | Some player \<Rightarrow> session_of_gp g player = s)"

text \<open>The room a player is in only goes into the log.\<close>

definition on_kick_out_user_game :: "'p server_env \<Rightarrow> 'p message \<Rightarrow> 'p game \<Rightarrow> 'p game option" where
  "on_kick_out_user_game E msg g = do {
     (userid, reason, description) \<leftarrow> pbmessage (kick_request E) msg;
     let recvses = recv_session_game userid g;
     if recvses = None then Some g
     else do {
       g \<leftarrow> login_elsewhere_game E recvses reason description g;
       shutdown_session_game E recvses g } }"

definition is_player_in_room :: "int \<Rightarrow> 'p game \<Rightarrow> int option" where
  "is_player_in_room user_id g =
    (case g_login_user g user_id of
       None \<Rightarrow> None
     | Some player \<Rightarrow> map_option (\<lambda>r. m_room_id (g_rooms g r)) (room_of_gp g player))"

definition flush_user_online_game :: "int \<Rightarrow> session_ptr \<Rightarrow> 'p game \<Rightarrow> 'p game" where
  "flush_user_online_game now s g =
    (case g_online_user g s of Some player \<Rightarrow> flush_time_gp player now g | None \<Rightarrow> g)"

definition player_token_login_game ::
  "'p server_env \<Rightarrow> game_player \<Rightarrow> 'p message \<Rightarrow> 'p game \<Rightarrow> (bool \<times> 'p game \<times> 'p action list) option" where
  "player_token_login_game E fresh msg g = do {
     usertoken \<leftarrow> pbmessage (token_request E) msg;
     decode_token \<leftarrow> AES_ecb128_decrypt_seed (junk E) (fresh_mem E) (decode_pos E) usertoken (chars ''key'');
     jv \<leftarrow> json_parse E decode_token;
     passed \<leftarrow> check_user_token_game jv;
     if \<not> passed then do {
       acts \<leftarrow> failed_reason E msg CODE_CHECK_GAME_TOKEN_FAILED;
       Some (False, g, acts @ [Send (full_msg CMD_SHUTDOWN_SESSION (shutdown_body E) None)]) }
     else do {
       (id, _) \<leftarrow> json_index jv ''user_id'';
       user_id \<leftarrow> get_int id;
       if m_session msg = None then None
       else do {
         acts \<leftarrow> failed_reason E msg CODE_SUCCESS;
         Some (True, add_user_session_game E fresh user_id (m_session msg) g, acts) } } }"

section \<open>\<^verbatim>\<open>GameRoom.cpp\<close>\<close>

definition all_player :: "'p game \<Rightarrow> nat \<Rightarrow> int \<rightharpoonup> nat" where
  "all_player g r = map_of (m_all_player (g_rooms g r))"

definition find_player :: "nat \<Rightarrow> int \<Rightarrow> 'p game \<Rightarrow> nat option" where
  "find_player r player_id g = all_player g r player_id"

definition check_player_exist :: "nat \<Rightarrow> int \<Rightarrow> 'p game \<Rightarrow> nat option" where
  "check_player_exist r user_id g = (case find_player r user_id g of None \<Rightarrow> None | Some p \<Rightarrow> Some p)"

definition broadcast_message :: "nat \<Rightarrow> u32 \<Rightarrow> 'p \<Rightarrow> 'p game \<Rightarrow> 'p game" where
  "broadcast_message r cmd body g =
     fold (\<lambda>(u, p) g. if gp_recv_broadcast (g_players g p) then snd (send_request_gp p cmd body g) else g)
       (m_all_player (g_rooms g r)) g"

definition send_msg_to_player :: "nat \<Rightarrow> int \<Rightarrow> u32 \<Rightarrow> 'p \<Rightarrow> 'p game \<Rightarrow> 'p game" where
  "send_msg_to_player r player_id cmd body g =
    (case all_player g r player_id of None \<Rightarrow> g | Some p \<Rightarrow> snd (send_request_gp p cmd body g))"

definition broadcast_message_to :: "nat \<Rightarrow> u32 \<Rightarrow> 'p \<Rightarrow> int list \<Rightarrow> 'p game \<Rightarrow> 'p game" where
  "broadcast_message_to r cmd body recv_user_id g =
     fold (\<lambda>u. send_msg_to_player r u cmd body) recv_user_id g"

definition destroy_player :: "nat \<Rightarrow> nat \<Rightarrow> 'p game \<Rightarrow> 'p game option" where
  "destroy_player r player g =
    (let u = user_of_gp g player;
         g = g\<lparr>g_rooms := (g_rooms g)(r := (g_rooms g r)\<lparr>m_all_player :=
               filter (\<lambda>(v, p). v \<noteq> u) (m_all_player (g_rooms g r))\<rparr>)\<rparr>
     in destory_player_game player g)"

definition create_player ::
  "game_player \<Rightarrow> int \<Rightarrow> int \<Rightarrow> session_ptr \<Rightarrow> 'p game \<Rightarrow> nat option \<times> 'p game" where
  "create_player fresh now player_id s g =
    (let (player, g) = make_player_game fresh now player_id s g
     in case player of None \<Rightarrow> (None, g) | Some p \<Rightarrow> (Some p, g))"

definition add_player :: "game_player \<Rightarrow> int \<Rightarrow> nat \<Rightarrow> int \<Rightarrow> session_ptr \<Rightarrow> 'p game \<Rightarrow> nat option \<times> 'p game" where
  "add_player fresh now r player_id s g =
    (case all_player g r player_id of
       Some p \<Rightarrow> (Some p, g)
     | None \<Rightarrow>
         (case create_player fresh now player_id s g of
            (None, g) \<Rightarrow> (None, g)
          | (Some new_player, g) \<Rightarrow>
              let g = set_room_gp new_player (Some r) g
              in (Some new_player, g\<lparr>g_rooms := (g_rooms g)(r := (g_rooms g r)\<lparr>m_all_player :=
                    m_all_player (g_rooms g r) @ [(player_id, new_player)]\<rparr>)\<rparr>)))"

text \<open>The handler only reads the entry of the user it found; without one it reads past the table.\<close>

definition on_apply_enter_room :: "('p \<Rightarrow> int option) \<Rightarrow> nat \<Rightarrow> 'p message \<Rightarrow> 'p game \<Rightarrow> 'p game option" where
  "on_apply_enter_room userid r msg g = do {
     u \<leftarrow> pbmessage userid msg;
     _ \<leftarrow> all_player g r u;
     Some g }"

definition CMD_APPLY_ENTER_ROOM :: u32 where "CMD_APPLY_ENTER_ROOM = 1000"

definition handle_msg :: "('p \<Rightarrow> int option) \<Rightarrow> nat \<Rightarrow> 'p message \<Rightarrow> 'p game \<Rightarrow> 'p game option" where
  "handle_msg userid r msg g =
    (if cmdtype (m_header msg) = CMD_APPLY_ENTER_ROOM then on_apply_enter_room userid r msg g else Some g)"

section \<open>\<^verbatim>\<open>RoomManager.cpp\<close>\<close>

definition room_ids :: "int list" where
  "room_ids = [1, 2, 3, 4, 5]"

definition add_room :: "int \<Rightarrow> 'p game \<Rightarrow> 'p game" where
  "add_room room_id g =
    (let one_room = g_next_room g;
         g = g\<lparr>g_rooms := (g_rooms g)(one_room := \<lparr>m_room_id = room_id, m_all_player = []\<rparr>),
               g_next_room := Suc one_room\<rparr>
     in if m_game_room g room_id = None then g\<lparr>m_game_room := (m_game_room g)(room_id \<mapsto> one_room)\<rparr> else g)"

definition open_rooms :: "'p game \<Rightarrow> 'p game" where
  "open_rooms g = fold add_room room_ids g"

definition check_room :: "int \<Rightarrow> int \<Rightarrow> 'p game \<Rightarrow> bool" where
  "check_room user_id room_id g \<longleftrightarrow> m_game_room g room_id \<noteq> None"

section \<open>The tables\<close>

lemmas game_defs = set_session_gp_def set_room_gp_def flush_time_gp_def user_of_gp_def session_of_gp_def
  room_of_gp_def make_shared_gp_def

interpretation game_reg: registry g_login_user g_online_user user_of_gp session_of_gp g_next_player
  "\<lambda>g p. room_of_gp g p \<noteq> None" "add_user_session_game E fresh" on_session_close_game for E fresh
proof unfold_locales
  fix g :: "'a game" and u s p
  assume "g_login_user g u = Some p"
  then show "g_login_user (add_user_session_game E fresh u s g) = g_login_user g \<and>
      g_online_user (add_user_session_game E fresh u s g) = (g_online_user g)(session_of_gp g p := None, s \<mapsto> p) \<and>
      user_of_gp (add_user_session_game E fresh u s g) = user_of_gp g \<and>
      session_of_gp (add_user_session_game E fresh u s g) = (session_of_gp g)(p := s) \<and>
      g_next_player (add_user_session_game E fresh u s g) = g_next_player g"
    by (auto simp: add_user_session_game_def Let_def game_defs shutdown_session_game_def send_gp_def
        fun_eq_iff split: option.splits)
next
  fix g :: "'a game" and u s
  assume "g_login_user g u = None"
  then show "g_login_user (add_user_session_game E fresh u s g) = (g_login_user g)(u \<mapsto> g_next_player g) \<and>
      g_online_user (add_user_session_game E fresh u s g) = (g_online_user g)(s \<mapsto> g_next_player g) \<and>
      user_of_gp (add_user_session_game E fresh u s g) = (user_of_gp g)(g_next_player g := u) \<and>
      session_of_gp (add_user_session_game E fresh u s g) = (session_of_gp g)(g_next_player g := s) \<and>
      g_next_player (add_user_session_game E fresh u s g) = Suc (g_next_player g)"
    by (auto simp: add_user_session_game_def game_defs fun_eq_iff)
next
  fix g :: "'a game" and s
  assume "g_online_user g s = None"
  then show "\<exists>r'. on_session_close_game s g = Some r' \<and> g_login_user r' = g_login_user g \<and>
      g_online_user r' = g_online_user g \<and> user_of_gp r' = user_of_gp g \<and>
      session_of_gp r' = session_of_gp g \<and> g_next_player r' = g_next_player g"
    by (simp add: on_session_close_game_def)
next
  fix g :: "'a game" and s p
  assume "g_online_user g s = Some p" "g_login_user g (user_of_gp g p) = Some p"
  then show "\<exists>r'. on_session_close_game s g = Some r' \<and>
      g_login_user r' = (if room_of_gp g p \<noteq> None then g_login_user g else (g_login_user g)(user_of_gp g p := None)) \<and>
      g_online_user r' = (g_online_user g)(s := None) \<and> user_of_gp r' = user_of_gp g \<and>
      session_of_gp r' = (session_of_gp g)(p := None) \<and> g_next_player r' = g_next_player g"
    by (auto simp: on_session_close_game_def game_defs fun_eq_iff Let_def)
qed

text \<open>The rooms agree with the players: who is in a room is registered with that room as his own.\<close>

definition rooms_ok :: "'p game \<Rightarrow> bool" where
  "rooms_ok g \<longleftrightarrow> (\<forall>r u p. all_player g r u = Some p \<longleftrightarrow> g_login_user g u = Some p \<and> room_of_gp g p = Some r)"

lemma rooms_okD: "rooms_ok g \<Longrightarrow> all_player g r u = Some p \<longleftrightarrow> g_login_user g u = Some p \<and> room_of_gp g p = Some r"
  by (simp add: rooms_ok_def)

lemma login_rooms:
  "all_player (add_user_session_game E fresh u s g) = all_player g"
  "room_of_gp (add_user_session_game E fresh u s g) p =
    (if g_login_user g u = None \<and> p = g_next_player g then None else room_of_gp g p)"
  by (auto simp: add_user_session_game_def Let_def game_defs shutdown_session_game_def send_gp_def all_player_def
      fun_eq_iff split: option.splits)

lemma login_rooms_ok:
  assumes ok: "game_reg.tables_ok g" "rooms_ok g"
  shows "rooms_ok (add_user_session_game E fresh u (Some s) g)"
proof (cases "g_login_user g u")
  case None
  have "all_player g r u = None" for r using None rooms_okD [OF ok(2), of r u] by (cases "all_player g r u") auto
  moreover have "g_login_user g v = Some p \<Longrightarrow> p \<noteq> g_next_player g" for v p
    using game_reg.tables_okD(1) [OF ok(1)] by blast
  ultimately have "all_player g r v = Some p \<longleftrightarrow> ((g_login_user g)(u \<mapsto> g_next_player g)) v = Some p \<and>
      room_of_gp (add_user_session_game E fresh u (Some s) g) p = Some r" for r v p
    using rooms_okD [OF ok(2), of r v p] None by (cases "v = u") (auto simp: login_rooms)
  with game_reg.add_new [OF None, of E fresh "Some s"] show ?thesis by (simp add: rooms_ok_def login_rooms(1))
next
  case (Some p)
  with rooms_okD [OF ok(2)] game_reg.add_known [OF Some, of E fresh "Some s"] show ?thesis
    by (simp add: rooms_ok_def login_rooms)
qed

lemma close_rooms:
  "on_session_close_game s g = Some g' \<Longrightarrow> all_player g' = all_player g \<and> room_of_gp g' = room_of_gp g"
  by (auto simp: on_session_close_game_def Let_def game_defs all_player_def fun_eq_iff split: option.splits if_splits)

lemma close_ok:
  assumes ok: "game_reg.tables_ok g" "rooms_ok g"
  shows "\<exists>g'. on_session_close_game (Some s) g = Some g' \<and> game_reg.tables_ok g' \<and> rooms_ok g'"
proof -
  obtain g' where g': "on_session_close_game (Some s) g = Some g'" "game_reg.tables_ok g'"
    using game_reg.close_tables_ok [OF ok(1)] by blast
  have "rooms_ok g'"
  proof (cases "g_online_user g (Some s)")
    case None
    with game_reg.close_unknown [OF None] g' ok(2) close_rooms [OF g'(1)] show ?thesis by (auto simp: rooms_ok_def)
  next
    case (Some p)
    have lp: "g_login_user g (user_of_gp g p) = Some p" using ok(1) Some by (rule game_reg.tables_okD(4))
    from game_reg.close_known [OF Some lp] g' have
      l: "g_login_user g' = (if room_of_gp g p \<noteq> None then g_login_user g else (g_login_user g)(user_of_gp g p := None))"
      by auto
    with lp ok(2) close_rooms [OF g'(1)] show ?thesis by (auto simp: rooms_ok_def split: if_splits)
  qed
  with g' show ?thesis by blast
qed

lemma create_player_eq: "create_player fresh now u s g = make_player_game fresh now u s g"
  by (simp add: create_player_def split: option.split prod.split)

lemma make_player_new:
  "g_login_user g u = None \<Longrightarrow>
     make_player_game fresh now u s g = (Some (g_next_player g), add_user_session_game E fresh u s g)"
  by (simp add: make_player_game_def add_user_session_game_def make_shared_gp_def)

text \<open>Putting a registered player without a room into one.\<close>

definition put_in_room :: "nat \<Rightarrow> int \<Rightarrow> nat \<Rightarrow> 'p game \<Rightarrow> 'p game" where
  "put_in_room r u p g =
    (let g = set_room_gp p (Some r) g
     in g\<lparr>g_rooms := (g_rooms g)(r := (g_rooms g r)\<lparr>m_all_player := m_all_player (g_rooms g r) @ [(u, p)]\<rparr>)\<rparr>)"

lemma put_in_room_ok:
  assumes ok: "game_reg.tables_ok g" "rooms_ok g" and p: "g_login_user g u = Some p" "room_of_gp g p = None"
  shows "game_reg.tables_ok (put_in_room r u p g) \<and> rooms_ok (put_in_room r u p g) \<and>
    all_player (put_in_room r u p g) r u = Some p"
proof -
  let ?g = "put_in_room r u p g"
  have same: "g_login_user ?g = g_login_user g" "g_online_user ?g = g_online_user g" "user_of_gp ?g = user_of_gp g"
      "session_of_gp ?g = session_of_gp g" "g_next_player ?g = g_next_player g"
      "room_of_gp ?g = (room_of_gp g)(p := Some r)"
    by (simp_all add: put_in_room_def game_defs fun_eq_iff Let_def)
  have out: "all_player g q u = None" for q
    using rooms_okD [OF ok(2), of q u] p by (metis not_None_eq option.inject)
  then have ap: "all_player ?g = (all_player g)(r := (all_player g r)(u \<mapsto> p))"
    by (auto simp: put_in_room_def all_player_def game_defs fun_eq_iff Let_def map_add_def split: option.split)
  have alone: "v = u" if "g_login_user g v = Some p" for v
    using that p(1) game_reg.tables_okD(2) [OF ok(1)] by metis
  have "all_player ?g q v = Some x \<longleftrightarrow> g_login_user ?g v = Some x \<and> room_of_gp ?g x = Some q" for q v x
  proof (cases "v = u")
    case True
    then show ?thesis using p out [of q] by (cases "q = r") (auto simp: same ap)
  next
    case False
    with alone [of v] have "g_login_user g v = Some x \<Longrightarrow> x \<noteq> p" by blast
    with False show ?thesis using rooms_okD [OF ok(2), of q v x] by (auto simp: same ap)
  qed
  then have "rooms_ok ?g" by (simp add: rooms_ok_def)
  with ok(1) show ?thesis by (simp add: game_reg.tables_ok_def same ap)
qed

lemma add_player_ok:
  assumes ok: "game_reg.tables_ok g" "rooms_ok g" and g': "add_player fresh now r u (Some s) g = (res, g')"
  shows "game_reg.tables_ok g' \<and> rooms_ok g'"
    and "case res of None \<Rightarrow> g' = g \<and> (\<exists>p q. g_login_user g u = Some p \<and> room_of_gp g p = Some q \<and> q \<noteq> r)
         | Some p \<Rightarrow> all_player g' r u = Some p"
proof -
  have "(game_reg.tables_ok g' \<and> rooms_ok g') \<and>
    (case res of None \<Rightarrow> g' = g \<and> (\<exists>p q. g_login_user g u = Some p \<and> room_of_gp g p = Some q \<and> q \<noteq> r)
     | Some p \<Rightarrow> all_player g' r u = Some p)"
  proof (cases "all_player g r u")
    case (Some p)
    with g' have "res = Some p" "g' = g" by (simp_all add: add_player_def)
    with ok Some show ?thesis by simp
  next
    case out: None
    show ?thesis
    proof (cases "g_login_user g u")
      case None
      let ?g = "add_user_session_game undefined fresh u (Some s) g"
      have "g_login_user ?g u = Some (g_next_player g)" "room_of_gp ?g (g_next_player g) = None"
        using game_reg.add_new [OF None, of undefined fresh "Some s"] None by (simp_all add: login_rooms)
      moreover from out g' have "res = Some (g_next_player g)" "g' = put_in_room r u (g_next_player g) ?g"
        by (simp_all add: add_player_def create_player_eq make_player_new [OF None, where E = undefined] put_in_room_def Let_def)
      ultimately show ?thesis
        using put_in_room_ok [OF game_reg.add_tables_ok [OF ok(1)] login_rooms_ok [OF ok]] by simp
    next
      case (Some p)
      show ?thesis
      proof (cases "room_of_gp g p")
        case None
        let ?g = "flush_time_gp p now g"
        have same: "user_of_gp ?g = user_of_gp g" "session_of_gp ?g = session_of_gp g" "room_of_gp ?g = room_of_gp g"
            "g_login_user ?g = g_login_user g" "g_online_user ?g = g_online_user g" "all_player ?g = all_player g"
            "g_next_player ?g = g_next_player g"
          by (simp_all add: game_defs all_player_def fun_eq_iff)
        have f: "game_reg.tables_ok ?g = game_reg.tables_ok g" "rooms_ok ?g = rooms_ok g"
            "g_login_user ?g = g_login_user g" "room_of_gp ?g = room_of_gp g"
          by (simp_all add: game_reg.tables_ok_def rooms_ok_def same)
        from out Some None g' have "res = Some p" "g' = put_in_room r u p ?g"
          by (simp_all add: add_player_def create_player_eq make_player_game_def put_in_room_def Let_def)
        with put_in_room_ok [of ?g u p r] ok f Some None show ?thesis by simp
      next
        case (Some q)
        with \<open>g_login_user g u = Some p\<close> out rooms_okD [OF ok(2), of r u p] have "q \<noteq> r" by auto
        with Some \<open>g_login_user g u = Some p\<close> out g' ok show ?thesis
          by (auto simp: add_player_def create_player_eq make_player_game_def)
      qed
    qed
  qed
  then show "game_reg.tables_ok g' \<and> rooms_ok g'"
    and "case res of None \<Rightarrow> g' = g \<and> (\<exists>p q. g_login_user g u = Some p \<and> room_of_gp g p = Some q \<and> q \<noteq> r)
         | Some p \<Rightarrow> all_player g' r u = Some p" by blast+
qed

lemma destroy_player_ok:
  assumes ok: "game_reg.tables_ok g" "rooms_ok g" and p: "all_player g r u = Some p"
  shows "\<exists>g'. destroy_player r p g = Some g' \<and> game_reg.tables_ok g' \<and> rooms_ok g' \<and> g_login_user g' u = None"
proof -
  have lp: "g_login_user g u = Some p" "room_of_gp g p = Some r" using rooms_okD [OF ok(2)] p by auto
  have u: "user_of_gp g p = u" using game_reg.tables_okD(2) [OF ok(1) lp(1)] .
  have other: "v = u" if "g_login_user g v = Some p" for v using that game_reg.tables_okD(2) [OF ok(1)] u by metis
  have erased: "map_of (filter (\<lambda>(v, p). v \<noteq> u) xs) = (map_of xs)(u := None)" for xs :: "(int \<times> nat) list"
    by (induction xs) (auto simp: fun_eq_iff)
  let ?g = "g\<lparr>g_rooms := (g_rooms g)(r := (g_rooms g r)\<lparr>m_all_player :=
      filter (\<lambda>(v, p). v \<noteq> u) (m_all_player (g_rooms g r))\<rparr>),
    g_online_user := (g_online_user g)(session_of_gp g p := None), g_login_user := (g_login_user g)(u := None)\<rparr>"
  have "destroy_player r p g = Some ?g"
    using lp u by (simp add: destroy_player_def destory_player_game_def game_defs Let_def)
  moreover have "user_of_gp ?g = user_of_gp g" "session_of_gp ?g = session_of_gp g" "room_of_gp ?g = room_of_gp g"
      "all_player ?g = (all_player g)(r := (all_player g r)(u := None))"
    by (simp_all add: fun_eq_iff game_defs all_player_def erased)
  ultimately obtain g' where g': "destroy_player r p g = Some g'" "g_login_user g' = (g_login_user g)(u := None)"
      "g_online_user g' = (g_online_user g)(session_of_gp g p := None)" "user_of_gp g' = user_of_gp g"
      "session_of_gp g' = session_of_gp g" "room_of_gp g' = room_of_gp g" "g_next_player g' = g_next_player g"
      "all_player g' = (all_player g)(r := (all_player g r)(u := None))"
    by simp
  have "rooms_ok g'"
    using rooms_okD [OF ok(2)] lp by (auto simp: rooms_ok_def g' fun_upd_def)
  moreover have "game_reg.tables_ok g'"
    unfolding game_reg.tables_ok_def g'
  proof (intro conjI allI impI)
    fix k q assume q: "((g_online_user g)(session_of_gp g p := None)) k = Some q"
    then have "g_online_user g k = Some q" "k \<noteq> session_of_gp g p" by (auto split: if_splits)
    moreover from this have "session_of_gp g q = k" "g_login_user g (user_of_gp g q) = Some q" "k \<noteq> None"
      using game_reg.tables_okD(3,4,5) [OF ok(1)] by (simp_all, metis option.distinct(1) option.exhaust)
    ultimately show "k \<noteq> None" "session_of_gp g q = k" "((g_login_user g)(u := None)) (user_of_gp g q) = Some q"
      using lp(1) by auto
  qed (use game_reg.tables_okD(1,2) [OF ok(1)] in \<open>auto split: if_splits\<close>)
  ultimately show ?thesis using g'(1,2) by auto
qed

section \<open>Runs\<close>

text \<open>
  A session logs in, a session closes, a room takes a player in, a room lets a player go, in any
  order; \<open>fresh\<close> is what a new object holds before it is filled.
\<close>

datatype game_event =
    Login_game int nat game_player
  | Close_game nat
  | Enter_room nat int nat game_player int
  | Leave_room nat int

fun game_step :: "'p server_env \<Rightarrow> game_event \<Rightarrow> 'p game \<Rightarrow> 'p game option" where
  "game_step E (Login_game u s fresh) g = Some (add_user_session_game E fresh u (Some s) g)"
| "game_step E (Close_game s) g = on_session_close_game (Some s) g"
| "game_step E (Enter_room r u s fresh now) g = Some (snd (add_player fresh now r u (Some s) g))"
| "game_step E (Leave_room r u) g =
    (case find_player r u g of None \<Rightarrow> Some g | Some player \<Rightarrow> destroy_player r player g)"

fun game_run :: "'p server_env \<Rightarrow> game_event list \<Rightarrow> 'p game \<Rightarrow> 'p game option" where
  "game_run E [] g = Some g"
| "game_run E (e # es) g = do { g \<leftarrow> game_step E e g; game_run E es g }"

lemma game_step_ok:
  assumes "game_reg.tables_ok g" "rooms_ok g"
  shows "\<exists>g'. game_step E e g = Some g' \<and> game_reg.tables_ok g' \<and> rooms_ok g'"
proof (cases e)
  case (Login_game u s fresh)
  with game_reg.add_tables_ok [OF assms(1)] login_rooms_ok [OF assms] show ?thesis by simp
next
  case (Close_game s)
  with close_ok [OF assms] show ?thesis by simp
next
  case (Enter_room r u s fresh now)
  with add_player_ok(1) [OF assms, of fresh now r u s] show ?thesis
    by (cases "add_player fresh now r u (Some s) g") simp
next
  case (Leave_room r u)
  with destroy_player_ok [OF assms, of r u] assms show ?thesis by (auto simp: find_player_def split: option.split)
qed

lemma game_run_ok:
  "game_reg.tables_ok g \<Longrightarrow> rooms_ok g \<Longrightarrow> \<exists>g'. game_run E es g = Some g' \<and> game_reg.tables_ok g' \<and> rooms_ok g'"
proof (induction es arbitrary: g)
  case (Cons e es)
  from game_step_ok [OF Cons.prems] obtain g1 where "game_step E e g = Some g1" "game_reg.tables_ok g1" "rooms_ok g1"
    by blast
  with Cons.IH show ?case by simp
qed simp

lemma open_rooms_ok: "game_reg.tables_ok (open_rooms (new_game :: 'p game))" "rooms_ok (open_rooms (new_game :: 'p game))"
proof -
  have "game_reg.tables_ok (add_room i g) \<and> rooms_ok (add_room i g) \<and> g_login_user (add_room i g) = Map.empty"
    if "game_reg.tables_ok g \<and> rooms_ok g \<and> g_login_user g = Map.empty" for i and g :: "'p game"
    using that by (auto simp: add_room_def Let_def game_reg.tables_ok_def rooms_ok_def game_defs all_player_def)
  moreover have "game_reg.tables_ok (new_game :: 'p game) \<and> rooms_ok (new_game :: 'p game) \<and>
      g_login_user (new_game :: 'p game) = Map.empty"
    by (simp add: game_reg.tables_ok_def rooms_ok_def new_game_def all_player_def)
  ultimately show "game_reg.tables_ok (open_rooms (new_game :: 'p game))" "rooms_ok (open_rooms (new_game :: 'p game))"
    by (simp_all add: open_rooms_def room_ids_def)
qed

lemma open_rooms_table: "check_room u i (open_rooms new_game) \<longleftrightarrow> i \<in> {1, 2, 3, 4, 5}"
  by (auto simp: check_room_def open_rooms_def room_ids_def add_room_def new_game_def Let_def)

section \<open>Properties\<close>


text \<open>User 7 enters the room with number 3, the third one, and then tries to enter the fifth as well.\<close>

definition demo_player :: game_player where
  "demo_player = \<lparr>gp_user_id = 0, gp_session = None, gp_room = None, gp_status = 0, gp_recv_broadcast = True,
     gp_check_time = 0\<rparr>"


text \<open>
  C28. A player in a room survives the loss of his session: when the session of a user who is in a
  room closes, he is offline but keeps his object and his place, and logging in again on any session
  gives him the same object in the same room, without a message to anyone. A user without a room is
  forgotten when his session closes.
\<close>

theorem game_reconnect_keeps_place:
  assumes "game_run E es (open_rooms new_game) = Some g" "g_online_user g (Some s) = Some p"
  shows "\<exists>g1. on_session_close_game (Some s) g = Some g1 \<and> \<not> is_player_online_game (user_of_gp g p) g1 \<and>
    (case room_of_gp g p of
       None \<Rightarrow> g_login_user g1 (user_of_gp g p) = None
     | Some r \<Rightarrow> is_player_in_room (user_of_gp g p) g1 = Some (m_room_id (g_rooms g r)) \<and>
         all_player g1 r (user_of_gp g p) = Some p \<and>
         (let g2 = add_user_session_game E fresh (user_of_gp g p) (Some s') g1
          in recv_session_game (user_of_gp g p) g2 = Some s' \<and> g_login_user g2 (user_of_gp g p) = Some p \<and>
             all_player g2 r (user_of_gp g p) = Some p \<and> g_sent g2 = g_sent g))"
proof -
  obtain g' where "game_run E es (open_rooms new_game) = Some g'" "game_reg.tables_ok g'" "rooms_ok g'"
    using game_run_ok [OF open_rooms_ok] by blast
  with assms(1) have ok: "game_reg.tables_ok g" "rooms_ok g" by simp_all
  let ?u = "user_of_gp g p"
  have lp: "g_login_user g ?u = Some p" using game_reg.tables_okD(4) [OF ok(1) assms(2)] .
  from game_reg.close_known [OF assms(2) lp] obtain g1 where g1: "on_session_close_game (Some s) g = Some g1"
      "g_login_user g1 = (if room_of_gp g p \<noteq> None then g_login_user g else (g_login_user g)(?u := None))"
      "session_of_gp g1 = (session_of_gp g)(p := None)" by blast
  have sent: "g_sent g1 = g_sent g" "g_rooms g1 = g_rooms g"
    using g1(1) assms(2) by (auto simp: on_session_close_game_def game_defs Let_def split: option.splits if_splits)
  note rooms = close_rooms [OF g1(1)]
  show ?thesis
  proof (cases "room_of_gp g p")
    case None
    with g1 lp show ?thesis by (simp add: is_player_online_game_def recv_session_game_def)
  next
    case (Some r)
    with g1(2) lp have l1: "g_login_user g1 ?u = Some p" by simp
    let ?g2 = "add_user_session_game E fresh ?u (Some s') g1"
    have "g_login_user ?g2 ?u = Some p" "session_of_gp ?g2 p = Some s'"
      using game_reg.add_known [OF l1, of E fresh "Some s'"] l1 by simp_all
    moreover have "g_sent ?g2 = g_sent g1"
      using l1 g1(3) by (simp add: add_user_session_game_def Let_def game_defs)
    moreover have "all_player g1 r ?u = Some p" using rooms rooms_okD [OF ok(2)] lp Some by simp
    ultimately show ?thesis
      using g1 l1 rooms sent Some
      by (simp add: is_player_online_game_def recv_session_game_def is_player_in_room_def login_rooms Let_def)
  qed
qed

lemma game_reconnect_keeps_place_witness:
  "\<exists>g g1. game_run (demo_server JNull) [Enter_room 2 7 3 demo_player 1] (open_rooms new_game) = Some g \<and>
     on_session_close_game (Some 3) g = Some g1 \<and> is_player_in_room 7 g1 = Some 3 \<and>
     recv_session_game 7 (add_user_session_game (demo_server JNull) demo_player 7 (Some 9) g1) = Some 9"
proof -
  obtain g where g: "game_run (demo_server JNull) [Enter_room 2 7 3 demo_player 1] (open_rooms new_game) = Some g" by simp
  then have "g_online_user g (Some 3) = Some 0" "user_of_gp g 0 = 7" "room_of_gp g 0 = Some 2" "m_room_id (g_rooms g 2) = 3"
    by (auto simp: open_rooms_def room_ids_def add_room_def new_game_def add_player_def create_player_eq make_player_game_def
        game_defs all_player_def Let_def)
  with game_reconnect_keeps_place [OF g, of 3 0 demo_player 9] g show ?thesis by (auto simp: Let_def)
qed

section \<open>Limits\<close>

text \<open>
  The only message a room handles reads the entry of the user past the end of the table unless he is
  there; and no message puts anyone there.
\<close>

theorem enter_room_reads_past_end:
  assumes "cmdtype (m_header msg) = CMD_APPLY_ENTER_ROOM" "m_all_player (g_rooms g r) = []"
  shows "handle_msg userid r msg g = None"
  using assms by (cases "pbmessage userid msg") (simp_all add: handle_msg_def on_apply_enter_room_def all_player_def)

text \<open>A broadcast reaches the players of the room who receive broadcasts and have a session, one message each.\<close>

lemma broadcast_message_sent:
  "g_sent (broadcast_message r cmd body g) = g_sent g @
     concat (map (\<lambda>(u, p). if gp_recv_broadcast (g_players g p)
       then (case session_of_gp g p of None \<Rightarrow> [] | Some n \<Rightarrow> [(n, full_msg cmd body None)]) else [])
     (m_all_player (g_rooms g r)))"
proof -
  have "g_sent (fold (\<lambda>(u, p) g. if gp_recv_broadcast (g_players g p) then snd (send_request_gp p cmd body g) else g) xs g') =
      g_sent g' @ concat (map (\<lambda>(u, p). if gp_recv_broadcast (g_players g p)
       then (case session_of_gp g p of None \<Rightarrow> [] | Some n \<Rightarrow> [(n, full_msg cmd body None)]) else []) xs)"
    if "g_players g' = g_players g" for xs g' using that
  proof (induction xs arbitrary: g')
    case (Cons x xs)
    let ?g = "(\<lambda>(u, p) g. if gp_recv_broadcast (g_players g p) then snd (send_request_gp p cmd body g) else g) x g'"
    have "g_players ?g = g_players g" using Cons.prems by (auto simp: send_request_gp_def split: option.split prod.split)
    from Cons.IH [OF this] Cons.prems show ?case
      by (auto simp: send_request_gp_def session_of_gp_def split: option.split prod.split)
  qed simp
  from this [OF refl, of "m_all_player (g_rooms g r)"] show ?thesis unfolding broadcast_message_def .
qed

end
