(* ===== verification/Redis_Hash.thy ===== *)
theory Redis_Hash
  imports Json_Value
begin

text \<open>
  \<^verbatim>\<open>common/libresource\<close>: the clients of the databases, one of each configuration for each thread
  (\<^verbatim>\<open>Resource.inl\<close>), and flat JSON objects as Redis hashes (\<^verbatim>\<open>Redis.cpp\<close>). The client libraries are
  parameters: a client is what it was made of, a reply is a value of \<open>redis_reply\<close>, and what the code
  asks of Redis is a list of commands. \<open>None\<close> is an exception, a failed assertion or a read outside a
  vector.
\<close>

section \<open>Clients of a thread: \<^verbatim>\<open>Resource.inl\<close>\<close>

text \<open>\<^verbatim>\<open>jv["k"]\<close> as a string, on a variable: a missing key becomes null, which is no string.\<close>

definition index_string :: "json \<Rightarrow> string \<Rightarrow> string option" where
  "index_string j k = do { (v, _) \<leftarrow> json_index j k; get_string v }"

definition ref_string :: "json \<Rightarrow> string \<Rightarrow> string option" where
  "ref_string j k = do { v \<leftarrow> json_ref j k; get_string v }"

record 'c resource =
  m_configs :: "json list"
  m_thread_resource :: "nat \<rightharpoonup> (string \<rightharpoonup> 'c)"

definition new_resource :: "'c resource" where
  "new_resource = \<lparr>m_configs = [], m_thread_resource = Map.empty\<rparr>"

definition parse_config :: "json \<Rightarrow> 'c resource \<Rightarrow> 'c resource" where
  "parse_config config_jv r = r\<lparr>m_configs := m_configs r @ json_elements config_jv\<rparr>"

text \<open>\<open>parse_one\<close> is \<^verbatim>\<open>m_parse_one_fun\<close>.\<close>

fun parse_all :: "(json \<Rightarrow> 'c option) \<Rightarrow> json list \<Rightarrow> (string \<rightharpoonup> 'c) \<Rightarrow> (string \<rightharpoonup> 'c) option" where
  "parse_all parse_one [] resources = Some resources"
| "parse_all parse_one (e # es) resources = do {
     config_name \<leftarrow> index_string e ''config_name'';
     c \<leftarrow> parse_one e;
     parse_all parse_one es (resources(config_name \<mapsto> c)) }"

definition insert_one :: "(json \<Rightarrow> 'c option) \<Rightarrow> nat \<Rightarrow> 'c resource \<Rightarrow> 'c resource option" where
  "insert_one parse_one thread r =
    map_option (\<lambda>resources. r\<lparr>m_thread_resource := (m_thread_resource r)(thread \<mapsto> resources)\<rparr>)
      (parse_all parse_one (m_configs r) (case m_thread_resource r thread of Some m \<Rightarrow> m | None \<Rightarrow> Map.empty))"

fun insert_all :: "(json \<Rightarrow> 'c option) \<Rightarrow> nat list \<Rightarrow> 'c resource \<Rightarrow> 'c resource option" where
  "insert_all parse_one [] r = Some r"
| "insert_all parse_one (t # ts) r = Option.bind (insert_one parse_one t r) (insert_all parse_one ts)"

definition get_client :: "nat \<Rightarrow> string \<Rightarrow> 'c resource \<Rightarrow> 'c option" where
  "get_client thread map_key r = Option.bind (m_thread_resource r thread) (\<lambda>m. m map_key)"

definition redis_parse_one :: "json \<Rightarrow> (string \<times> int) option" where
  "redis_parse_one jv = do { ip \<leftarrow> ref_string jv ''ip''; port \<leftarrow> ref_string jv ''port''; Some (ip, atoi port) }"

definition mongo_parse_one :: "json \<Rightarrow> (string \<times> string) option" where
  "mongo_parse_one jv = do { url \<leftarrow> ref_string jv ''url''; db \<leftarrow> ref_string jv ''db_name''; Some (url, db) }"

section \<open>Hashes: \<^verbatim>\<open>Redis.cpp\<close>\<close>

datatype redis_reply =
    Reply_null
  | Reply_error
  | Reply_string string
  | Reply_integer int
  | Reply_array "redis_reply list"

datatype redis_cmd = Hset string string string | Expire string nat

fun reply_string :: "redis_reply \<Rightarrow> string option" where
  "reply_string (Reply_string s) = Some s"
| "reply_string _ = None"

fun as_array :: "redis_reply \<Rightarrow> redis_reply list option" where
  "as_array (Reply_array ar) = Some ar"
| "as_array _ = None"

text \<open>
  A member that is no string and no integer is only logged; the key of an element needs an object.
  \<open>client\<close> is what \<^verbatim>\<open>get_client\<close> finds for the name of the call.
\<close>

fun hash_text :: "json \<Rightarrow> string option" where
  "hash_text (JString s) = Some s"
| "hash_text (JInt i) = Some (int_to_string i)"
| "hash_text (JUnsigned n) = Some (nat_to_string n)"
| "hash_text _ = None"

definition json_to_hash :: "'c option \<Rightarrow> json \<Rightarrow> string \<Rightarrow> nat \<Rightarrow> redis_cmd list option" where
  "json_to_hash client jv key_name expire_sec =
    (if client = None then None else map_option (\<lambda>m. concat (map (\<lambda>(k, v). case hash_text v of Some t \<Rightarrow> [Hset key_name k t] | None \<Rightarrow> []) m) @
        (if expire_sec \<noteq> 0 then [Expire key_name expire_sec] else []))
      (case jv of JObject m \<Rightarrow> Some m | JNull \<Rightarrow> Some [] | JArray [] \<Rightarrow> Some [] | _ \<Rightarrow> None))"

text \<open>
  The loop of \<^verbatim>\<open>pair_array_to_json\<close> over keys and values. The value is read from the place of the
  key. An array of odd length is read past its end when the last key is a string.
\<close>

fun pair_loop :: "redis_reply list \<Rightarrow> json \<Rightarrow> json \<Rightarrow> json option" where
  "pair_loop [] jv_temp jv_out = Some jv_out"
| "pair_loop [k] jv_temp jv_out = (if reply_string k = None then Some jv_out else None)"
| "pair_loop (k # v # ar) jv_temp jv_out =
    (case reply_string k of
       None \<Rightarrow> pair_loop ar jv_temp jv_out
     | Some str_key \<Rightarrow>
         if reply_string v = None then pair_loop ar jv_temp jv_out
         else do {
           let str_value = str_key;
           jv_value \<leftarrow> json_ref jv_temp str_key;
           jv_out \<leftarrow> (case jv_value of
               JString _ \<Rightarrow> json_put jv_out str_key (JString str_value)
             | JInt _ \<Rightarrow> json_put jv_out str_key (JInt (atoi str_value))
             | JUnsigned _ \<Rightarrow> json_put jv_out str_key (JUnsigned (nat (atoi str_value mod 2 ^ 64)))
             | _ \<Rightarrow> Some jv_out);
           pair_loop ar jv_temp jv_out })"

definition pair_array_to_json :: "redis_reply \<Rightarrow> json \<Rightarrow> json option" where
  "pair_array_to_json reply jv_temp =
    (if is_valid jv_temp \<or> \<not> is_object jv_temp then Some JNull
     else do { ar \<leftarrow> as_array reply; pair_loop ar jv_temp JNull })"

fun pair_array_loop :: "redis_reply list \<Rightarrow> (string \<rightharpoonup> string) \<Rightarrow> (string \<rightharpoonup> string) option" where
  "pair_array_loop [] m = Some m"
| "pair_array_loop [k] m = (if reply_string k = None then Some m else None)"
| "pair_array_loop (k # v # ar) m =
    (case (reply_string k, reply_string v) of
       (Some str_key, Some str_value) \<Rightarrow> pair_array_loop ar (m(str_key \<mapsto> str_value))
     | _ \<Rightarrow> pair_array_loop ar m)"

definition get_pair_array :: "redis_reply \<Rightarrow> (string \<rightharpoonup> string) option" where
  "get_pair_array reply = do { ar \<leftarrow> as_array reply; pair_array_loop ar Map.empty }"

section \<open>What a hash reads back as\<close>

text \<open>A reply to \<^verbatim>\<open>HGETALL\<close> lists the fields of the hash, each followed by its value, in any order.\<close>

definition hash_reply :: "(string \<times> string) list \<Rightarrow> redis_reply" where
  "hash_reply fs = Reply_array (concat (map (\<lambda>(f, t). [Reply_string f, Reply_string t]) fs))"

lemma pair_array_loop_hash:
  "pair_array_loop (concat (map (\<lambda>(f, t). [Reply_string f, Reply_string t]) fs)) m = Some (m ++ map_of (rev fs))"
  by (induction fs arbitrary: m) (auto simp: map_add_assoc [symmetric] map_add_upd_left fun_upd_def map_add_def fun_eq_iff
      split: option.split)

lemma map_of_rev: "distinct (map fst xs) \<Longrightarrow> map_of (rev xs) = map_of xs"
proof (induction xs)
  case (Cons x xs)
  then have "map_of xs (fst x) = None" by (simp add: map_of_eq_None_iff)
  with Cons show ?case by (cases x) (auto simp: map_add_def fun_eq_iff split: option.split)
qed simp

definition hash_cmds :: "string \<Rightarrow> (string \<times> json) list \<Rightarrow> redis_cmd list" where
  "hash_cmds key m = concat (map (\<lambda>(k, v). case hash_text v of Some t \<Rightarrow> [Hset key k t] | None \<Rightarrow> []) m)"

lemma set_hash_cmds:
  "Hset k f t \<in> set (hash_cmds key m) \<longleftrightarrow> k = key \<and> (\<exists>v. (f, v) \<in> set m \<and> hash_text v = Some t)"
  "Expire k n \<notin> set (hash_cmds key m)"
  by (induction m) (auto simp: hash_cmds_def split: option.splits)

lemma json_to_hash_object:
  "json_to_hash client (JObject m) key n =
    (if client = None then None else Some (hash_cmds key m @ (if n \<noteq> 0 then [Expire key n] else [])))"
  by (simp add: json_to_hash_def hash_cmds_def)

lemma json_to_hash_fields:
  assumes "json_to_hash client (JObject m) key n = Some cmds"
  shows "Hset k f t \<in> set cmds \<longleftrightarrow> k = key \<and> (\<exists>v. (f, v) \<in> set m \<and> hash_text v = Some t)"
    and "Expire key n \<in> set cmds \<longleftrightarrow> n \<noteq> 0"
  using assms by (auto simp: json_to_hash_object set_hash_cmds split: if_splits)

text \<open>
  C31. Of a JSON object \<open>json_to_hash\<close> writes exactly the string and integer members, integers in
  decimal, and sets the expiry if there is one; from a reply that lists what was written
  \<open>get_pair_array\<close> reads exactly these members back. But \<open>pair_array_to_json\<close>, which should rebuild
  the object, answers null for every reply (an error, null or odd one too) and every template, since
  its guard rejects every object.
\<close>

theorem redis_hash_reads_back:
  assumes "distinct (map fst m)" "distinct (map fst fs)"
    and "json_to_hash client (JObject m) key n = Some cmds" "set fs = {(f, t). Hset key f t \<in> set cmds}"
  shows "get_pair_array (hash_reply fs) = Some (\<lambda>f. Option.bind (map_of m f) hash_text) \<and>
    (Expire key n \<in> set cmds \<longleftrightarrow> n \<noteq> 0) \<and>
    (\<forall>reply temp. pair_array_to_json reply temp = Some JNull)"
proof -
  have "map_of fs f = Option.bind (map_of m f) hash_text" for f
  proof (cases "Option.bind (map_of m f) hash_text")
    case None
    then have "f \<notin> fst ` set fs"
      using assms(1,3,4) by (auto simp: json_to_hash_fields bind_eq_None_conv dest: map_of_is_SomeI)
    with None show ?thesis by (simp add: map_of_eq_None_iff)
  next
    case (Some t)
    then obtain v where "(f, v) \<in> set m" "hash_text v = Some t"
      by (auto simp: bind_eq_Some_conv dest: map_of_SomeD)
    then have "(f, t) \<in> set fs" using assms(3,4) by (auto simp: json_to_hash_fields)
    with Some assms(2) show ?thesis by simp
  qed
  moreover have "get_pair_array (hash_reply fs) = Some (map_of fs)"
    using map_of_rev [OF assms(2)] by (simp add: get_pair_array_def hash_reply_def pair_array_loop_hash)
  moreover have "Expire key n \<in> set cmds \<longleftrightarrow> n \<noteq> 0" using json_to_hash_fields(2) [OF assms(3)] .
  moreover have "pair_array_to_json r t = Some JNull" for r t by (cases t) (simp_all add: pair_array_to_json_def)
  ultimately show ?thesis by (simp add: fun_eq_iff)
qed

lemma redis_hash_reads_back_witness:
  "\<exists>cmds. json_to_hash (Some (''localhost'', 7000 :: int)) (JObject [(''account'', JString ''a''), (''user_id'', JInt 7), (''x'', JNull)]) ''k'' 60 = Some cmds \<and>
     get_pair_array (hash_reply [(''user_id'', ''7''), (''account'', ''a'')]) =
       Some (\<lambda>f. Option.bind (map_of [(''account'', JString ''a''), (''user_id'', JInt 7), (''x'', JNull)] f) hash_text)"
proof -
  let ?m = "[(''account'', JString ''a''), (''user_id'', JInt 7), (''x'', JNull)]"
  have seven: "int_to_string 7 = ''7''" by code_simp
  then obtain cmds where c: "json_to_hash (Some (''localhost'', 7000 :: int)) (JObject ?m) ''k'' 60 = Some cmds"
      "set [(''user_id'', ''7''), (''account'', ''a'')] = {(f, t). Hset ''k'' f t \<in> set cmds}"
    by (auto simp: json_to_hash_def)
  have "distinct (map fst ?m)" "distinct (map fst [(''user_id'', ''7''), (''account'', ''a'')])" by simp_all
  from redis_hash_reads_back [OF this c] c(1) show ?thesis by blast
qed

text \<open>A configured client is there in the threads that were set up, and no other is.\<close>

lemma parse_all_dom:
  "parse_all parse_one es m = Some m' \<Longrightarrow> dom m' = dom m \<union> {k. \<exists>e\<in>set es. index_string e ''config_name'' = Some k}"
proof (induction es arbitrary: m)
  case (Cons e es)
  then obtain k c where "index_string e ''config_name'' = Some k" "parse_all parse_one es (m(k \<mapsto> c)) = Some m'"
    by (auto simp: bind_eq_Some_conv)
  moreover from Cons.IH [OF this(2)] have "dom m' = insert k (dom m) \<union> {k. \<exists>e\<in>set es. index_string e ''config_name'' = Some k}"
    by (simp only: dom_fun_upd option.distinct if_False)
  ultimately show ?case by auto
qed simp

lemma get_client_configured:
  assumes "insert_one parse_one t (parse_config jv new_resource) = Some r"
  shows "get_client t' k r \<noteq> None \<longleftrightarrow> t' = t \<and> (\<exists>e\<in>set (json_elements jv). index_string e ''config_name'' = Some k)"
proof -
  from assms obtain m where m: "parse_all parse_one (json_elements jv) Map.empty = Some m"
      "m_thread_resource r = [t \<mapsto> m]"
    by (auto simp: insert_one_def parse_config_def new_resource_def)
  have "m k \<noteq> None \<longleftrightarrow> k \<in> dom m" by blast
  with parse_all_dom [OF m(1)] m(2) show ?thesis by (simp add: get_client_def)
qed

text \<open>Were the guard right, every field would still read back as its own name.\<close>

theorem pair_loop_reads_keys:
  "pair_loop [Reply_string k, Reply_string v] (JObject [(k, JString t)]) JNull = Some (JObject [(k, JString k)])"
  by simp

end
