(* ===== verification/Login_Server.thy ===== *)
theory Login_Server
  imports Lobby_Server Redis_Hash
begin

text \<open>
  \<^verbatim>\<open>server/LoginServer\<close>: logging in and registering an account (\<^verbatim>\<open>LoginModule.cpp\<close>, \<^verbatim>\<open>LoginTask.cpp\<close>,
  \<^verbatim>\<open>CommonDefine/UserCommon.h\<close>). The databases are parameters: the reply of Redis to \<^verbatim>\<open>HGETALL\<close>, the
  document Mongo finds for an account, the counter after its increment (which may be missing or no
  number) and the success of the update; so are the clock,
  the two random numbers and the printing of JSON. \<open>None\<close> is an exception, the use of an empty
  optional, or a function that ends without returning its value.
\<close>

section \<open>Data\<close>

record account_info =
  acc_account :: string
  acc_user_id :: int

definition account_from_json :: "json \<Rightarrow> account_info option" where
  "account_from_json jv = do {
     a \<leftarrow> json_ref jv ''account'';
     account \<leftarrow> get_string a;
     u \<leftarrow> json_ref jv ''user_id'';
     user_id \<leftarrow> get_int u;
     Some \<lparr>acc_account = account, acc_user_id = user_id\<rparr> }"

definition account_to_json :: "account_info \<Rightarrow> json" where
  "account_to_json a = JObject [(''account'', JString (acc_account a)), (''user_id'', JInt (acc_user_id a))]"

text \<open>\<^verbatim>\<open>m_jv_temp\<close> holds the type codes of the fields, which JSON takes as numbers.\<close>

definition account_template :: json where
  "account_template = JObject [(''account'', JUnsigned 3), (''user_id'', JUnsigned 5)]"

record user_info =
  ui_account :: string
  ui_device_code :: string
  ui_device_name :: string
  ui_app_type :: int
  ui_user_id :: int
  ui_user_sex :: int
  ui_user_name :: string
  ui_header_url :: string
  ui_is_robot :: int

definition user_to_json :: "user_info \<Rightarrow> json" where
  "user_to_json u = JObject
     [(''account'', JString (ui_account u)), (''app_type'', JInt (ui_app_type u)),
      (''device_code'', JString (ui_device_code u)), (''device_name'', JString (ui_device_name u)),
      (''header_url'', JString (ui_header_url u)), (''is_robot'', JInt (ui_is_robot u)),
      (''last_login_time'', JInt 0), (''last_offline_time'', JInt 0), (''need_exp'', JInt 0),
      (''user_cur_exp'', JInt 0), (''user_id'', JInt (ui_user_id u)), (''user_level'', JInt 0),
      (''user_name'', JString (ui_user_name u)), (''user_sex'', JInt (ui_user_sex u))]"

record login_request =
  lr_account :: string
  lr_device_code :: string
  lr_user_name :: string
  lr_screen_h :: int
  lr_screen_w :: int
  lr_resolution_ratio :: string
  lr_version :: string
  lr_app_type :: int
  lr_network_mode :: int
  lr_os_version :: string
  lr_channel :: string
  lr_device_name :: string
  lr_user_type :: int
  lr_header_url :: string

record login_response =
  rs_token :: "u8 list"
  rs_user_id :: int
  rs_cur_version :: string
  rs_update_type :: int
  rs_update_desc :: string
  rs_lobby_ip :: string
  rs_lobby_port :: u16

record version_info =
  cur_version :: string
  force_version :: string
  update_desc :: string

record 'p login_env =
  le_base :: "'p server_env"
  login_body :: "'p \<Rightarrow> login_request option"
  response_body :: "login_response \<Rightarrow> 'p"
  notify_login_body :: "account_info \<Rightarrow> login_request \<Rightarrow> 'p"
  json_dump :: "json \<Rightarrow> u8 list option"
  redis_pool :: "(string \<times> int) resource"
  login_thread :: nat
  redis_hgetall :: "string \<Rightarrow> redis_reply"
  mongo_find_account :: "string \<Rightarrow> json option"
  mongo_next_counter :: "int option option"
  mongo_update_ok :: bool
  clock_ns :: int
  url_rand :: nat
  lobby_rand :: nat
  local_ip :: u32
  process_id :: u32

record 'p login =
  ln_session_time :: "session_ptr \<rightharpoonup> int"
  ln_seq :: u16
  ln_version :: version_info
  ln_lobby_list :: "(string \<times> u16) list"
  ln_redis :: "redis_cmd list"
  ln_mongo :: "(int \<times> json) list"
  ln_mq_session :: bool
  ln_mq :: "'p mq_request list"

definition CODE_ACOCUNT_EMPTY :: u32 where "CODE_ACOCUNT_EMPTY = 7"
definition MAX_LOGIN_SEC_login :: int where "MAX_LOGIN_SEC_login = 30"
definition ACCOUNT_EXPIRE_SEC :: nat where "ACCOUNT_EXPIRE_SEC = 7 * 3600 * 24"

definition user_info_redis_key :: "int \<Rightarrow> string" where
  "user_info_redis_key user_id = int_to_string user_id @ ''|user_info''"

definition account_redis_key :: "string \<Rightarrow> string" where
  "account_redis_key account = account @ ''|account''"

section \<open>Sessions\<close>

definition user_session_open :: "session_ptr \<Rightarrow> int \<Rightarrow> 'p login \<Rightarrow> 'p login" where
  "user_session_open s now st = st\<lparr>ln_session_time := (ln_session_time st)(s \<mapsto> now)\<rparr>"

definition user_session_close :: "session_ptr \<Rightarrow> 'p login \<Rightarrow> 'p login" where
  "user_session_close s st = st\<lparr>ln_session_time := (ln_session_time st)(s := None)\<rparr>"

definition on_timeout_login :: "int \<Rightarrow> 'p login \<Rightarrow> 'p login" where
  "on_timeout_login tnow st =
    st\<lparr>ln_session_time := (\<lambda>s. case ln_session_time st s of
        Some t \<Rightarrow> if tnow < t + MAX_LOGIN_SEC_login * 1000000000 then Some t else None
      | None \<Rightarrow> None)\<rparr>"

section \<open>Accounts\<close>

definition is_need_generate_new_account :: "string \<Rightarrow> int \<Rightarrow> bool" where
  "is_need_generate_new_account account app_type \<longleftrightarrow> account = [] \<and> (app_type = 0 \<or> app_type = 1)"

text \<open>\<^verbatim>\<open>std::hex\<close> prints an \<^verbatim>\<open>int\<close> as the unsigned number of its bits, without leading zeros.\<close>

definition hex_char :: "nat \<Rightarrow> char" where
  "hex_char d = (if d < 10 then char_of (48 + d) else char_of (87 + d))"

fun nat_to_hex :: "nat \<Rightarrow> string" where
  "nat_to_hex n = (if n < 16 then [hex_char n] else nat_to_hex (n div 16) @ [hex_char (n mod 16)])"

declare nat_to_hex.simps [simp del]

definition get_object_id :: "u64 \<Rightarrow> u32 \<Rightarrow> u32 \<Rightarrow> u32 \<Rightarrow> string" where
  "get_object_id sec int_ip pid seq =
     nat_to_hex (unat sec) @ nat_to_hex (unat int_ip) @ nat_to_hex (unat pid) @ nat_to_hex (unat seq)"

definition generate_account :: "'p login_env \<Rightarrow> 'p login \<Rightarrow> string \<times> 'p login" where
  "generate_account E st =
    (get_object_id (word_of_int (clock_ns E div 1000000000)) (local_ip E) (process_id E) (ucast (ln_seq st)),
     st\<lparr>ln_seq := ln_seq st + 1\<rparr>)"

text \<open>The calls leave out the last argument of \<^verbatim>\<open>json_to_hash\<close>, whose default is the empty name.\<close>

definition redis_write :: "'p login_env \<Rightarrow> json \<Rightarrow> string \<Rightarrow> nat \<Rightarrow> 'p login \<Rightarrow> 'p login option" where
  "redis_write E jv key expire_sec st =
     map_option (\<lambda>cmds. st\<lparr>ln_redis := ln_redis st @ cmds\<rparr>)
       (json_to_hash (get_client (login_thread E) [] (redis_pool E)) jv key expire_sec)"

text \<open>The result of a query is the found account, if any.\<close>

definition query_from_redis :: "'p login_env \<Rightarrow> account_info \<Rightarrow> account_info option option" where
  "query_from_redis E info =
    (let r = redis_hgetall E (account_redis_key (acc_account info))
     in if get_client (login_thread E) ''default'' (redis_pool E) = None then None
        else if r = Reply_null \<or> r = Reply_error then Some None
        else do {
          jv \<leftarrow> pair_array_to_json r account_template;
          info \<leftarrow> account_from_json jv;
          Some (Some info) })"

text \<open>When Mongo finds nothing the log statement reads the empty optional.\<close>

definition query_from_mongo :: "'p login_env \<Rightarrow> account_info \<Rightarrow> account_info option option" where
  "query_from_mongo E info =
    (case mongo_find_account E (acc_account info) of
       None \<Rightarrow> None
     | Some jv \<Rightarrow> map_option Some (account_from_json jv))"

definition query_user_account ::
  "'p login_env \<Rightarrow> account_info \<Rightarrow> 'p login \<Rightarrow> (account_info option \<times> 'p login) option" where
  "query_user_account E info st = do {
     found \<leftarrow> query_from_redis E info;
     found \<leftarrow> (case found of Some i \<Rightarrow> Some (Some i) | None \<Rightarrow> query_from_mongo E info);
     case found of
       None \<Rightarrow> Some (None, st)
     | Some info \<Rightarrow>
         map_option (Pair (Some info))
           (redis_write E (account_to_json info) (account_redis_key (acc_account info)) ACCOUNT_EXPIRE_SEC st) }"

section \<open>Registration\<close>

definition male_header_urls :: "string list" where
  "male_header_urls = [''default_header/default1.png'', ''default_header/default2.png'', ''default_header/default3.png'']"

definition generate_new_user :: "'p login_env \<Rightarrow> login_request \<Rightarrow> account_info \<Rightarrow> user_info" where
  "generate_new_user E req info =
    \<lparr>ui_account = acc_account info, ui_device_code = lr_device_code req, ui_device_name = lr_device_name req,
     ui_app_type = lr_app_type req, ui_user_id = acc_user_id info, ui_user_sex = 0, ui_user_name = lr_user_name req,
     ui_header_url = (if lr_header_url req = [] then male_header_urls ! (url_rand E mod length male_header_urls)
                      else lr_header_url req),
     ui_is_robot = 0\<rparr>"

definition insert_new_user_db :: "'p login_env \<Rightarrow> user_info \<Rightarrow> 'p login \<Rightarrow> bool \<times> 'p login" where
  "insert_new_user_db E user st =
    (mongo_update_ok E, st\<lparr>ln_mongo := ln_mongo st @ [(ui_user_id user, user_to_json user)]\<rparr>)"

definition insert_new_user_redis :: "'p login_env \<Rightarrow> user_info \<Rightarrow> 'p login \<Rightarrow> 'p login option" where
  "insert_new_user_redis E user st =
     redis_write E (user_to_json user) (user_info_redis_key (ui_user_id user)) ACCOUNT_EXPIRE_SEC st"

text \<open>After the insertion into Redis the function ends without a return statement.\<close>

definition insert_new_user :: "'p login_env \<Rightarrow> user_info \<Rightarrow> 'p login \<Rightarrow> (bool \<times> 'p login) option" where
  "insert_new_user E user st =
    (let (ok, st) = insert_new_user_db E user st
     in if \<not> ok then Some (False, st)
        else Option.bind (insert_new_user_redis E user st) (\<lambda>st. None))"

section \<open>\<^verbatim>\<open>user_login\<close>\<close>

text \<open>Strings compare by their bytes.\<close>

fun str_le :: "string \<Rightarrow> string \<Rightarrow> bool" where
  "str_le [] t = True"
| "str_le (c # s) [] = False"
| "str_le (c # s) (d # t) =
    (if (of_char c :: nat) = of_char d then str_le s t else (of_char c :: nat) < of_char d)"

definition update_type :: "version_info \<Rightarrow> string \<Rightarrow> int" where
  "update_type v version =
    (if cur_version v = version then 0 else if str_le version (force_version v) then 2 else 1)"

definition token_json :: "account_info \<Rightarrow> login_request \<Rightarrow> int \<Rightarrow> json" where
  "token_json info req now = JObject
     [(''app_type'', JInt (lr_app_type req)), (''channel'', JString (lr_channel req)),
      (''os_version'', JString (lr_os_version req)), (''time'', JInt now), (''user_id'', JInt (acc_user_id info)),
      (''user_type'', JInt (lr_user_type req)), (''version'', JString (lr_version req))]"

definition register_account ::
  "'p login_env \<Rightarrow> bool \<Rightarrow> login_request \<Rightarrow> account_info \<Rightarrow> 'p login \<Rightarrow> (u32 + account_info) option \<times> 'p login" where
  "register_account E is_robot req info st =
    (case mongo_next_counter E of
       None \<Rightarrow> (Some (Inl CODE_SYSTEM_ERROR), st)
     | Some None \<Rightarrow> (None, st)
     | Some (Some new_id) \<Rightarrow>
         let info = info\<lparr>acc_user_id := new_id\<rparr>
         in case redis_write E (account_to_json info) (account_redis_key (acc_account info)) ACCOUNT_EXPIRE_SEC st of
             None \<Rightarrow> (None, st)
           | Some st \<Rightarrow>
               let user = (generate_new_user E req info)\<lparr>ui_is_robot := (if is_robot then 1 else 0)\<rparr>
               in case insert_new_user E user st of
                   None \<Rightarrow> (None, st)
                 | Some (True, st) \<Rightarrow> (Some (Inr info), st)
                 | Some (False, st) \<Rightarrow> (Some (Inl CODE_ACOCUNT_EMPTY), st))"

definition notify_user_login :: "'p login_env \<Rightarrow> account_info \<Rightarrow> login_request \<Rightarrow> 'p login \<Rightarrow> 'p login" where
  "notify_user_login E info req st =
    (if ln_mq_session st
     then st\<lparr>ln_mq := ln_mq st @ [\<lparr>mq_cmd = 1002, mq_exchange = ''login.topic'', mq_route = ''user_login'',
            mq_body = Some (notify_login_body E info req), mq_origin = None\<rparr>]\<rparr>
     else st)"

definition login_answer ::
  "'p login_env \<Rightarrow> 'p message \<Rightarrow> login_request \<Rightarrow> account_info \<Rightarrow> 'p login \<Rightarrow> ('p login \<times> 'p action list) option" where
  "login_answer E msg req info st = do {
     _ \<leftarrow> (if ln_lobby_list st = [] then None else Some ());
     let (ip, port) = ln_lobby_list st ! (lobby_rand E mod length (ln_lobby_list st));
     text \<leftarrow> json_dump E (token_json info req (clock_ns E));
     token \<leftarrow> AES_ecb128_encrypt (junk (le_base E)) (fresh_mem (le_base E)) text;
     let response = \<lparr>rs_token = token, rs_user_id = acc_user_id info, rs_cur_version = cur_version (ln_version st),
       rs_update_type = update_type (ln_version st) (lr_version req), rs_update_desc = update_desc (ln_version st),
       rs_lobby_ip = ip, rs_lobby_port = port\<rparr>;
     r \<leftarrow> send_response_result msg CODE_SUCCESS (Some (response_body E response));
     Some (notify_user_login E info req st, [Respond r]) }"

definition user_login :: "'p login_env \<Rightarrow> bool \<Rightarrow> ('p, 'p login) handler" where
  "user_login E is_robot msg st = do {
     req \<leftarrow> pbmessage (login_body E) msg;
     let generate = is_need_generate_new_account (lr_account req) (lr_app_type req);
     let (account, st) = (if generate then generate_account E st else (lr_account req, st));
     if account = [] then map_option (Pair st) (failed_reason (le_base E) msg CODE_ACOCUNT_EMPTY)
     else do {
       (found, st) \<leftarrow> query_user_account E \<lparr>acc_account = account, acc_user_id = 0\<rparr> st;
       let info = (case found of Some i \<Rightarrow> i | None \<Rightarrow> \<lparr>acc_account = account, acc_user_id = 0\<rparr>);
       let (res, st) = (if generate \<or> found = None then register_account E is_robot req info st
                        else (Some (Inr info), st));
       res \<leftarrow> res;
       case res of
         Inl code \<Rightarrow> map_option (Pair st) (failed_reason (le_base E) msg code)
       | Inr info \<Rightarrow> login_answer E msg req info st } }"

section \<open>\<^verbatim>\<open>LoginTask.cpp\<close>\<close>

definition CMD_LOGIN :: u32 where "CMD_LOGIN = 1000"
definition CMD_ROBOT_LOGIN :: u32 where "CMD_ROBOT_LOGIN = 1001"

text \<open>The handler for robots calls \<^verbatim>\<open>user_login\<close> without the flag.\<close>

definition on_login :: "'p login_env \<Rightarrow> ('p, 'p login) handler" where
  "on_login E = user_login E False"

definition on_robot_login :: "'p login_env \<Rightarrow> ('p, 'p login) handler" where
  "on_robot_login E = user_login E False"

definition LoginTask :: "'p login_env \<Rightarrow> ('p, 'p login) task" where
  "LoginTask E = register_msg_handler CMD_ROBOT_LOGIN (on_robot_login E) (register_msg_handler CMD_LOGIN (on_login E)
     (MessageTask\<lparr>on_session_close := (\<lambda>msg st. Some (user_session_close (m_session msg) st, [])),
        on_session_open := (\<lambda>msg st. Some (user_session_open (m_session msg) (clock_ns E) st, []))\<rparr>))"

section \<open>What a login comes to\<close>

lemma send_response_result_Some:
  "m_session msg = Some s \<Longrightarrow> \<exists>r. send_response_result msg code body = Some r \<and>
     response_result (m_header r) = code \<and> m_message r = body"
  by (simp add: send_response_result_def send_response_def stamp_response_def Let_def)

lemma nat_to_hex_not_Nil [simp]: "nat_to_hex n \<noteq> []"
  by (subst nat_to_hex.simps) simp

lemma generated_account: "fst (generate_account E st) \<noteq> []" "ln_redis (snd (generate_account E st)) = ln_redis st"
  by (simp_all add: generate_account_def get_object_id_def)

text \<open>The account as the databases have it, if the queries return at all.\<close>

definition redis_silent :: "'p login_env \<Rightarrow> string \<Rightarrow> bool" where
  "redis_silent E account \<longleftrightarrow> redis_hgetall E (account_redis_key account) \<in> {Reply_null, Reply_error}"

definition redis_usable :: "'p login_env \<Rightarrow> bool" where
  "redis_usable E \<longleftrightarrow> get_client (login_thread E) ''default'' (redis_pool E) \<noteq> None \<and>
     get_client (login_thread E) [] (redis_pool E) \<noteq> None"

definition known_account :: "'p login_env \<Rightarrow> string \<Rightarrow> account_info option" where
  "known_account E account =
    (if redis_usable E \<and> redis_silent E account then Option.bind (mongo_find_account E account) account_from_json else None)"

definition account_cmds :: "account_info \<Rightarrow> redis_cmd list" where
  "account_cmds info = (let key = account_redis_key (acc_account info)
     in [Hset key ''account'' (acc_account info), Hset key ''user_id'' (int_to_string (acc_user_id info)), Expire key 604800])"

lemma redis_write_account:
  "redis_write E (account_to_json info) (account_redis_key (acc_account info)) ACCOUNT_EXPIRE_SEC st =
     (if get_client (login_thread E) [] (redis_pool E) = None then None
      else Some (st\<lparr>ln_redis := ln_redis st @ account_cmds info\<rparr>))"
  by (simp add: redis_write_def account_to_json_def json_to_hash_def account_cmds_def ACCOUNT_EXPIRE_SEC_def Let_def)

lemma pair_array_to_json_null:
  "pair_array_to_json r account_template = Some JNull" "account_from_json JNull = None"
  by (simp_all add: pair_array_to_json_def account_template_def account_from_json_def)

lemma query_user_account_known:
  "query_user_account E \<lparr>acc_account = a, acc_user_id = 0\<rparr> st =
    map_option (\<lambda>info. (Some info, st\<lparr>ln_redis := ln_redis st @ account_cmds info\<rparr>)) (known_account E a)"
  by (cases "redis_hgetall E (account_redis_key a)"; cases "mongo_find_account E a")
    (auto simp: query_user_account_def known_account_def redis_usable_def redis_silent_def query_from_redis_def query_from_mongo_def
      pair_array_to_json_null redis_write_account Let_def map_option_case split: option.split)

lemma register_account_fails:
  "fst (register_account E robot req info st) \<in> {None, Some (Inl CODE_SYSTEM_ERROR), Some (Inl CODE_ACOCUNT_EMPTY)}"
  by (auto simp: register_account_def insert_new_user_def insert_new_user_db_def redis_write_account Let_def
      split: option.split)

definition login_request_of :: "'p login_env \<Rightarrow> 'p message \<Rightarrow> login_request \<Rightarrow> bool" where
  "login_request_of E msg req \<longleftrightarrow> pbmessage (login_body E) msg = Some req \<and> m_session msg \<noteq> None"

lemma user_login_empty:
  assumes "login_request_of E msg req" "lr_account req = []" "\<not> is_need_generate_new_account [] (lr_app_type req)"
  shows "\<exists>r. user_login E robot msg st = Some (st, [Respond r]) \<and> response_result (m_header r) = CODE_ACOCUNT_EMPTY"
proof -
  from assms(1) obtain s where s: "m_session msg = Some s" "pbmessage (login_body E) msg = Some req"
    by (auto simp: login_request_of_def)
  show ?thesis using failed_reason_Some [OF s(1), of "le_base E" CODE_ACOCUNT_EMPTY] assms s(2)
    by (auto simp: user_login_def Let_def)
qed

lemma user_login_named:
  assumes "login_request_of E msg req" "lr_account req \<noteq> []"
  shows "user_login E robot msg st = (case known_account E (lr_account req) of
      None \<Rightarrow> None
    | Some info \<Rightarrow> login_answer E msg req info (st\<lparr>ln_redis := ln_redis st @ account_cmds info\<rparr>))"
  using assms
  by (simp add: login_request_of_def user_login_def is_need_generate_new_account_def query_user_account_known Let_def
      split: option.split)

lemma user_login_generated:
  assumes "login_request_of E msg req" "is_need_generate_new_account (lr_account req) (lr_app_type req)"
    and "user_login E robot msg st = Some (st', acts)"
  shows "\<exists>r. acts = [Respond r] \<and> response_result (m_header r) \<in> {CODE_SYSTEM_ERROR, CODE_ACOCUNT_EMPTY}"
proof -
  from assms(1) obtain s where s: "m_session msg = Some s" "pbmessage (login_body E) msg = Some req"
    by (auto simp: login_request_of_def)
  obtain a st1 where g: "generate_account E st = (a, st1)" "a \<noteq> []"
    using generated_account(1) [of E st] by (cases "generate_account E st") auto
  from assms s g obtain info where k: "known_account E a = Some info"
    by (cases "known_account E a") (auto simp: user_login_def query_user_account_known Let_def)
  define st2 where "st2 = st1\<lparr>ln_redis := ln_redis st1 @ account_cmds info\<rparr>"
  have "user_login E robot msg st = (let (res, st) = register_account E robot req info st2 in
      Option.bind res (\<lambda>res. case res of Inl code \<Rightarrow> map_option (Pair st) (failed_reason (le_base E) msg code)
        | Inr info \<Rightarrow> login_answer E msg req info st))"
    using assms(2) s g k by (simp add: user_login_def query_user_account_known st2_def Let_def)
  with assms(3) register_account_fails [of E robot req info st2]
  obtain code where "failed_reason (le_base E) msg code = Some acts" "code \<in> {CODE_SYSTEM_ERROR, CODE_ACOCUNT_EMPTY}"
    by (auto simp: split_beta)
  with failed_reason_Some [OF s(1), of "le_base E" code] show ?thesis by auto
qed

text \<open>The answer to a login, and the token in it.\<close>

definition login_response_for :: "'p login_env \<Rightarrow> login_request \<Rightarrow> account_info \<Rightarrow> 'p login \<Rightarrow> u8 list \<Rightarrow> login_response" where
  "login_response_for E req info st token =
    (let host = ln_lobby_list st ! (lobby_rand E mod length (ln_lobby_list st))
     in \<lparr>rs_token = token, rs_user_id = acc_user_id info, rs_cur_version = cur_version (ln_version st),
       rs_update_type = update_type (ln_version st) (lr_version req), rs_update_desc = update_desc (ln_version st),
       rs_lobby_ip = fst host, rs_lobby_port = snd host\<rparr>)"

definition memory_ok :: "'p server_env \<Rightarrow> bool" where
  "memory_ok E \<longleftrightarrow> (\<forall>n. length (fresh_mem E n) = n)"

text \<open>A login server that can answer: it has a lobby to name, and the tokens it makes can be printed.\<close>

definition login_ready :: "'p login_env \<Rightarrow> 'p login \<Rightarrow> bool" where
  "login_ready E st \<longleftrightarrow> ln_lobby_list st \<noteq> [] \<and> memory_ok (le_base E) \<and> (\<forall>info req. json_dump E (token_json info req (clock_ns E)) \<noteq> None)"

lemma login_answer_ready:
  assumes "login_ready E st" "m_session msg \<noteq> None"
  shows "\<exists>text token r. json_dump E (token_json info req (clock_ns E)) = Some text \<and>
    AES_ecb128_encrypt (junk (le_base E)) (fresh_mem (le_base E)) text = Some token \<and>
    login_answer E msg req info st = Some (notify_user_login E info req st, [Respond r]) \<and>
    response_result (m_header r) = CODE_SUCCESS \<and>
    m_message r = Some (response_body E (login_response_for E req info st token))"
proof -
  from assms(1) obtain plain where plain: "json_dump E (token_json info req (clock_ns E)) = Some plain"
    by (auto simp: login_ready_def)
  have "length (fresh_mem (le_base E) n) = n" for n using assms(1) by (simp add: login_ready_def memory_ok_def)
  then obtain token where token: "AES_ecb128_encrypt (junk (le_base E)) (fresh_mem (le_base E)) plain = Some token"
    using decrypt_encrypt_with [of "fresh_mem (le_base E)"] by (fastforce simp: AES_ecb128_encrypt_def)
  from assms(2) obtain s where "m_session msg = Some s" by blast
  from send_response_result_Some [OF this] obtain r where
    "send_response_result msg CODE_SUCCESS (Some (response_body E (login_response_for E req info st token))) = Some r"
    "response_result (m_header r) = CODE_SUCCESS"
    "m_message r = Some (response_body E (login_response_for E req info st token))" by blast
  moreover from this(1) have "login_answer E msg req info st = Some (notify_user_login E info req st, [Respond r])"
    using assms(1) plain token
    by (simp add: login_answer_def login_response_for_def login_ready_def split_beta Let_def)
  ultimately show ?thesis using plain token by blast
qed


text \<open>Members with the same keys in the same order, the same of them numbers.\<close>

definition same_shape :: "(string \<times> json) list \<Rightarrow> (string \<times> json) list \<Rightarrow> bool" where
  "same_shape m m' \<longleftrightarrow> list_all2 (\<lambda>(k, v) (k', v'). k' = k \<and> is_number v' = is_number v) m m'"

text \<open>
  A login server for examples: Redis has no answer, Mongo knows every account as user 7. All tokens
  print as the same text, which reads as one of them.
\<close>

definition demo_token_members :: "(string \<times> json) list" where
  "demo_token_members = [(''app_type'', JUnsigned 0), (''channel'', JString []), (''os_version'', JString []),
     (''time'', JUnsigned 5), (''user_id'', JUnsigned 7), (''user_type'', JUnsigned 0), (''version'', JString ''1'')]"

definition demo_dump :: "json \<Rightarrow> u8 list option" where
  "demo_dump j = (case j of JObject m \<Rightarrow> if same_shape m demo_token_members then Some [120] else None | _ \<Rightarrow> None)"

definition demo_login_request :: "string \<Rightarrow> int \<Rightarrow> login_request" where
  "demo_login_request account app_type = \<lparr>lr_account = account, lr_device_code = [], lr_user_name = [],
     lr_screen_h = 0, lr_screen_w = 0, lr_resolution_ratio = [], lr_version = ''1'', lr_app_type = app_type, lr_network_mode = 0,
     lr_os_version = [], lr_channel = [], lr_device_name = [], lr_user_type = 0, lr_header_url = []\<rparr>"

definition demo_login :: "u8 list login_env" where
  "demo_login = \<lparr>le_base = demo_server (JObject demo_token_members), login_body = (\<lambda>b. Some (demo_login_request ''a'' 0)),
     response_body = rs_token, notify_login_body = (\<lambda>_ _. []), json_dump = demo_dump,
     redis_pool = \<lparr>m_configs = [], m_thread_resource = [0 \<mapsto> [''default'' \<mapsto> (''h'', 7000), [] \<mapsto> (''h'', 7000)]]\<rparr>,
     login_thread = 0, redis_hgetall = (\<lambda>_. Reply_null),
     mongo_find_account = (\<lambda>a. Some (JObject [(''account'', JString a), (''user_id'', JUnsigned 7)])),
     mongo_next_counter = Some (Some 8), mongo_update_ok = True, clock_ns = 5, url_rand = 0, lobby_rand = 1,
     local_ip = 1, process_id = 2\<rparr>"

definition demo_login_state :: "u8 list login" where
  "demo_login_state = \<lparr>ln_session_time = Map.empty, ln_seq = 0,
     ln_version = \<lparr>cur_version = ''1'', force_version = ''1'', update_desc = []\<rparr>,
     ln_lobby_list = [(''lobby'', 90)], ln_redis = [], ln_mongo = [], ln_mq_session = True, ln_mq = []\<rparr>"

lemma demo_login_ready:
  "login_request_of demo_login (full_msg CMD_LOGIN [] (Some s)) (demo_login_request ''a'' 0)"
  "login_ready demo_login demo_login_state" "memory_ok (demo_server j)"
  "known_account demo_login ''a'' = Some \<lparr>acc_account = ''a'', acc_user_id = 7\<rparr>"
  "lr_account (demo_login_request ''a'' 0) = ''a''"
  by (simp_all add: login_request_of_def login_ready_def memory_ok_def known_account_def redis_silent_def redis_usable_def get_client_def
      account_from_json_def demo_login_def demo_server_def demo_login_request_def demo_login_state_def full_msg_def
      pbmessage_def to_int32_id demo_dump_def token_json_def same_shape_def demo_token_members_def)


section \<open>The token at the lobby\<close>

lemma encrypt_with_fresh:
  assumes "\<And>n. length (fresh n) = n" "\<And>n. length (fresh' n) = n"
  shows "encrypt_with mem fresh s key = encrypt_with mem fresh' s key"
proof -
  obtain out where "AES_ecb128_encrypt_buf mem s key = Some out" "length out = cipher_length (length s)"
    using encrypt_buf_padded by blast
  with assms show ?thesis by (simp add: encrypt_with_def write_at_def)
qed

text \<open>
  What the lobby needs to know of printing and parsing: the text of an object has no zero byte, and it
  reads as an object with the same keys in which the same members are numbers.
\<close>

definition prints_readably :: "'p login_env \<Rightarrow> 'q server_env \<Rightarrow> bool" where
  "prints_readably E L \<longleftrightarrow> (\<forall>m plain. json_dump E (JObject m) = Some plain \<longrightarrow> 0 \<notin> set plain \<and>
     (\<exists>m'. json_parse L plain = Some (JObject m') \<and> same_shape m m'))"

lemma token_tests_login_token:
  assumes "same_shape
      [(''app_type'', a), (''channel'', b), (''os_version'', c), (''time'', d), (''user_id'', JInt i), (''user_type'', e), (''version'', f)] m'"
  shows "token_tests (JObject m') = None"
  using assms by (auto simp: same_shape_def list_all2_Cons1 token_tests_def)

lemma login_answer_Some:
  assumes "login_answer E msg req info st = Some (st', acts)"
  shows "\<exists>plain r resp. acts = [Respond r] \<and> m_message r = Some (response_body E resp) \<and>
    response_result (m_header r) = CODE_SUCCESS \<and>
    json_dump E (token_json info req (clock_ns E)) = Some plain \<and>
    AES_ecb128_encrypt (junk (le_base E)) (fresh_mem (le_base E)) plain = Some (rs_token resp)"
  using assms
  by (fastforce simp: login_answer_def bind_eq_Some_conv send_response_result_def split_beta split: if_splits)

lemma c_string_id: "0 \<notin> set s \<Longrightarrow> c_string s = s"
  by (simp add: c_string_def takeWhile_eq_all_conv) metis

text \<open>
  C30. The token of a login is of no use at the lobby: whenever the login server answers a request
  with success, the lobby's handling of a token login with the token from that answer aborts. It
  decrypts the token to the text that was encrypted, but reads the key \<^verbatim>\<open>user_account\<close> without asking
  whether it is there, and the login server does not put it in.
\<close>

theorem login_token_aborts_lobby:
  assumes "login_request_of E msg req" "user_login E robot msg st = Some (st', acts)"
    and "Respond r \<in> set acts" "response_result (m_header r) = CODE_SUCCESS"
    and "prints_readably E L" "memory_ok (le_base E)" "memory_ok L"
  shows "\<exists>resp. m_message r = Some (response_body E resp) \<and>
    (\<forall>hb interval now msg l. cmdtype (m_header msg) = CMD_USER_TOKEN_LOGIN \<and>
       pbmessage (token_request L) msg = Some (rs_token resp) \<longrightarrow>
       do_handle_message hb interval (LobbyTask L now) msg l = None)"
proof -
  from assms(1) obtain s where s: "m_session msg = Some s" by (auto simp: login_request_of_def)
  have codes: "CODE_SUCCESS \<notin> {CODE_SYSTEM_ERROR, CODE_ACOCUNT_EMPTY}"
    by (simp add: CODE_SUCCESS_def CODE_SYSTEM_ERROR_def CODE_ACOCUNT_EMPTY_def)
  have g: "\<not> is_need_generate_new_account (lr_account req) (lr_app_type req)"
    using user_login_generated [OF assms(1) _ assms(2)] assms(3,4) codes by auto
  have "lr_account req \<noteq> []"
    using user_login_empty [OF assms(1), of robot st] g assms(2-4) codes by auto
  from user_login_named [OF assms(1) this, of robot st] assms(2) obtain info st1 where
    "login_answer E msg req info st1 = Some (st', acts)" by (auto split: option.splits)
  from login_answer_Some [OF this] assms(3) obtain plain resp where r:
    "m_message r = Some (response_body E resp)" "json_dump E (token_json info req (clock_ns E)) = Some plain"
    "AES_ecb128_encrypt (junk (le_base E)) (fresh_mem (le_base E)) plain = Some (rs_token resp)" by auto
  from assms(5) r(2) obtain m' where m': "0 \<notin> set plain" "json_parse L plain = Some (JObject m')"
      "token_tests (JObject m') = None"
    unfolding prints_readably_def token_json_def using token_tests_login_token by blast
  have "encrypt_with (junk (le_base E)) (fresh_mem L) plain get_key = Some (rs_token resp)"
    using r(3) encrypt_with_fresh [of "fresh_mem (le_base E)" "fresh_mem L"] assms(6,7)
    by (simp add: memory_ok_def AES_ecb128_encrypt_def)
  then have "AES_ecb128_decrypt (junk L) (fresh_mem L) (decode_pos L) (rs_token resp) = Some plain"
    using decrypt_encrypt_with [of "fresh_mem L" "junk (le_base E)" plain get_key "junk L" "decode_pos L"] assms(7) m'(1)
    by (auto simp: memory_ok_def AES_ecb128_decrypt_def c_string_id)
  then have "player_token_login L now lmsg l = None" if "pbmessage (token_request L) lmsg = Some (rs_token resp)" for now lmsg l
    using that m'(2,3) by (simp add: player_token_login_def check_user_token_def)
  then have "do_handle_message hb interval (LobbyTask L now) lmsg l = None"
    if "cmdtype (m_header lmsg) = CMD_USER_TOKEN_LOGIN" "pbmessage (token_request L) lmsg = Some (rs_token resp)"
    for hb interval now lmsg l
    using that cmds_distinct
    by (simp add: do_handle_message_def LobbyTask_def register_msg_handler_def on_token_login_def)
  with r(1) show ?thesis by blast
qed

lemma login_token_aborts_lobby_witness:
  "\<exists>st' r. user_login demo_login False (full_msg CMD_LOGIN [] (Some 3)) demo_login_state = Some (st', [Respond r]) \<and>
     (\<exists>token. m_message r = Some token \<and>
       do_handle_message (\<lambda>_. []) 0 (LobbyTask (demo_server (JObject demo_token_members)) 1)
         (full_msg CMD_USER_TOKEN_LOGIN token (Some 4)) (new_lobby []) = None)"
proof -
  let ?L = "demo_server (JObject demo_token_members)"
  have p: "prints_readably demo_login ?L"
    by (auto simp: prints_readably_def demo_login_def demo_server_def demo_dump_def split: if_splits)
  have m: "memory_ok (le_base demo_login)" "memory_ok ?L" by (simp_all add: demo_login_def demo_login_ready)
  have k: "known_account demo_login (lr_account (demo_login_request ''a'' 0)) = Some \<lparr>acc_account = ''a'', acc_user_id = 7\<rparr>"
    by (simp add: demo_login_ready)
  have "lr_account (demo_login_request ''a'' 0) \<noteq> []" by (simp add: demo_login_ready)
  from user_login_named [OF demo_login_ready(1) [of 3] this, of False demo_login_state] k
    login_answer_ready [of demo_login "demo_login_state\<lparr>ln_redis := ln_redis demo_login_state @
        account_cmds \<lparr>acc_account = ''a'', acc_user_id = 7\<rparr>\<rparr>" "full_msg CMD_LOGIN [] (Some 3)"]
    demo_login_ready(2)
  obtain st' r where u: "user_login demo_login False (full_msg CMD_LOGIN [] (Some 3)) demo_login_state = Some (st', [Respond r])"
      "response_result (m_header r) = CODE_SUCCESS"
    by (fastforce simp: login_ready_def full_msg_def)
  from login_token_aborts_lobby [OF demo_login_ready(1) u(1) _ u(2) p m]
  obtain token where "m_message r = Some token" "do_handle_message (\<lambda>_. []) 0 (LobbyTask ?L 1)
      (full_msg CMD_USER_TOKEN_LOGIN token (Some 4)) (new_lobby []) = None"
    by (fastforce simp: demo_login_def full_msg_def pbmessage_def demo_server_def)
  with u show ?thesis by blast
qed

text \<open>
  The configuration has one Redis client, named \<^verbatim>\<open>default\<close>; the accounts are written through the
  client with the empty name, so every login with an account aborts.
\<close>

theorem login_aborts_default_redis:
  assumes "insert_one redis_parse_one (login_thread E) (parse_config jv new_resource) = Some (redis_pool E)"
    and "\<forall>e\<in>set (json_elements jv). index_string e ''config_name'' = Some ''default''"
    and "login_request_of E msg req" "lr_account req \<noteq> []"
  shows "user_login E robot msg st = None"
proof -
  have "\<not> get_client (login_thread E) [] (redis_pool E) \<noteq> None"
    unfolding get_client_configured [OF assms(1)] using assms(2) by auto
  then have "known_account E (lr_account req) = None" by (simp add: known_account_def redis_usable_def)
  with user_login_named [OF assms(3,4)] show ?thesis by simp
qed

text \<open>
  The parts of an object id are printed one after the other without separators or leading zeros:
  two processes of a host give out the same account.
\<close>

theorem object_ids_collide: "get_object_id sec ip 0x1 0x23 = get_object_id sec ip 0x12 0x3"
proof -
  have "nat_to_hex 1 = [hex_char 1]" "nat_to_hex 0x23 = [hex_char 2, hex_char 3]" "nat_to_hex 0x12 = [hex_char 1, hex_char 2]"
    "nat_to_hex 3 = [hex_char 3]" by (simp_all add: nat_to_hex.simps)
  then show ?thesis by (simp add: get_object_id_def)
qed

text \<open>Versions compare as strings: 1.10.0 is forced to update although only versions up to 1.9.0 are.\<close>

theorem version_order_textual:
  "update_type \<lparr>cur_version = ''1.11.0'', force_version = ''1.9.0'', update_desc = d\<rparr> ''1.10.0'' = 2"
  by (simp add: update_type_def)

end
