(* ===== verification/Server_Config.thy ===== *)
theory Server_Config
  imports Login_Server "HOL-Library.List_Lexorder" "HOL-Library.Product_Lexorder"
begin

text \<open>
  How the servers read their configuration: \<^verbatim>\<open>LanchProcess::parse_config\<close> of the lobby and of the
  login server, and \<^verbatim>\<open>MqInfo::parse_config\<close> (\<^verbatim>\<open>common/libserver/MqInfo.h\<close>). The parsed JSON, the name
  of the process and the conversion of a dotted address are parameters. \<open>None\<close> is an exception or a
  failed assertion, which ends the process.
\<close>

section \<open>The servers: \<^verbatim>\<open>LanchProcess.cpp\<close>\<close>

record server_conf =
  m_ports :: "int list"
  m_svr_index :: int
  m_local_ip :: string
  m_ip_uint :: u32
  m_lobby_list :: "(string \<times> u16) list"

definition new_conf :: server_conf where
  "new_conf = \<lparr>m_ports = [], m_svr_index = 0, m_local_ip = [], m_ip_uint = 0, m_lobby_list = []\<rparr>"

definition push_ports :: "int \<Rightarrow> int \<Rightarrow> server_conf \<Rightarrow> server_conf option" where
  "push_ports sub_count port st =
    (if 0 < sub_count \<and> sub_count < 100
     then Some (st\<lparr>m_ports := m_ports st @ map (\<lambda>i. port + int i) [0..<nat sub_count]\<rparr>) else None)"

definition lobby_parse_config :: "string \<Rightarrow> json \<Rightarrow> server_conf \<Rightarrow> (bool \<times> server_conf) option" where
  "lobby_parse_config process_name conf st = do {
     (jv_server, conf) \<leftarrow> json_index conf process_name;
     if is_valid jv_server then Some (False, st)
     else do {
       sub_process \<leftarrow> index_string jv_server ''sub_process'';
       port \<leftarrow> index_string jv_server ''port'';
       svr_index \<leftarrow> index_string jv_server ''svr_index'';
       st \<leftarrow> push_ports (atoi sub_process) (atoi port) (st\<lparr>m_svr_index := atoi svr_index\<rparr>);
       (host, conf) \<leftarrow> json_index conf ''host_config'';
       ip \<leftarrow> index_string host ''ip'';
       Some (True, st\<lparr>m_local_ip := ip\<rparr>) } }"

text \<open>The set of hosts, kept in its order: by the bytes of the address, then by the port.\<close>

fun host_less :: "string \<times> u16 \<Rightarrow> string \<times> u16 \<Rightarrow> bool" where
  "host_less (s, p) (t, q) \<longleftrightarrow> (if s = t then p < q else str_le s t)"

fun insert_host :: "string \<times> u16 \<Rightarrow> (string \<times> u16) list \<Rightarrow> (string \<times> u16) list" where
  "insert_host h [] = [h]"
| "insert_host h (x # xs) =
    (if h = x then x # xs else if host_less h x then h # x # xs else x # insert_host h xs)"

fun insert_ports :: "string \<Rightarrow> json list \<Rightarrow> (string \<times> u16) list \<Rightarrow> (string \<times> u16) list option" where
  "insert_ports ip [] hosts = Some hosts"
| "insert_ports ip (e # es) hosts = do {
     p \<leftarrow> get_string e;
     insert_ports ip es (insert_host (ip, word_of_int (atoi p)) hosts) }"

fun insert_hosts :: "json list \<Rightarrow> (string \<times> u16) list \<Rightarrow> (string \<times> u16) list option" where
  "insert_hosts [] hosts = Some hosts"
| "insert_hosts (jv # jvs) hosts = do {
     ip \<leftarrow> index_string jv ''ip'';
     (ports, _) \<leftarrow> json_index jv ''ports'';
     hosts \<leftarrow> insert_ports ip (json_elements ports) hosts;
     insert_hosts jvs hosts }"

fun json_array :: "json \<Rightarrow> json list option" where
  "json_array (JArray vs) = Some vs"
| "json_array _ = None"

definition login_parse_config ::
  "(string \<Rightarrow> u32 option) \<Rightarrow> string \<Rightarrow> json \<Rightarrow> server_conf \<Rightarrow> (bool \<times> server_conf) option" where
  "login_parse_config dotted process_name conf st = do {
     (jv_server, conf) \<leftarrow> json_index conf process_name;
     if \<not> is_valid jv_server then Some (False, st)
     else do {
       sub_process \<leftarrow> index_string jv_server ''sub_process'';
       port \<leftarrow> index_string jv_server ''port'';
       st \<leftarrow> push_ports (atoi sub_process) (atoi port) st;
       (host, conf) \<leftarrow> json_index conf ''host_config'';
       ip \<leftarrow> index_string host ''ip'';
       ip_uint \<leftarrow> dotted ip;
       let st = st\<lparr>m_local_ip := ip, m_ip_uint := ip_uint\<rparr>;
       (jv_list, _) \<leftarrow> json_index host ''lobby_list'';
       case json_array jv_list of
         None \<Rightarrow> Some (False, st)
       | Some jvs \<Rightarrow> do {
           hosts \<leftarrow> insert_hosts jvs [];
           Some (True, st\<lparr>m_lobby_list := m_lobby_list st @ hosts\<rparr>) } } }"

section \<open>The message queue: \<^verbatim>\<open>MqInfo.h\<close>\<close>

datatype exchange_type = Direct | Topic | Other_exchange int

record mq_info =
  mi_ip :: string
  mi_port :: int
  mi_login :: "string \<times> string"
  mi_work_dir :: string
  mi_queue :: string
  mi_exchanges :: "(string \<times> exchange_type) list"
  mi_binds :: "(string \<times> string list) list"

definition MqInfo :: mq_info where
  "MqInfo = \<lparr>mi_ip = [], mi_port = 0, mi_login = ([], []), mi_work_dir = [], mi_queue = [], mi_exchanges = [], mi_binds = []\<rparr>"

text \<open>\<^verbatim>\<open>insert\<close> into a hash table keeps the entry that is there. The lists are in the order of the tables.\<close>

definition insert_new :: "'k \<Rightarrow> 'v \<Rightarrow> ('k \<times> 'v) list \<Rightarrow> ('k \<times> 'v) list" where
  "insert_new k v m = (if map_of m k = None then m @ [(k, v)] else m)"

text \<open>\<^verbatim>\<open>std::stoi\<close> throws without digits and outside the range of an \<^verbatim>\<open>int\<close>.\<close>

definition stoi :: "string \<Rightarrow> int option" where
  "stoi s = (let t = dropWhile is_space s; d = (case t of c # cs \<Rightarrow> if c = CHR ''-'' \<or> c = CHR ''+'' then cs else t | [] \<Rightarrow> [])
     in case d of
         [] \<Rightarrow> None
       | c # _ \<Rightarrow> if is_digit c \<and> - 2147483648 \<le> atoi s \<and> atoi s \<le> 2147483647 then Some (atoi s) else None)"

fun contains :: "string \<Rightarrow> string \<Rightarrow> bool" where
  "contains pat [] = (pat = [])"
| "contains pat (c # s) = (take (length pat) (c # s) = pat \<or> contains pat s)"

definition exchange_kind :: "string \<Rightarrow> exchange_type option" where
  "exchange_kind name =
    (if contains ''.direct'' name then Some Direct else if contains ''.topic'' name then Some Topic else None)"

definition add_sub :: "string \<Rightarrow> string \<Rightarrow> string" where
  "add_sub sub s = (if sub = [] then s else s @ ''-'' @ sub)"

definition parse_bind :: "string \<Rightarrow> json \<Rightarrow> mq_info \<Rightarrow> mq_info option" where
  "parse_bind sub e info = do {
     name \<leftarrow> ref_string e ''exchange'';
     case exchange_kind name of
       None \<Rightarrow> Some info
     | Some kind \<Rightarrow> do {
         routs \<leftarrow> json_ref e ''routkeys'';
         keys \<leftarrow> those (map get_string (json_elements routs));
         Some (info\<lparr>mi_exchanges := insert_new name kind (mi_exchanges info),
           mi_binds := insert_new name (map (if kind = Direct then add_sub sub else id) keys) (mi_binds info)\<rparr>) } }"

fun parse_binds :: "string \<Rightarrow> json list \<Rightarrow> mq_info \<Rightarrow> mq_info option" where
  "parse_binds sub [] info = Some info"
| "parse_binds sub (e # es) info = Option.bind (parse_bind sub e info) (parse_binds sub es)"

definition mq_parse_config :: "string \<Rightarrow> json \<Rightarrow> string \<Rightarrow> mq_info \<Rightarrow> (bool \<times> mq_info) option" where
  "mq_parse_config proc_name jv sub info =
    (if \<not> is_valid jv \<or> \<not> is_object jv then Some (False, info)
     else do {
       (jvmq, _) \<leftarrow> json_index jv ''mq'';
       if \<not> is_valid jvmq then Some (False, info)
       else do {
         def \<leftarrow> json_ref jvmq ''default'';
         if \<not> is_valid def then Some (False, info)
         else do {
           ip \<leftarrow> ref_string def ''ip'';
           port \<leftarrow> Option.bind (ref_string def ''port'') stoi;
           user \<leftarrow> ref_string def ''user'';
           passwd \<leftarrow> ref_string def ''passwd'';
           dir \<leftarrow> ref_string def ''dir'';
           let info = info\<lparr>mi_ip := ip, mi_port := port, mi_login := (user, passwd), mi_work_dir := dir\<rparr>;
           proc \<leftarrow> json_ref jvmq proc_name;
           if \<not> is_valid proc then Some (False, info)
           else do {
             queue \<leftarrow> ref_string proc ''queue'';
             binds \<leftarrow> json_ref proc ''binds'';
             info \<leftarrow> parse_binds sub (json_elements binds) (info\<lparr>mi_queue := add_sub sub queue\<rparr>);
             Some (True, info) } } } })"

section \<open>What is read\<close>

lemma str_le_chars: "str_le s t \<longleftrightarrow> map of_char s \<le> (map of_char t :: nat list)"
  by (induction s t rule: str_le.induct) auto

lemma host_less_key:
  "host_less h k \<longleftrightarrow> (map of_char (fst h) :: nat list, snd h) < (map of_char (fst k), snd k)"
proof -
  have inj: "map of_char s = (map of_char t :: nat list) \<longleftrightarrow> s = t" for s t :: string
    using inj_map_eq_map [of "of_char :: char \<Rightarrow> nat"] by (simp add: inj_def)
  show ?thesis
    by (cases h; cases k) (auto simp: str_le_chars less_prod_def inj less_le)
qed

lemma set_insert_host [simp]: "set (insert_host h xs) = insert h (set xs)"
  by (induction xs) auto

lemma insert_host_sorted: "sorted_wrt host_less xs \<Longrightarrow> sorted_wrt host_less (insert_host h xs)"
proof (induction xs)
  case (Cons x xs)
  have trans: "host_less a b \<Longrightarrow> host_less b c \<Longrightarrow> host_less a c" for a b c
    unfolding host_less_key by (rule less_trans)
  have total: "h \<noteq> x \<Longrightarrow> \<not> host_less h x \<Longrightarrow> host_less x h"
    by (cases h; cases x) (auto simp: str_le_chars split: if_splits)
  from Cons trans total show ?case by auto
qed simp

lemma insert_ports_hosts:
  "insert_ports ip es hosts = Some hosts' \<Longrightarrow>
     set hosts' = set hosts \<union> {(ip, word_of_int (atoi p)) | p. JString p \<in> set es} \<and>
     (sorted_wrt host_less hosts \<longrightarrow> sorted_wrt host_less hosts')"
proof (induction es arbitrary: hosts)
  case (Cons e es)
  then obtain p where p: "e = JString p" "insert_ports ip es (insert_host (ip, word_of_int (atoi p)) hosts) = Some hosts'"
    by (cases e) (auto simp: bind_eq_Some_conv)
  from Cons.IH [OF p(2)] p(1) insert_host_sorted show ?case by auto
qed simp

text \<open>The hosts a list of lobby entries names.\<close>

definition named_hosts :: "json \<Rightarrow> (string \<times> u16) set" where
  "named_hosts jv = {(ip, word_of_int (atoi p)) | ip p ports.
     json_ref jv ''ip'' = Some (JString ip) \<and> json_ref jv ''ports'' = Some ports \<and> JString p \<in> set (json_elements ports)}"

lemma index_stringD: "index_string j k = Some s \<Longrightarrow> json_ref j k = Some (JString s)"
  by (cases j) (auto simp: index_string_def json_index_def bind_eq_Some_conv split: option.splits elim!: get_string.elims)

lemma json_index_elements:
  "json_index j k = Some (v, j') \<Longrightarrow> set (json_elements v) = {e. \<exists>u. json_ref j k = Some u \<and> e \<in> set (json_elements u)}"
  by (cases j) (auto simp: json_index_def split: option.splits)

lemma insert_hosts_named:
  "insert_hosts jvs hosts = Some hosts' \<Longrightarrow>
     set hosts' = set hosts \<union> (\<Union>jv\<in>set jvs. named_hosts jv) \<and>
     (sorted_wrt host_less hosts \<longrightarrow> sorted_wrt host_less hosts')"
proof (induction jvs arbitrary: hosts)
  case (Cons jv jvs)
  then obtain ip ports j hosts1 where s: "index_string jv ''ip'' = Some ip" "json_index jv ''ports'' = Some (ports, j)"
      "insert_ports ip (json_elements ports) hosts = Some hosts1" "insert_hosts jvs hosts1 = Some hosts'"
    by (auto simp: bind_eq_Some_conv)
  have "named_hosts jv = {(ip, word_of_int (atoi p)) | p. JString p \<in> set (json_elements ports)}"
    using index_stringD [OF s(1)] json_index_elements [OF s(2)] by (auto simp: named_hosts_def)
  with insert_ports_hosts [OF s(3)] Cons.IH [OF s(4)] show ?case by auto
qed simp

lemma json_index_valid: "json_index j k = Some (v, j') \<Longrightarrow> is_valid v \<Longrightarrow> json_ref j k = Some v \<and> j' = j"
  by (cases j) (auto simp: json_index_def split: option.splits)

text \<open>
  C40. What the servers read from their configuration. The lobby reads nothing: if its section is there
  it stops, otherwise it throws. When the login server succeeds, its ports are consecutive from the
  configured one, between 1 and 99 of them, and its list of lobbies is exactly the set of the hosts and
  ports the configuration names, without repetition and in order; when it gives up, the list is empty.
\<close>

theorem server_config_exact:
  assumes "login_parse_config dotted name conf new_conf = Some (ok, st)"
  shows "(if ok then \<exists>server host jvs sub port.
      json_ref conf name = Some server \<and> json_ref conf ''host_config'' = Some host \<and>
      json_ref server ''sub_process'' = Some (JString sub) \<and> json_ref server ''port'' = Some (JString port) \<and>
      json_ref host ''lobby_list'' = Some (JArray jvs) \<and> 0 < atoi sub \<and> atoi sub < 100 \<and>
      m_ports st = map (\<lambda>i. atoi port + int i) [0..<nat (atoi sub)] \<and>
      set (m_lobby_list st) = (\<Union>jv\<in>set jvs. named_hosts jv) \<and> sorted_wrt host_less (m_lobby_list st)
    else m_lobby_list st = []) \<and>
    lobby_parse_config name conf new_conf \<in> {None, Some (False, new_conf)}"
proof (rule conjI, goal_cases)
  case 1
  obtain server conf1 where server: "json_index conf name = Some (server, conf1)"
    using assms by (auto simp: login_parse_config_def bind_eq_Some_conv)
  show ?case
  proof (cases ok)
    case False
    with assms show ?thesis
      by (auto simp: login_parse_config_def bind_eq_Some_conv push_ports_def new_conf_def Let_def split: if_splits option.splits)
  next
    case True
    have valid: "is_valid server" using assms True server
      by (rule_tac ccontr) (simp add: login_parse_config_def)
    note conf = json_index_valid [OF server valid]
    from assms True server valid obtain sub port host j ip u lobbies j' jvs hosts where
      "index_string server ''sub_process'' = Some sub" "index_string server ''port'' = Some port"
      "0 < atoi sub" "atoi sub < 100" and host: "json_index conf1 ''host_config'' = Some (host, j)"
      and ip: "index_string host ''ip'' = Some ip" and lobbies: "json_index host ''lobby_list'' = Some (lobbies, j')"
      "json_array lobbies = Some jvs" and hosts: "insert_hosts jvs [] = Some hosts"
      and st: "m_ports st = map (\<lambda>i. atoi port + int i) [0..<nat (atoi sub)]" "m_lobby_list st = hosts"
      by (auto simp: login_parse_config_def bind_eq_Some_conv push_ports_def new_conf_def Let_def split: if_splits option.splits)
    moreover have "lobbies = JArray jvs" using lobbies(2) by (cases lobbies) auto
    moreover have "is_valid host" using index_stringD [OF ip] by (cases host) auto
    ultimately show ?thesis
      using True conf index_stringD json_index_valid [OF host] json_index_valid [OF lobbies(1)] insert_hosts_named [OF hosts]
      by fastforce
  qed
next
  case 2
  have "index_string v k = None" if "\<not> is_valid v" for v k
    using that by (cases v) (simp_all add: index_string_def json_index_def)
  then show ?case by (cases "json_index conf name") (auto simp: lobby_parse_config_def)
qed

definition demo_conf :: json where
  "demo_conf = JObject
     [(''loginsvr'', JObject [(''sub_process'', JString ''2''), (''port'', JString ''7400'')]),
      (''host_config'', JObject [(''ip'', JString ''10.0.0.1''),
         (''lobby_list'', JArray [JObject [(''ip'', JString ''b''), (''ports'', JArray [JString ''75'', JString ''74''])],
            JObject [(''ip'', JString ''a''), (''ports'', JArray [JString ''75'']) ]])])]"

lemma server_config_exact_witness:
  "\<exists>st. login_parse_config (\<lambda>_. Some 1) ''loginsvr'' demo_conf new_conf = Some (True, st) \<and>
     m_ports st = [7400, 7401] \<and> m_lobby_list st = [(''a'', 75), (''b'', 74), (''b'', 75)] \<and>
     sorted_wrt host_less (m_lobby_list st)"
proof -
  have n: "atoi ''2'' = 2" "atoi ''7400'' = 7400" "atoi ''75'' = 75" "atoi ''74'' = 74" by code_simp+
  obtain st where st: "login_parse_config (\<lambda>_. Some 1) ''loginsvr'' demo_conf new_conf = Some (True, st)"
      "m_ports st = [7400, 7401]" "m_lobby_list st = [(''a'', 75), (''b'', 74), (''b'', 75)]"
    by (simp add: login_parse_config_def demo_conf_def new_conf_def json_index_def index_string_def push_ports_def n)
      (simp add: upt_rec)
  with server_config_exact [OF st(1)] show ?thesis by auto
qed

text \<open>
  The configuration file in the sources names its address \<^verbatim>\<open>local_ip\<close>; both servers ask for \<^verbatim>\<open>ip\<close>, so
  the login server throws on it.
\<close>

theorem login_config_key_missing:
  assumes "json_ref conf ''host_config'' = Some (JObject m)" "map_of m ''ip'' = None"
    "json_ref conf name = Some server" "is_valid server"
  shows "login_parse_config dotted name conf st = None"
proof -
  from assms obtain c where c: "conf = JObject c" by (cases conf) auto
  have "index_string (JObject m) ''ip'' = None"
    using assms(2) by (simp add: index_string_def json_index_def)
  with assms c show ?thesis
    by (auto simp: login_parse_config_def json_index_def bind_eq_None_conv split: option.splits)
qed

end
