(* ===== verification/Mq_Client.thy ===== *)
theory Mq_Client
  imports Message_Core Tcp_Client Server_Config
begin

text \<open>
  The client of the message broker: \<^verbatim>\<open>MqSession.cpp\<close>, \<^verbatim>\<open>MqClient.cpp\<close> and the connection callbacks of
  \<^verbatim>\<open>MqHandler.h\<close> (all in \<^verbatim>\<open>common/libserver\<close>). The AMQP library is a parameter: what is asked of it
  is a list of operations, and its callbacks are steps that can come at any time. The methods that
  post to the loop are the steps that run what was posted. \<open>None\<close> is the use of a null pointer or of
  memory outside a buffer.
\<close>

section \<open>Messages and state\<close>

record mq_header =
  mh_cmdtype :: u32
  mh_type :: u32
  mh_sequenceid :: u64
  mh_length :: u32
  mh_check_result :: u32
  mh_response_result :: u64
  send_routkey :: string
  recv_routkey :: string
  send_exchange :: string
  recv_exchange :: string

definition new_mq_header :: mq_header where
  "new_mq_header = \<lparr>mh_cmdtype = 0, mh_type = 0, mh_sequenceid = 0, mh_length = 0, mh_check_result = 0,
     mh_response_result = 0, send_routkey = [], recv_routkey = [], send_exchange = [], recv_exchange = []\<rparr>"

record 'p mq_message =
  mm_header :: mq_header
  mm_body :: "'p option"

text \<open>
  \<open>body_writes\<close> and \<open>header_writes\<close> are the results of \<^verbatim>\<open>SerializeToArray\<close> with enough room: false for a
  message that lacks a required field.
\<close>

record 'p mq_env =
  mq_pb :: "'p pb_ops"
  mq_maker :: "'p maker"
  mq_be :: bool
  mqh_bytes :: "mq_header \<Rightarrow> u8 list"
  mqh_parse :: "u8 list \<Rightarrow> mq_header option"
  header_writes :: "mq_header \<Rightarrow> bool"
  body_writes :: "'p \<Rightarrow> bool"
  open_body :: 'p
  close_body :: 'p

datatype amqp_op =
    New_connection string int "string \<times> string" string
  | Declare_queue string
  | Declare_exchange string exchange_type
  | Bind_queue string string string
  | Consume string
  | Ack u64
  | Publish string string "u8 list"
  | Close_connection

text \<open>\<open>ms_handler\<close> is the handler with its flag \<^verbatim>\<open>m_is_connected\<close>; \<open>ms_upcalls\<close> what the task was given.\<close>

record 'p mq_session =
  ms_connection :: bool
  ms_handler :: "bool option"
  ms_channel :: bool
  ms_info :: mq_info
  ms_opened :: bool
  ms_sequenceid :: u64
  ms_buffer :: msg_buffer
  ms_ops :: "amqp_op list"
  ms_upcalls :: "'p mq_message list"

definition MqSession :: "mq_info \<Rightarrow> u8 list \<Rightarrow> 'p mq_session" where
  "MqSession info fresh =
    \<lparr>ms_connection = False, ms_handler = None, ms_channel = False, ms_info = info, ms_opened = False, ms_sequenceid = 0,
     ms_buffer = new_buffer fresh, ms_ops = [], ms_upcalls = []\<rparr>"

definition ask :: "amqp_op list \<Rightarrow> 'p mq_session \<Rightarrow> 'p mq_session" where
  "ask ops s = s\<lparr>ms_ops := ms_ops s @ ops\<rparr>"

section \<open>\<^verbatim>\<open>MqHandler.h\<close>\<close>

definition close_mq :: "'p mq_session \<Rightarrow> 'p mq_session" where
  "close_mq s = s\<lparr>ms_handler := map_option (\<lambda>_. False) (ms_handler s)\<rparr>"

datatype handler_call = Call_closed | Call_error | Call_connected

text \<open>All three callbacks call \<^verbatim>\<open>close_mq\<close>.\<close>

fun handler_callback :: "handler_call \<Rightarrow> 'p mq_session \<Rightarrow> 'p mq_session" where
  "handler_callback Call_closed s = close_mq s"
| "handler_callback Call_error s = close_mq s"
| "handler_callback Call_connected s = close_mq s"

definition mq_is_connected :: "'p mq_session \<Rightarrow> bool" where
  "mq_is_connected s = (case ms_handler s of None \<Rightarrow> False | Some up \<Rightarrow> up)"

section \<open>\<^verbatim>\<open>MqSession.cpp\<close>\<close>

definition mq_init :: "'p mq_session \<Rightarrow> 'p mq_session" where
  "mq_init s =
    ask [New_connection (mi_ip (ms_info s)) (mi_port (ms_info s)) (mi_login (ms_info s)) (mi_work_dir (ms_info s))]
      (s\<lparr>ms_handler := Some False, ms_connection := True, ms_channel := True\<rparr>)"

definition binding_exchange :: "'p mq_session \<Rightarrow> 'p mq_session" where
  "binding_exchange s = ask (map (\<lambda>(name, kind). Declare_exchange name kind) (mi_exchanges (ms_info s))) s"

definition exchange_success_call :: "string \<Rightarrow> 'p mq_session \<Rightarrow> 'p mq_session" where
  "exchange_success_call name s =
    (case map_of (mi_binds (ms_info s)) name of
       None \<Rightarrow> s
     | Some keys \<Rightarrow> ask (map (Bind_queue name (mi_queue (ms_info s))) keys) s)"

definition mq_notice :: "u32 \<Rightarrow> 'p \<Rightarrow> 'p mq_message" where
  "mq_notice cmd body = \<lparr>mm_header = new_mq_header\<lparr>mh_cmdtype := cmd, mh_type := REQUEST_TYPE\<rparr>, mm_body = Some body\<rparr>"

definition give_up :: "'p mq_message \<Rightarrow> 'p mq_session \<Rightarrow> 'p mq_session" where
  "give_up msg s = s\<lparr>ms_upcalls := ms_upcalls s @ [msg]\<rparr>"

definition channel_ready_call :: "'p mq_env \<Rightarrow> 'p mq_session \<Rightarrow> 'p mq_session" where
  "channel_ready_call E s =
     give_up (mq_notice CMD_SESSION_OPEN (open_body E))
       ((binding_exchange (ask [Declare_queue (mi_queue (ms_info s))] s))\<lparr>ms_opened := True\<rparr>)"

definition queue_success_call :: "'p mq_session \<Rightarrow> 'p mq_session" where
  "queue_success_call s = ask [Consume (mi_queue (ms_info s))] (binding_exchange s)"

definition bind_one_exchange :: "string \<Rightarrow> exchange_type \<Rightarrow> string \<Rightarrow> 'p mq_session \<Rightarrow> 'p mq_session" where
  "bind_one_exchange name kind key s =
    (let info = ms_info s;
         s = s\<lparr>ms_info := info\<lparr>mi_exchanges := insert_new name kind (mi_exchanges info),
              mi_binds := insert_new name [key] (mi_binds info)\<rparr>\<rparr>
     in if \<not> ms_opened s then s
        else ask [Declare_exchange name kind, Bind_queue name (mi_queue (ms_info s)) key] s)"

text \<open>The message that is put together is dropped: what remains is the result.\<close>

definition recv_data :: "'p mq_env \<Rightarrow> u8 list \<Rightarrow> bool option" where
  "recv_data E body = do {
     let b = decode_header_length (mq_be E) (new_buffer body);
     bytes \<leftarrow> (if length body < HEADER_LENGTH then None else buffer_part HEADER_LENGTH (unat (m_header_length b)) b);
     case mqh_parse E bytes of
       None \<Rightarrow> Some False
     | Some header \<Rightarrow>
         (case make_message (mq_pb E) (mq_maker E) (mh_type header) (mh_cmdtype header) of
            None \<Rightarrow> Some False
          | Some pbmsg \<Rightarrow> do {
              parsed \<leftarrow> decode_message (mq_pb E) pbmsg (b\<lparr>m_msg_length := mh_length header\<rparr>);
              Some (parsed \<noteq> None) }) }"

definition on_message :: "'p mq_env \<Rightarrow> u64 \<Rightarrow> u8 list \<Rightarrow> 'p mq_session \<Rightarrow> 'p mq_session option" where
  "on_message E tag body s = map_option (\<lambda>_. ask [Ack tag] s) (recv_data E body)"

definition MQ_BUF_SIZE :: int where "MQ_BUF_SIZE = 1024 * 1024 * 10"

text \<open>A failed serialisation leaves the bytes as they were. The test of \<^verbatim>\<open>encode_message\<close> is as in the code.\<close>

definition mq_do_write :: "'p mq_env \<Rightarrow> 'p mq_message \<Rightarrow> 'p mq_session \<Rightarrow> 'p mq_session option" where
  "mq_do_write E msg s = do {
     let header = mm_header msg;
     pbmsg \<leftarrow> mm_body msg;
     let hb = mqh_bytes E header;
     let pb = pb_bytes (mq_pb E) pbmsg;
     if sint (of_nat (length hb) + of_nat (length pb) :: u32) > MQ_BUF_SIZE then Some s
     else do {
       b \<leftarrow> encode_header_length (mq_be E) (of_nat (length hb)) (ms_buffer s);
       let b = b\<lparr>m_msg_length := mh_length header\<rparr>;
       if \<not> header_writes E header then Some (s\<lparr>ms_buffer := b\<rparr>)
       else do {
         b \<leftarrow> put_bytes HEADER_LENGTH hb b;
         if body_writes E pbmsg then do {
           b \<leftarrow> encode_message (mq_pb E) pbmsg b;
           Some (s\<lparr>ms_buffer := b\<rparr>) }
         else if ms_channel s then do {
           bytes \<leftarrow> buffer_part 0 (unat (of_int (buffer_length b) :: u64)) b;
           Some (ask [Publish (recv_exchange header) (recv_routkey header) bytes] (s\<lparr>ms_buffer := b\<rparr>)) }
         else Some (s\<lparr>ms_buffer := b\<rparr>) } } }"

text \<open>\<^verbatim>\<open>set_msg_sequenceid\<close> and \<^verbatim>\<open>do_send_message\<close> of \<^verbatim>\<open>Session.inl\<close>.\<close>

definition mq_do_send_message :: "'p mq_env \<Rightarrow> 'p mq_message \<Rightarrow> 'p mq_session \<Rightarrow> 'p mq_session option" where
  "mq_do_send_message E msg s =
    (let h = mm_header msg;
         h = (if mh_type h = 0 then h\<lparr>mh_type := REQUEST_TYPE\<rparr> else h);
         h = h\<lparr>mh_sequenceid := ms_sequenceid s\<rparr>
     in mq_do_write E (msg\<lparr>mm_header := h\<rparr>) (s\<lparr>ms_sequenceid := ms_sequenceid s + 1\<rparr>))"

definition mq_do_close :: "'p mq_env \<Rightarrow> 'p mq_session \<Rightarrow> 'p mq_session option" where
  "mq_do_close E s =
    (if \<not> ms_opened s then Some s
     else let s = s\<lparr>ms_opened := False, ms_handler := None\<rparr>
          in if \<not> ms_connection s then None
             else Some (give_up (mq_notice CMD_SESSION_CLOSE (close_body E)) (ask [Close_connection] s)))"

section \<open>\<^verbatim>\<open>MqClient.cpp\<close>\<close>

text \<open>\<open>posted_inits\<close> and \<open>posted_closes\<close> count what \<^verbatim>\<open>connect\<close> and \<^verbatim>\<open>close\<close> of the session have posted.\<close>

record 'p mq_client =
  cl_session :: "'p mq_session"
  cl_info :: mq_info
  cl_waits :: "timer_wait list"
  cl_auto_reconnect :: bool
  cl_is_connecting :: bool
  posted_inits :: nat
  posted_closes :: nat

text \<open>The result of \<^verbatim>\<open>parse_config\<close> is not looked at.\<close>

definition MqClient :: "string \<Rightarrow> json \<Rightarrow> string \<Rightarrow> u8 list \<Rightarrow> 'p mq_client option" where
  "MqClient proc_name conf sub fresh = do {
     (_, info) \<leftarrow> mq_parse_config proc_name conf sub MqInfo;
     Some \<lparr>cl_session = MqSession info fresh, cl_info = info, cl_waits = [], cl_auto_reconnect = False,
       cl_is_connecting = False, posted_inits = 0, posted_closes = 0\<rparr> }"

definition register_timer :: "'p mq_client \<Rightarrow> 'p mq_client" where
  "register_timer c = c\<lparr>cl_waits := arm (cl_waits c)\<rparr>"

definition connect_mq :: "'p mq_client \<Rightarrow> 'p mq_client" where
  "connect_mq c = c\<lparr>cl_is_connecting := True, posted_inits := posted_inits c + 1\<rparr>"

definition mq_do_bind :: "string \<Rightarrow> exchange_type \<Rightarrow> string \<Rightarrow> 'p mq_client \<Rightarrow> 'p mq_client" where
  "mq_do_bind name kind key c =
    c\<lparr>cl_info := (cl_info c)\<lparr>mi_exchanges := insert_new name kind (mi_exchanges (cl_info c)),
         mi_binds := insert_new name [key] (mi_binds (cl_info c))\<rparr>,
      cl_session := bind_one_exchange name kind key (cl_session c)\<rparr>"

definition mq_do_connect :: "'p mq_client \<Rightarrow> 'p mq_client" where
  "mq_do_connect c =
    (if mq_is_connected (cl_session c) then c
     else register_timer (connect_mq (c\<lparr>cl_auto_reconnect := True\<rparr>)))"

definition mq_close_session :: "'p mq_client \<Rightarrow> 'p mq_client" where
  "mq_close_session c = (if mq_is_connected (cl_session c) then c\<lparr>posted_closes := posted_closes c + 1\<rparr> else c)"

definition mq_do_close_client :: "'p mq_client \<Rightarrow> 'p mq_client" where
  "mq_do_close_client c =
    (let c = mq_close_session (c\<lparr>cl_auto_reconnect := False, cl_is_connecting := False\<rparr>)
     in c\<lparr>cl_waits := cancel (cl_waits c)\<rparr>)"

definition mq_on_timeout :: "bool \<Rightarrow> 'p mq_client \<Rightarrow> 'p mq_client" where
  "mq_on_timeout err c =
    (if err then c
     else register_timer
       (if cl_is_connecting c
        then (if mq_is_connected (cl_session c) then c\<lparr>cl_is_connecting := False\<rparr> else c)
        else let c = (if \<not> mq_is_connected (cl_session c) then mq_close_session c else c)
             in if cl_auto_reconnect c \<and> \<not> mq_is_connected (cl_session c) then connect_mq c else c))"

text \<open>\<^verbatim>\<open>send\<close> of the session, with \<^verbatim>\<open>send_pre_deal\<close>; the posted message is the argument of a later step.\<close>

definition mq_send :: "'p mq_message \<Rightarrow> 'p mq_client \<Rightarrow> 'p mq_client \<times> 'p mq_message option" where
  "mq_send msg c =
    (if mh_cmdtype (mm_header msg) = CMD_SHUTDOWN_SESSION then (c\<lparr>posted_closes := posted_closes c + 1\<rparr>, None)
     else (c, Some msg))"

section \<open>Runs\<close>

datatype 'p mq_step =
    User_connect | User_close | User_bind string exchange_type string | User_send "'p mq_message"
  | Run_init | Run_close | Run_timer timer_wait | Tick
  | Channel_ready | Queue_declared | Exchange_declared string | Message_arrived u64 "u8 list" | Handler_call handler_call

text \<open>
  The result is \<open>None\<close> when the step is not possible in the state, and \<open>Some None\<close> when it aborts. A
  user's message is written at once here: the posted handler may run at any later point, and any order
  of steps is a run. Closing destroys the handler while the connection still has it, so a callback
  after that aborts.
\<close>

definition on_session :: "('p mq_session \<Rightarrow> 'p mq_session) \<Rightarrow> 'p mq_client \<Rightarrow> 'p mq_client" where
  "on_session f c = c\<lparr>cl_session := f (cl_session c)\<rparr>"

fun mq_do_step :: "'p mq_env \<Rightarrow> 'p mq_step \<Rightarrow> 'p mq_client \<Rightarrow> 'p mq_client option option" where
  "mq_do_step E User_connect c = Some (Some (mq_do_connect c))"
| "mq_do_step E User_close c = Some (Some (mq_do_close_client c))"
| "mq_do_step E (User_bind name kind key) c = Some (Some (mq_do_bind name kind key c))"
| "mq_do_step E (User_send msg) c =
    (case mq_send msg c of
       (c, None) \<Rightarrow> Some (Some c)
     | (c, Some msg) \<Rightarrow> Some (map_option (\<lambda>s. c\<lparr>cl_session := s\<rparr>) (mq_do_send_message E msg (cl_session c))))"
| "mq_do_step E Run_init c =
    (if posted_inits c = 0 then None else Some (Some (on_session mq_init (c\<lparr>posted_inits := posted_inits c - 1\<rparr>))))"
| "mq_do_step E Run_close c =
    (if posted_closes c = 0 then None
     else Some (map_option (\<lambda>s. c\<lparr>cl_session := s, posted_closes := posted_closes c - 1\<rparr>) (mq_do_close E (cl_session c))))"
| "mq_do_step E (Run_timer w) c =
    (if w \<in> set (cl_waits c) \<and> w \<noteq> Pending
     then Some (Some (mq_on_timeout (w = Aborted) (c\<lparr>cl_waits := remove1 w (cl_waits c)\<rparr>))) else None)"
| "mq_do_step E Tick c =
    (if Pending \<in> set (cl_waits c)
     then Some (Some (c\<lparr>cl_waits := map (\<lambda>w. if w = Pending then Due else w) (cl_waits c)\<rparr>)) else None)"
| "mq_do_step E Channel_ready c =
    (if ms_channel (cl_session c) then Some (Some (on_session (channel_ready_call E) c)) else None)"
| "mq_do_step E Queue_declared c =
    (if ms_channel (cl_session c) then Some (Some (on_session queue_success_call c)) else None)"
| "mq_do_step E (Exchange_declared name) c =
    (if ms_channel (cl_session c) then Some (Some (on_session (exchange_success_call name) c)) else None)"
| "mq_do_step E (Message_arrived tag body) c =
    (if ms_channel (cl_session c)
     then Some (map_option (\<lambda>s. c\<lparr>cl_session := s\<rparr>) (on_message E tag body (cl_session c))) else None)"
| "mq_do_step E (Handler_call call) c =
    (if \<not> ms_connection (cl_session c) then None
     else if ms_handler (cl_session c) = None then Some None
     else Some (Some (on_session (handler_callback call) c)))"

inductive mq_reach :: "'p mq_env \<Rightarrow> 'p mq_client \<Rightarrow> 'p mq_client \<Rightarrow> 'p mq_step list \<Rightarrow> bool" for E c0 where
  start: "mq_reach E c0 c0 []"
| step: "mq_reach E c0 c done_steps \<Longrightarrow> mq_do_step E s c = Some (Some c') \<Longrightarrow> mq_reach E c0 c' (done_steps @ [s])"

section \<open>What runs come to\<close>

text \<open>The connections asked for, or about to be.\<close>

definition n_connections :: "'p mq_client \<Rightarrow> nat" where
  "n_connections c = length (filter (\<lambda>op. \<exists>ip port login dir. op = New_connection ip port login dir) (ms_ops (cl_session c)))
     + posted_inits c"

definition idle_session :: "'p mq_env \<Rightarrow> 'p mq_session \<Rightarrow> bool" where
  "idle_session E s \<longleftrightarrow> ms_handler s \<noteq> Some True \<and> (ms_opened s \<longrightarrow> ms_connection s) \<and> (ms_channel s \<longrightarrow> ms_connection s) \<and>
     set (ms_upcalls s) \<subseteq> {mq_notice CMD_SESSION_OPEN (open_body E), mq_notice CMD_SESSION_CLOSE (close_body E)} \<and>
     ((\<forall>p. body_writes E p) \<longrightarrow> (\<forall>exch key bytes. Publish exch key bytes \<notin> set (ms_ops s)))"

definition same_connections :: "'p mq_session \<Rightarrow> 'p mq_session \<Rightarrow> bool" where
  "same_connections s s' \<longleftrightarrow>
     filter (\<lambda>op. \<exists>ip port login dir. op = New_connection ip port login dir) (ms_ops s') =
     filter (\<lambda>op. \<exists>ip port login dir. op = New_connection ip port login dir) (ms_ops s)"

definition keeps :: "'p mq_env \<Rightarrow> 'p mq_session \<Rightarrow> 'p mq_session \<Rightarrow> bool" where
  "keeps E s s' \<longleftrightarrow> (idle_session E s \<longrightarrow> idle_session E s') \<and> same_connections s s'"

lemma keeps_trans: "keeps E s t \<Longrightarrow> keeps E t u \<Longrightarrow> keeps E s u"
  by (simp add: keeps_def same_connections_def)

lemma idle_not_connected: "idle_session E s \<Longrightarrow> \<not> mq_is_connected s"
  by (auto simp: idle_session_def mq_is_connected_def split: option.splits)

lemma keeps_ask:
  "\<forall>op\<in>set ops. (\<forall>a b c. op \<noteq> Publish a b c) \<and> (\<forall>a b c d. op \<noteq> New_connection a b c d) \<Longrightarrow> keeps E s (ask ops s)"
  by (auto simp: keeps_def idle_session_def same_connections_def ask_def filter_empty_conv)

lemma keeps_publish: "\<not> body_writes E p \<Longrightarrow> keeps E s (ask [Publish x y bytes] s)"
  by (auto simp: keeps_def idle_session_def same_connections_def ask_def)

text \<open>Changes of fields that say nothing of the connection.\<close>

lemma keeps_fields [simp]:
  "keeps E s s" "keeps E s (s\<lparr>ms_buffer := b\<rparr>)" "keeps E s (s\<lparr>ms_sequenceid := n\<rparr>)" "keeps E s (s\<lparr>ms_info := info\<rparr>)"
  "keeps E s (close_mq s)"
  by (auto simp: keeps_def idle_session_def same_connections_def close_mq_def)

lemma keeps_ready: "ms_channel s \<Longrightarrow> keeps E s (channel_ready_call E s)"
proof -
  assume c: "ms_channel s"
  let ?t = "binding_exchange (ask [Declare_queue (mi_queue (ms_info s))] s)"
  have "keeps E s ?t" unfolding binding_exchange_def
    by (rule keeps_trans [OF keeps_ask keeps_ask]) auto
  moreover have "ms_channel ?t" using c by (simp add: binding_exchange_def ask_def)
  ultimately show ?thesis
    by (auto simp: channel_ready_call_def give_up_def keeps_def idle_session_def same_connections_def)
qed

lemma keeps_queue: "keeps E s (queue_success_call s)"
  unfolding queue_success_call_def binding_exchange_def by (rule keeps_trans [OF keeps_ask keeps_ask]) auto

lemma keeps_exchange: "keeps E s (exchange_success_call x s)"
  by (cases "map_of (mi_binds (ms_info s)) x") (auto simp: exchange_success_call_def intro: keeps_ask)

lemma keeps_bind: "keeps E s (bind_one_exchange name kind key s)"
proof -
  have "keeps E t (ask [Declare_exchange name kind, Bind_queue name q key] t)" for t q by (rule keeps_ask) simp
  from keeps_trans [OF keeps_fields(4) this] show ?thesis by (simp add: bind_one_exchange_def Let_def)
qed

lemma keeps_write: "mq_do_write E msg s = Some s' \<Longrightarrow> keeps E s s'"
proof -
  have publish: "keeps E s (ask [Publish x y bytes] (s\<lparr>ms_buffer := b\<rparr>))" if "\<not> body_writes E p" for p x y bytes b
    by (rule keeps_trans [OF keeps_fields(2) keeps_publish [OF that]])
  assume w: "mq_do_write E msg s = Some s'"
  then obtain p where p: "mm_body msg = Some p" by (cases "mm_body msg") (simp_all add: mq_do_write_def)
  show ?thesis
  proof (cases "body_writes E p")
    case True
    with w p show ?thesis
      by (auto simp only: mq_do_write_def bind_eq_Some_conv Let_def option.inject keeps_fields simp_thms if_True split: if_split_asm)
  next
    case False
    with w p publish [OF False] show ?thesis
      by (auto simp only: mq_do_write_def bind_eq_Some_conv Let_def option.inject keeps_fields simp_thms if_False split: if_split_asm)
  qed
qed

lemma keeps_send: "mq_do_send_message E msg s = Some s' \<Longrightarrow> keeps E s s'"
  unfolding mq_do_send_message_def Let_def by (rule keeps_trans [OF keeps_fields(3) keeps_write])

lemma keeps_close: "mq_do_close E s = Some s' \<Longrightarrow> keeps E s s'"
  by (auto simp: mq_do_close_def keeps_def idle_session_def same_connections_def give_up_def ask_def Let_def split: if_splits)

lemma keeps_message: "on_message E tag body s = Some s' \<Longrightarrow> keeps E s s'"
  by (auto simp: on_message_def intro!: keeps_ask)

lemma keeps_callback: "keeps E s (handler_callback call s)"
  by (cases call) simp_all

lemmas keeps_direct = keeps_ready keeps_queue keeps_exchange keeps_bind keeps_callback

lemmas keeps_results = keeps_send keeps_close keeps_message

lemma mq_init_idle: "idle_session E s \<Longrightarrow> idle_session E (mq_init s)"
  by (auto simp: idle_session_def mq_init_def ask_def)

definition mq_client_ok :: "'p mq_env \<Rightarrow> nat \<Rightarrow> 'p mq_client \<Rightarrow> bool" where
  "mq_client_ok E n c \<longleftrightarrow> idle_session E (cl_session c) \<and> cl_is_connecting c = cl_auto_reconnect c \<and> n_connections c = n"

lemma n_connections_keeps:
  "keeps E (cl_session c) s \<Longrightarrow> posted_inits c' = posted_inits c \<Longrightarrow> cl_session c' = s \<Longrightarrow> n_connections c' = n_connections c"
  by (simp add: keeps_def same_connections_def n_connections_def)

lemma ok_session:
  assumes "mq_client_ok E n c" "keeps E (cl_session c) s" "cl_session c' = s" "posted_inits c' = posted_inits c"
    "cl_is_connecting c' = cl_is_connecting c" "cl_auto_reconnect c' = cl_auto_reconnect c"
  shows "mq_client_ok E n c'"
  using assms n_connections_keeps [of E c s c'] by (simp add: mq_client_ok_def keeps_def)

lemma mq_step_ok:
  assumes ok: "mq_client_ok E n c" and step: "mq_do_step E s c = Some (Some c')"
  shows "mq_client_ok E (n + (if s = User_connect then 1 else 0)) c'"
proof -
  have down: "\<not> mq_is_connected (cl_session c)" using ok idle_not_connected by (auto simp: mq_client_ok_def)
  show ?thesis
  proof (cases s)
    case User_connect
    with ok step down show ?thesis
      by (auto simp: mq_client_ok_def mq_do_connect_def register_timer_def connect_mq_def n_connections_def)
  next
    case User_close
    with ok step down show ?thesis
      by (auto simp: mq_client_ok_def mq_do_close_client_def mq_close_session_def n_connections_def Let_def)
  next
    case (Run_timer w)
    with ok step down show ?thesis
      by (auto simp: mq_client_ok_def mq_on_timeout_def register_timer_def mq_close_session_def n_connections_def Let_def
          split: if_splits)
  next
    case Run_init
    with ok step mq_init_idle [of E "cl_session c"] show ?thesis
      by (auto simp: mq_client_ok_def on_session_def n_connections_def mq_init_def ask_def split: if_splits)
  qed (use step in \<open>auto simp: mq_do_bind_def mq_send_def on_session_def keeps_direct split: if_splits
      intro!: ok_session [OF ok] dest: keeps_results\<close>)
qed

lemma mq_reach_ok:
  "mq_reach E c0 c done_steps \<Longrightarrow> mq_client_ok E 0 c0 \<Longrightarrow>
     mq_client_ok E (length (filter (\<lambda>s. s = User_connect) done_steps)) c"
proof (induction rule: mq_reach.induct)
  case (step c done_steps s c')
  then show ?case using mq_step_ok [of E _ c s c'] by fastforce
qed simp

lemma MqClient_ok: "MqClient proc_name conf sub fresh = Some c \<Longrightarrow> mq_client_ok E 0 c"
  by (auto simp: MqClient_def mq_client_ok_def idle_session_def n_connections_def MqSession_def bind_eq_Some_conv)

text \<open>
  C39. The broker client never comes up: in every interleaving of calls, timers and callbacks, with
  the broker answering in any way, the session counts as not connected. Hence there are exactly as many
  connections as calls of \<^verbatim>\<open>connect\<close> and a lost one is never replaced; while a connection is wanted the
  client counts as connecting. Nothing the broker delivers reaches the task, which only ever gets the
  two notices of the session; and when every message can be serialised, none is ever published.
\<close>

theorem mq_client_never_up:
  assumes "MqClient proc_name conf sub fresh = Some c0" "mq_reach E c0 c done_steps"
  shows "\<not> mq_is_connected (cl_session c) \<and>
    n_connections c = length (filter (\<lambda>s. s = User_connect) done_steps) \<and>
    (cl_auto_reconnect c \<longrightarrow> cl_is_connecting c) \<and>
    set (ms_upcalls (cl_session c)) \<subseteq> {mq_notice CMD_SESSION_OPEN (open_body E), mq_notice CMD_SESSION_CLOSE (close_body E)} \<and>
    ((\<forall>p. body_writes E p) \<longrightarrow> (\<forall>exch key bytes. Publish exch key bytes \<notin> set (ms_ops (cl_session c))))"
  using mq_reach_ok [OF assms(2) MqClient_ok [OF assms(1)]] idle_not_connected
  by (auto simp: mq_client_ok_def idle_session_def)

text \<open>A run: connect, the channel opens, a message is sent, and one arrives.\<close>

definition demo_mq_env :: "u8 list mq_env" where
  "demo_mq_env = \<lparr>mq_pb = \<lparr>pb_new = (\<lambda>p. p), pb_bytes = (\<lambda>p. p), pb_parse = (\<lambda>_ b. Some b), hd_bytes = (\<lambda>_. []), hd_parse = (\<lambda>_. None)\<rparr>,
     mq_maker = \<lparr>cmd_request = Map.empty, cmd_response = Map.empty, cmd_names = Map.empty\<rparr>, mq_be = False,
     mqh_bytes = (\<lambda>_. [1]), mqh_parse = (\<lambda>_. None), header_writes = (\<lambda>_. True), body_writes = (\<lambda>_. True),
     open_body = [], close_body = []\<rparr>"

lemma mq_client_never_up_witness:
  "\<exists>c0 c done_steps. MqClient ''p'' JNull [] (replicate 16 0) = Some c0 \<and> mq_reach demo_mq_env c0 c done_steps \<and>
     ms_upcalls (cl_session c) \<noteq> [] \<and> length done_steps = 4 \<and> n_connections c = 1 \<and>
     (\<forall>exch key bytes. Publish exch key bytes \<notin> set (ms_ops (cl_session c)))"
proof -
  let ?E = demo_mq_env
  obtain c0 :: "u8 list mq_client" where c0: "MqClient ''p'' JNull [] (replicate 16 0) = Some c0"
    "c0 = \<lparr>cl_session = MqSession MqInfo (replicate 16 0), cl_info = MqInfo, cl_waits = [], cl_auto_reconnect = False,
       cl_is_connecting = False, posted_inits = 0, posted_closes = 0\<rparr>"
    by (simp add: MqClient_def mq_parse_config_def)
  let ?msg = "mq_notice 1000 [7] :: u8 list mq_message"
  define c1 where "c1 = mq_do_connect c0"
  define c2 where "c2 = on_session mq_init (c1\<lparr>posted_inits := 0\<rparr>)"
  define c3 where "c3 = on_session (channel_ready_call ?E) c2"
  have 1: "mq_do_step ?E User_connect c0 = Some (Some c1)" by (simp add: c1_def)
  have 2: "mq_do_step ?E Run_init c1 = Some (Some c2)"
    by (simp add: c1_def c2_def c0(2) mq_do_connect_def register_timer_def connect_mq_def MqSession_def mq_is_connected_def)
  have 3: "mq_do_step ?E Channel_ready c2 = Some (Some c3)"
    by (simp add: c2_def c3_def on_session_def mq_init_def ask_def)
  have buf: "ms_buffer (cl_session c3) = new_buffer (replicate 16 0)"
    by (simp add: c3_def c2_def c1_def c0(2) on_session_def mq_init_def ask_def channel_ready_call_def give_up_def
        binding_exchange_def mq_do_connect_def register_timer_def connect_mq_def MqSession_def mq_is_connected_def)
  obtain s where s: "mq_do_send_message ?E ?msg (cl_session c3) = Some s" "ms_upcalls s = ms_upcalls (cl_session c3)"
    by (simp add: mq_do_send_message_def mq_do_write_def mq_notice_def demo_mq_env_def buf new_buffer_def MQ_BUF_SIZE_def
        encode_header_length_def encode_message_def put_bytes_def HEADER_LENGTH_def length_write_at REQUEST_TYPE_def)
  from s(1) have 4: "mq_do_step ?E (User_send ?msg) c3 = Some (Some (c3\<lparr>cl_session := s\<rparr>))"
    by (simp add: mq_send_def mq_notice_def new_mq_header_def CMD_SHUTDOWN_SESSION_def)
  define log4 where "log4 = [User_connect, Run_init, Channel_ready, User_send ?msg]"
  have run: "mq_reach ?E c0 (c3\<lparr>cl_session := s\<rparr>) log4"
    using mq_reach.step [OF mq_reach.step [OF mq_reach.step [OF mq_reach.step [OF mq_reach.start 1] 2] 3] 4]
    by (simp add: log4_def)
  from mq_client_never_up [OF c0(1) run]
  have "n_connections (c3\<lparr>cl_session := s\<rparr>) = 1"
    "\<forall>exch key bytes. Publish exch key bytes \<notin> set (ms_ops (cl_session (c3\<lparr>cl_session := s\<rparr>)))"
    by (simp_all add: log4_def demo_mq_env_def)
  moreover have "ms_upcalls s \<noteq> []"
    by (simp add: s(2) c3_def on_session_def channel_ready_call_def give_up_def)
  ultimately show ?thesis using c0(1) run
    by (intro exI [of _ c0] exI [of _ "c3\<lparr>cl_session := s\<rparr>"] exI [of _ log4]) (simp add: log4_def)
qed

end
